(* ===== verification/Prelude.thy ===== *)
theory Prelude
  imports Main "HOL-Library.Word"
begin

text \<open>
  The vocabulary the component theories share: the machine integers of a 64-bit target, Rust's
  panics as values, the error enum of \<^verbatim>\<open>src/src/error.rs\<close>, the standard library's hash map over a
  user-defined equality, little-endian memory images, and the decimal and hexadecimal printers
  behind \<^verbatim>\<open>{}\<close> and \<^verbatim>\<open>{:04x}\<close>. The locale \<open>key_eq\<close> is the contract of \<^verbatim>\<open>Eq\<close>: everything proved
  about a hash map holds for every equality that keeps it. Integer arithmetic is that of a release
  build: \<^verbatim>\<open>+\<close> and \<^verbatim>\<open>+=\<close> wrap.
\<close>

section \<open>Machine integers\<close>

type_synonym u8 = "8 word"
type_synonym u32 = "32 word"
type_synonym u64 = "64 word"
type_synonym usize = "64 word"
type_synonym i32 = "32 word"
type_synonym i64 = "64 word"
type_synonym isize = "64 word"

named_theorems hm_simps \<open>equations of the hash map operations\<close>
named_theorems wf_intros \<open>operations keep the well-formedness of their state\<close>

text \<open>\<^verbatim>\<open>v.max(0)\<close> on a signed value.\<close>

definition word_max0 :: "'a::len word \<Rightarrow> 'a word" where
  "word_max0 v = (if 0 \<le> sint v then v else 0)"

lemma uint_eq_sint_nonneg:
  assumes "0 \<le> sint (v :: 'a::len word)"
  shows "uint v = sint v"
proof -
  have "sint v < 2 ^ LENGTH('a)"
    using sint_lt [of v] by (rule order_less_le_trans) simp
  with assms show ?thesis by (simp add: uint_sint take_bit_int_eq_self)
qed

lemma uint_word_max0: "uint (word_max0 v) = max 0 (sint v)"
  by (simp add: word_max0_def uint_eq_sint_nonneg max_def)

lemma sint_of_nat_small:
  assumes "n < 2 ^ 63"
  shows "sint (of_nat n :: isize) = int n"
proof -
  have "int n < 2 ^ 63" using assms by (metis of_nat_less_iff of_nat_numeral of_nat_power)
  then have "signed_take_bit 63 (int n) = int n"
    by (intro signed_take_bit_int_eq_self) auto
  then show ?thesis
    using sint_sbintrunc' [of "int n", where 'a = 64] by simp
qed

lemma unat_of_nat_small: "n < 2 ^ 64 \<Longrightarrow> unat (of_nat n :: u64) = n"
  by (simp add: unat_of_nat take_bit_nat_eq_self)

section \<open>Panics and errors\<close>

text \<open>
  Every way in which a call does not return. \<open>OutOfBoundsRead\<close> and \<open>MisalignedRead\<close> are not panics but reads past the end
  of a buffer, of memory that is not mapped, or off alignment, through a raw pointer, which have no defined result.
\<close>

datatype panic =
    DivideByZero
  | IndexOutOfBounds
  | UnwrapFailed
  | SliceLengthMismatch
  | OutOfBoundsRead
  | DivideOverflow
  | MisalignedRead
  | ExplicitPanic

datatype 'a outcome = Return 'a | Panic panic

primrec obind :: "'a outcome \<Rightarrow> ('a \<Rightarrow> 'b outcome) \<Rightarrow> 'b outcome" where
  "obind (Return x) f = f x"
| "obind (Panic p) f = Panic p"

lemma obind_Return_iff: "obind x f = Return y \<longleftrightarrow> (\<exists>z. x = Return z \<and> f z = Return y)"
  by (cases x) auto

text \<open>
  \<^verbatim>\<open>std::io::Error\<close> and \<^verbatim>\<open>nix::Error\<close> carry an operating system code; the one kind the code
  itself can produce is \<^verbatim>\<open>read_exact\<close>'s \<^verbatim>\<open>UnexpectedEof\<close>.
\<close>

datatype io_error = OsError int | UnexpectedEof

datatype Error =
    NixError int
  | IoError io_error
  | CreatingError
  | Running
  | NotRunning

type_synonym 'a Result = "Error + 'a"

fun Error_message :: "(int \<Rightarrow> string) \<Rightarrow> (io_error \<Rightarrow> string) \<Rightarrow> Error \<Rightarrow> string" where
  "Error_message nix io (NixError e) = nix e"
| "Error_message nix io (IoError e) = io e"
| "Error_message nix io CreatingError = ''create profiler error''"
| "Error_message nix io Running = ''start running cpu profiler error''"
| "Error_message nix io NotRunning = ''stop running cpu profiler error''"

section \<open>Hash maps over a user-defined equality\<close>

text \<open>
  A \<^verbatim>\<open>HashMap<K, V>\<close> is the list of its entries in iteration order. Rust leaves that order open:
  the lemmas about a map that is read take an arbitrary list. \<open>hm_insert\<close> keeps the stored key of
  an entry that is already there and replaces its value, as \<^verbatim>\<open>HashMap::insert\<close> does.
\<close>

type_synonym ('k, 'v) hashmap = "('k \<times> 'v) list"

primrec hm_get :: "('k \<Rightarrow> 'k \<Rightarrow> bool) \<Rightarrow> ('k, 'v) hashmap \<Rightarrow> 'k \<Rightarrow> 'v option" where
  "hm_get eq [] k = None"
| "hm_get eq (p # m) k = (if eq (fst p) k then Some (snd p) else hm_get eq m k)"

primrec hm_insert :: "('k \<Rightarrow> 'k \<Rightarrow> bool) \<Rightarrow> ('k, 'v) hashmap \<Rightarrow> 'k \<Rightarrow> 'v \<Rightarrow> ('k, 'v) hashmap" where
  "hm_insert eq [] k v = [(k, v)]"
| "hm_insert eq (p # m) k v =
     (if eq (fst p) k then (fst p, v) # m else p # hm_insert eq m k v)"

primrec hm_remove :: "('k \<Rightarrow> 'k \<Rightarrow> bool) \<Rightarrow> ('k, 'v) hashmap \<Rightarrow> 'k \<Rightarrow> ('k, 'v) hashmap" where
  "hm_remove eq [] k = []"
| "hm_remove eq (p # m) k = (if eq (fst p) k then m else p # hm_remove eq m k)"

definition hm_distinct :: "('k \<Rightarrow> 'k \<Rightarrow> bool) \<Rightarrow> ('k, 'v) hashmap \<Rightarrow> bool" where
  "hm_distinct eq m = sorted_wrt (\<lambda>p q. \<not> eq (fst p) (fst q)) m"

lemma hm_distinct_simps [simp]:
  "hm_distinct eq []"
  "hm_distinct eq (p # m) \<longleftrightarrow> (\<forall>q \<in> set m. \<not> eq (fst p) (fst q)) \<and> hm_distinct eq m"
  by (auto simp: hm_distinct_def)

lemma hm_get_None_iff: "hm_get eq m k = None \<longleftrightarrow> (\<forall>p \<in> set m. \<not> eq (fst p) k)"
  by (induction m) auto

lemma hm_get_SomeD: "hm_get eq m k = Some v \<Longrightarrow> \<exists>k'. (k', v) \<in> set m \<and> eq k' k"
  by (induction m) (auto split: if_splits)

lemma hm_insert_new: "hm_get eq m k = None \<Longrightarrow> hm_insert eq m k v = m @ [(k, v)]"
  by (induction m) (auto split: if_splits)

lemma fst_set_hm_insert: "fst ` set (hm_insert eq m k v) \<subseteq> insert k (fst ` set m)"
  by (induction m) auto

lemma set_hm_remove: "set (hm_remove eq m k) \<subseteq> set m"
  by (induction m) auto

locale key_eq =
  fixes eq :: "'k \<Rightarrow> 'k \<Rightarrow> bool"
  assumes eq_refl [simp]: "eq x x"
    and eq_sym: "eq x y \<Longrightarrow> eq y x"
    and eq_trans: "eq x y \<Longrightarrow> eq y z \<Longrightarrow> eq x z"
begin

lemma eq_commute: "eq x y = eq y x"
  using eq_sym by blast

lemma eq_cong: "eq x y \<Longrightarrow> eq x z = eq y z"
  using eq_sym eq_trans by blast

lemma eq_cong_right: "eq x y \<Longrightarrow> eq z x = eq z y"
  using eq_sym eq_trans by blast

lemma get_cong: "eq k k' \<Longrightarrow> hm_get eq m k = hm_get eq m k'"
  by (induction m) (auto dest: eq_cong_right)

lemma get_insert: "hm_get eq (hm_insert eq m k v) k' = (if eq k k' then Some v else hm_get eq m k')"
proof (induction m)
  case (Cons p m)
  moreover have "\<not> (eq k k' \<and> eq (fst p) k')" if "\<not> eq (fst p) k"
    using that eq_sym eq_trans by blast
  ultimately show ?case
    using eq_cong [of "fst p" k k'] by auto
qed simp

lemma distinct_insert [wf_intros]:
  assumes "hm_distinct eq m"
  shows "hm_distinct eq (hm_insert eq m k v)"
  using assms
proof (induction m)
  case (Cons p m)
  show ?case
  proof (cases "eq (fst p) k")
    case True
    with Cons.prems show ?thesis by simp
  next
    case False
    have "\<not> eq (fst p) (fst q)" if "q \<in> set (hm_insert eq m k v)" for q
      using that False Cons.prems fst_set_hm_insert [of eq m k v] by fastforce
    with Cons False show ?thesis by simp
  qed
qed simp

lemma distinct_remove [wf_intros]: "hm_distinct eq m \<Longrightarrow> hm_distinct eq (hm_remove eq m k)"
  by (induction m) (use set_hm_remove in \<open>fastforce+\<close>)

lemma get_remove:
  assumes "hm_distinct eq m"
  shows "hm_get eq (hm_remove eq m k) k' = (if eq k k' then None else hm_get eq m k')"
  using assms
proof (induction m)
  case (Cons p m)
  show ?case
  proof (cases "eq (fst p) k")
    case True
    then have "eq (fst p) k' = eq k k'" by (rule eq_cong)
    moreover have "hm_get eq m k' = None" if "eq (fst p) k'"
      using that Cons.prems by (auto simp: hm_get_None_iff dest: eq_cong_right)
    ultimately show ?thesis using True by auto
  next
    case False
    then have "\<not> (eq k k' \<and> eq (fst p) k')"
      using eq_sym eq_trans by blast
    with Cons False show ?thesis by auto
  qed
qed simp

lemma get_in_set:
  assumes "hm_distinct eq m" and "(k, v) \<in> set m"
  shows "hm_get eq m k = Some v"
  using assms by (induction m) force+

lemmas hm_laws = get_insert get_remove get_cong distinct_insert distinct_remove

end

interpretation std_eq: key_eq "(=)"
  by unfold_locales auto

lemma hm_get_map_of: "hm_get (=) m = map_of m"
  by (rule ext) (induct_tac m, auto)

lemma hm_distinct_iff: "hm_distinct (=) m \<longleftrightarrow> distinct (map fst m)"
  by (induction m) auto

section \<open>Little-endian memory images\<close>

primrec le_bytes :: "nat \<Rightarrow> 'a::len word \<Rightarrow> u8 list" where
  "le_bytes 0 w = []"
| "le_bytes (Suc n) w = ucast w # le_bytes n (drop_bit 8 w)"

primrec le_word :: "u8 list \<Rightarrow> 'a::len word" where
  "le_word [] = 0"
| "le_word (b # bs) = or (ucast b) (push_bit 8 (le_word bs))"

lemma length_le_bytes [simp]: "length (le_bytes n w) = n"
  by (induction n arbitrary: w) auto

lemma bit_le_word_le_bytes:
  "i < LENGTH('a) \<Longrightarrow> bit (le_word (le_bytes n w) :: 'a::len word) i \<longleftrightarrow> i < 8 * n \<and> bit (w :: 'a word) i"
proof (induction n arbitrary: w i)
  case (Suc n)
  then show ?case
    by (auto simp: bit_or_iff bit_push_bit_iff bit_unsigned_iff bit_drop_bit_eq)
qed simp

lemma le_word_le_bytes:
  "LENGTH('a) \<le> 8 * n \<Longrightarrow> le_word (le_bytes n w) = (w :: 'a::len word)"
  by (rule bit_word_eqI) (auto simp: bit_le_word_le_bytes)

section \<open>Printing integers\<close>

definition digit_char :: "nat \<Rightarrow> char" where
  "digit_char d = char_of (if d < 10 then 48 + d else 87 + d)"

fun show_nat :: "nat \<Rightarrow> string" where
  "show_nat n = (if n < 10 then [digit_char n] else show_nat (n div 10) @ [digit_char (n mod 10)])"

declare show_nat.simps [simp del]

definition show_int :: "int \<Rightarrow> string" where
  "show_int i = (if i < 0 then ''-'' @ show_nat (nat (- i)) else show_nat (nat i))"

text \<open>\<^verbatim>\<open>{:04x}\<close>, for the values below \<open>2 ^ 16\<close> it is used on.\<close>

definition show_hex4 :: "nat \<Rightarrow> string" where
  "show_hex4 n = map digit_char [n div 4096 mod 16, n div 256 mod 16, n div 16 mod 16, n mod 16]"

primrec read_nat :: "nat \<Rightarrow> string \<Rightarrow> nat" where
  "read_nat acc [] = acc"
| "read_nat acc (c # cs) = read_nat (10 * acc + (of_char c - 48)) cs"

lemma read_nat_append: "read_nat acc (xs @ ys) = read_nat (read_nat acc xs) ys"
  by (induction xs arbitrary: acc) auto

lemma of_char_digit: "d < 10 \<Longrightarrow> (of_char (digit_char d) :: nat) = 48 + d"
  by (simp add: digit_char_def)

lemma read_show_nat: "read_nat 0 (show_nat n) = n"
proof (induction n rule: show_nat.induct)
  case (1 n)
  then show ?case
    by (subst show_nat.simps) (auto simp: read_nat_append of_char_digit)
qed

lemma show_nat_inj: "show_nat m = show_nat n \<Longrightarrow> m = n"
  by (metis read_show_nat)

lemma show_nat_digits: "c \<in> set (show_nat n) \<Longrightarrow> (of_char c :: nat) \<in> {48..57}"
proof (induction n rule: show_nat.induct)
  case (1 n)
  show ?case
  proof (cases "n < 10")
    case True
    with 1 show ?thesis by (auto simp: show_nat.simps [of n] of_char_digit)
  next
    case False
    have "n mod 10 < 10" by simp
    with False 1 show ?thesis by (auto simp: show_nat.simps [of n] of_char_digit)
  qed
qed

lemma show_nat_nonempty [simp]: "show_nat n \<noteq> []"
  by (subst show_nat.simps) simp

section \<open>Lists\<close>

lemma sorted_wrt_update:
  assumes "sorted_wrt R xs" and "i < length xs"
    and "\<And>j. j < i \<Longrightarrow> R (xs ! j) y" and "\<And>j. i < j \<Longrightarrow> j < length xs \<Longrightarrow> R y (xs ! j)"
  shows "sorted_wrt R (xs[i := y])"
  using assms by (auto simp: sorted_wrt_iff_nth_less nth_list_update)

lemma sum_list_swap:
  fixes xs :: "'b::comm_monoid_add list"
  assumes "i < length xs"
  shows "sum_list (xs[i := y]) + xs ! i = sum_list xs + y"
  using assms
proof (induction xs arbitrary: i)
  case (Cons x xs)
  show ?case
  proof (cases i)
    case 0
    then show ?thesis by (simp add: ac_simps)
  next
    case (Suc j)
    with Cons have "sum_list (xs[j := y]) + xs ! j = sum_list xs + y" by simp
    with Suc show ?thesis by (simp add: add.assoc)
  qed
qed simp

lemma sorted_wrt_concat:
  assumes "\<And>i. i < length xss \<Longrightarrow> sorted_wrt R (xss ! i)"
    and "\<And>i j x y. i < j \<Longrightarrow> j < length xss \<Longrightarrow> x \<in> set (xss ! i) \<Longrightarrow> y \<in> set (xss ! j) \<Longrightarrow> R x y"
  shows "sorted_wrt R (concat xss)"
  using assms
proof (induction xss)
  case (Cons xs xss)
  have "sorted_wrt R (concat xss)"
  proof (rule Cons.IH)
    show "sorted_wrt R (xss ! i)" if "i < length xss" for i
      using Cons.prems(1) [of "Suc i"] that by simp
    show "R x y" if "i < j" "j < length xss" "x \<in> set (xss ! i)" "y \<in> set (xss ! j)" for i j x y
      using Cons.prems(2) [of "Suc i" "Suc j" x y] that by simp
  qed
  moreover have "R x y" if "x \<in> set xs" "y \<in> set (concat xss)" for x y
  proof -
    from that(2) obtain ys where "ys \<in> set xss" "y \<in> set ys" by auto
    then obtain j where "j < length xss" "y \<in> set (xss ! j)"
      by (metis in_set_conv_nth)
    with that(1) Cons.prems(2) [of 0 "Suc j" x y] show ?thesis by simp
  qed
  ultimately show ?case
    using Cons.prems(1) [of 0] by (simp add: sorted_wrt_append)
qed simp

lemma zip_all_map_eq:
  "length xs = length ys \<Longrightarrow> list_all (\<lambda>(a, b). f a = f b) (zip xs ys) \<longleftrightarrow> map f xs = map f ys"
  by (induction xs ys rule: list_induct2) auto

lemma list_all2_map_eq: "list_all2 (\<lambda>a b. f a = f b) xs ys \<longleftrightarrow> map f xs = map f ys"
proof (induction xs arbitrary: ys)
  case (Cons x xs)
  then show ?case by (cases ys) auto
qed auto

end
