(* ===== verification/Utf8.thy ===== *)
theory Utf8
  imports Prelude
begin

text \<open>
  \<^verbatim>\<open>String::from_utf8_lossy\<close> of the Rust standard library, which \<^verbatim>\<open>src/src/frames.rs\<close> applies to
  symbol names, file names and thread names. Text is a list of bytes (\<open>char\<close>): a Rust \<^verbatim>\<open>String\<close> is
  its UTF-8 encoding. \<open>utf8_step\<close> looks at the front of a text: whether it is a well-formed sequence,
  and how many bytes it takes; a maximal ill-formed prefix becomes one U+FFFD.
\<close>

definition byte_in :: "nat \<Rightarrow> nat \<Rightarrow> char \<Rightarrow> bool" where
  "byte_in lo hi c \<longleftrightarrow> lo \<le> of_char c \<and> of_char c \<le> hi"

definition utf8_cont :: "char \<Rightarrow> bool" where
  "utf8_cont c = byte_in 128 191 c"

definition utf8_second3 :: "char \<Rightarrow> char \<Rightarrow> bool" where
  "utf8_second3 b c =
     (if of_char b = (0xE0 :: nat) then byte_in 0xA0 0xBF c
      else if of_char b = (0xED :: nat) then byte_in 0x80 0x9F c else utf8_cont c)"

definition utf8_second4 :: "char \<Rightarrow> char \<Rightarrow> bool" where
  "utf8_second4 b c =
     (if of_char b = (0xF0 :: nat) then byte_in 0x90 0xBF c
      else if of_char b = (0xF4 :: nat) then byte_in 0x80 0x8F c else utf8_cont c)"

text \<open>How many of the first \<open>n\<close> bytes of a text are continuation bytes.\<close>

primrec conts :: "nat \<Rightarrow> string \<Rightarrow> nat" where
  "conts 0 s = 0"
| "conts (Suc n) s = (case s of [] \<Rightarrow> 0 | c # s' \<Rightarrow> if utf8_cont c then Suc (conts n s') else 0)"

definition utf8_multi :: "nat \<Rightarrow> (char \<Rightarrow> bool) \<Rightarrow> string \<Rightarrow> bool \<times> nat" where
  "utf8_multi more second rest =
     (case rest of
        [] \<Rightarrow> (False, 1)
      | c # rest' \<Rightarrow>
          if second c then let k = conts more rest' in (k = more, 2 + k) else (False, 1))"

fun utf8_step :: "string \<Rightarrow> bool \<times> nat" where
  "utf8_step [] = (True, 0)"
| "utf8_step (b # rest) =
     (if byte_in 0 127 b then (True, 1)
      else if byte_in 0xC2 0xDF b then utf8_multi 0 utf8_cont rest
      else if byte_in 0xE0 0xEF b then utf8_multi 1 (utf8_second3 b) rest
      else if byte_in 0xF0 0xF4 b then utf8_multi 2 (utf8_second4 b) rest
      else (False, 1))"

definition replacement :: string where
  "replacement = [CHR 0xEF, CHR 0xBF, CHR 0xBD]"

lemma utf8_step_pos: "s \<noteq> [] \<Longrightarrow> 0 < snd (utf8_step s)"
  by (cases s) (auto simp: utf8_multi_def Let_def split: list.split)

function from_utf8_lossy :: "string \<Rightarrow> string" where
  "from_utf8_lossy s =
     (if s = [] then []
      else let (valid, n) = utf8_step s
           in (if valid then take n s else replacement) @ from_utf8_lossy (drop n s))"
  by pat_completeness auto
termination
proof (relation "measure length")
  fix s :: string and x valid n
  assume "s \<noteq> []" "x = utf8_step s" "(valid, n) = x"
  then show "(drop n s, s) \<in> measure length"
    using utf8_step_pos [of s] by (cases "utf8_step s") (auto simp: diff_less)
qed simp

declare from_utf8_lossy.simps [simp del]

function utf8_valid :: "string \<Rightarrow> bool" where
  "utf8_valid s =
     (if s = [] then True
      else let (valid, n) = utf8_step s in if valid then utf8_valid (drop n s) else False)"
  by pat_completeness auto
termination
proof (relation "measure length")
  fix s :: string and x valid n
  assume "s \<noteq> []" "x = utf8_step s" "(valid, n) = x"
  then show "(drop n s, s) \<in> measure length"
    using utf8_step_pos [of s] by (cases "utf8_step s") (auto simp: diff_less)
qed simp

declare utf8_valid.simps [simp del]

lemma utf8_valid_Nil [simp]: "utf8_valid []"
  by (simp add: utf8_valid.simps)

section \<open>Lemmas\<close>

lemma conts_le: "conts n s \<le> n" "conts n s \<le> length s"
  by (induction n arbitrary: s) (auto split: list.split)

lemma conts_append: "conts n s = n \<Longrightarrow> conts n (s @ t) = n"
  by (induction n arbitrary: s) (auto split: list.splits if_splits)

lemma conts_take: "conts n s = n \<Longrightarrow> conts n (take n s) = n"
  by (induction n arbitrary: s) (auto split: list.splits if_splits)

lemma utf8_multi_True: "fst (utf8_multi m p s) \<Longrightarrow> snd (utf8_multi m p s) = m + 2"
  by (auto simp: utf8_multi_def Let_def split: list.splits if_splits)

lemma utf8_multi_bound: "snd (utf8_multi m p s) \<le> Suc (length s)"
  using conts_le(2) by (auto simp: utf8_multi_def Let_def split: list.split)

lemma utf8_multi_front:
  assumes "fst (utf8_multi m p s)"
  shows "utf8_multi m p (take (Suc m) s @ t) = (True, m + 2)"
proof -
  from assms obtain c s' where "s = c # s'" "p c" "conts m s' = m"
    by (auto simp: utf8_multi_def Let_def split: list.splits if_splits)
  then show ?thesis
    using conts_append [OF conts_take, of m s' t] by (simp add: utf8_multi_def)
qed

lemma utf8_step_bound: "snd (utf8_step s) \<le> length s"
  by (cases s) (auto intro: utf8_multi_bound)

text \<open>A well-formed sequence stays one whatever follows it.\<close>

lemma utf8_step_front:
  assumes "utf8_step s = (True, n)" and "s \<noteq> []"
  shows "utf8_step (take n s @ t) = (True, n)"
proof -
  obtain b r where s: "s = b # r" using assms(2) by (cases s) auto
  have multi: "utf8_multi m p (take (n - 1) r @ t) = (True, n)" if "utf8_multi m p r = (True, n)" for m p
  proof -
    have "n = m + 2" using utf8_multi_True [of m p r] that by simp
    then show ?thesis using utf8_multi_front [of m p r t] that by simp
  qed
  have "0 < n" using utf8_step_pos [OF assms(2)] assms(1) by simp
  then have "take n s = b # take (n - 1) r" by (cases n) (auto simp: s)
  with assms(1) multi show ?thesis
    by (auto simp: s split: if_splits)
qed

lemma utf8_step_replacement: "utf8_step (replacement @ t) = (True, 3)"
  by (simp add: replacement_def utf8_multi_def utf8_second3_def utf8_cont_def byte_in_def)

lemma utf8_valid_step:
  assumes "utf8_step (x @ t) = (True, length x)" and "x \<noteq> []" and "utf8_valid t"
  shows "utf8_valid (x @ t)"
  using assms by (subst utf8_valid.simps) simp

lemma from_utf8_lossy_Nil [simp]: "from_utf8_lossy [] = []"
  by (simp add: from_utf8_lossy.simps)

lemma from_utf8_lossy_valid: "utf8_valid s \<Longrightarrow> from_utf8_lossy s = s"
proof (induction s rule: from_utf8_lossy.induct)
  case (1 s)
  show ?case
  proof (cases "s = []")
    case False
    obtain n where n: "utf8_step s = (True, n)" "utf8_valid (drop n s)"
      using "1.prems" False by (subst (asm) utf8_valid.simps) (auto split: prod.splits if_splits)
    with "1.IH" False have "from_utf8_lossy (drop n s) = drop n s" by simp
    with n False show ?thesis by (subst from_utf8_lossy.simps) simp
  qed simp
qed

lemma from_utf8_lossy_ascii: "\<forall>c \<in> set s. byte_in 0 127 c \<Longrightarrow> from_utf8_lossy s = s"
proof (induction s)
  case (Cons c s)
  then show ?case by (subst from_utf8_lossy.simps) simp
qed simp

section \<open>Properties\<close>

text \<open>
  \<^verbatim>\<open>String::from_utf8_lossy\<close> always gives well-formed UTF-8, leaves well-formed UTF-8 unchanged, and
  so is idempotent: symbol, file and thread names can be decoded twice without harm.
\<close>

lemma from_utf8_lossy_is_valid:
  "utf8_valid (from_utf8_lossy s) \<and> from_utf8_lossy (from_utf8_lossy s) = from_utf8_lossy s"
proof -
  have "utf8_valid (from_utf8_lossy s)"
  proof (induction s rule: from_utf8_lossy.induct)
    case (1 s)
    show ?case
    proof (cases "s = []")
      case False
      obtain valid n where step: "utf8_step s = (valid, n)" by fastforce
      with "1.IH" False have IH: "utf8_valid (from_utf8_lossy (drop n s))" by simp
      show ?thesis
      proof (cases valid)
        case True
        have n: "0 < n" "n \<le> length s"
          using utf8_step_pos [OF False] utf8_step_bound [of s] step by simp_all
        have "utf8_step (take n s @ from_utf8_lossy (drop n s)) = (True, length (take n s))"
          using utf8_step_front [of s n] step True False n by simp
        moreover have "take n s \<noteq> []" using n False by simp
        ultimately have "utf8_valid (take n s @ from_utf8_lossy (drop n s))"
          using IH by (rule utf8_valid_step)
        with step True False show ?thesis by (subst from_utf8_lossy.simps) simp
      next
        case False
        have "utf8_valid (replacement @ from_utf8_lossy (drop n s))"
          using utf8_step_replacement IH by (intro utf8_valid_step) (simp_all add: replacement_def)
        with step False \<open>s \<noteq> []\<close> show ?thesis by (subst from_utf8_lossy.simps) simp
      qed
    qed simp
  qed
  then show ?thesis using from_utf8_lossy_valid by blast
qed

end
