(* ===== verification/Hash_Counter.thy ===== *)
theory Hash_Counter
  imports Prelude
begin

text \<open>
  The in-memory half of the sample store of \<^verbatim>\<open>src/src/collector.rs\<close>: \<^verbatim>\<open>Bucket\<close>, four entries with
  eviction of a least count, and \<^verbatim>\<open>HashCounter\<close>, \<^verbatim>\<open>BUCKETS\<close> of them. The code is generic over a key with
  \<^verbatim>\<open>Eq\<close> and \<^verbatim>\<open>Hash\<close>; so are the definitions, which take the equality and the hash as arguments. The
  locale \<open>hash_key\<close> is the contract of the two traits; under it no count is lost or invented, a key
  occurs once in the table, and an eviction takes a least count.
\<close>

section \<open>Buckets\<close>

definition BUCKETS :: nat where
  "BUCKETS = 2 ^ 12"

definition BUCKETS_ASSOCIATIVITY :: nat where
  "BUCKETS_ASSOCIATIVITY = 4"

definition BUFFER_LENGTH :: "nat \<Rightarrow> nat" where
  "BUFFER_LENGTH size_of_entry = 2 ^ 18 div size_of_entry"

record 'a Entry =
  e_item :: 'a
  e_count :: isize

definition Entry_default :: "'a \<Rightarrow> 'a Entry" where
  "Entry_default d = \<lparr>e_item = d, e_count = 0\<rparr>"

record 'a Bucket =
  b_length :: nat
  b_entries :: "'a Entry list"

definition Bucket_default :: "'a \<Rightarrow> 'a Bucket" where
  "Bucket_default d =
     \<lparr>b_length = 0, b_entries = replicate BUCKETS_ASSOCIATIVITY (Entry_default d)\<rparr>"

primrec bump_matching ::
  "('a \<Rightarrow> 'a \<Rightarrow> bool) \<Rightarrow> 'a \<Rightarrow> isize \<Rightarrow> 'a Entry list \<Rightarrow> bool \<Rightarrow> 'a Entry list \<times> bool" where
  "bump_matching eq key count [] done_flag = ([], done_flag)"
| "bump_matching eq key count (ele # es) done_flag =
     (if eq (e_item ele) key
      then let (es', d) = bump_matching eq key count es True
           in (ele\<lparr>e_count := e_count ele + count\<rparr> # es', d)
      else let (es', d) = bump_matching eq key count es done_flag in (ele # es', d))"

definition min_scan :: "'a Entry list \<Rightarrow> nat \<Rightarrow> nat \<times> isize" where
  "min_scan entries len =
     fold (\<lambda>index (min_index, min_count).
        let count = e_count (entries ! index)
        in if sint count < sint min_count then (index, count) else (min_index, min_count))
       [0..<len] (0, e_count (entries ! 0))"

definition Bucket_add ::
  "('a \<Rightarrow> 'a \<Rightarrow> bool) \<Rightarrow> 'a Bucket \<Rightarrow> 'a \<Rightarrow> isize \<Rightarrow> 'a Bucket \<times> 'a Entry option" where
  "Bucket_add eq b key count =
     (let (bumped, done_flag) = bump_matching eq key count (take (b_length b) (b_entries b)) False;
          entries = bumped @ drop (b_length b) (b_entries b)
      in if done_flag then (b\<lparr>b_entries := entries\<rparr>, None)
         else if b_length b < BUCKETS_ASSOCIATIVITY
         then (\<lparr>b_length = b_length b + 1,
                b_entries = entries[b_length b := \<lparr>e_item = key, e_count = count\<rparr>]\<rparr>, None)
         else let (min_index, min_count) = min_scan entries (b_length b)
              in (b\<lparr>b_entries := entries[min_index := \<lparr>e_item = key, e_count = count\<rparr>]\<rparr>,
                  Some (entries ! min_index)))"

text \<open>\<^verbatim>\<open>BucketIterator\<close>: the bucket and the next index; \<open>Bucket_drain\<close> is the \<^verbatim>\<open>for\<close> loop over it.\<close>

definition BucketIterator_next :: "'a Bucket \<Rightarrow> nat \<Rightarrow> nat \<times> 'a Entry option" where
  "BucketIterator_next b index =
     (if index < b_length b then (index + 1, Some (b_entries b ! index)) else (index, None))"

function Bucket_drain :: "'a Bucket \<Rightarrow> nat \<Rightarrow> 'a Entry list" where
  "Bucket_drain b index =
     (case BucketIterator_next b index of
        (index', Some e) \<Rightarrow> e # Bucket_drain b index'
      | (_, None) \<Rightarrow> [])"
  by pat_completeness auto
termination
  by (relation "measure (\<lambda>(b, i). b_length b - i)")
     (auto simp: BucketIterator_next_def split: if_splits)

declare Bucket_drain.simps [simp del]

definition Bucket_iter :: "'a Bucket \<Rightarrow> 'a Entry list" where
  "Bucket_iter b = Bucket_drain b 0"

section \<open>The hash table\<close>

record 'a HashCounter =
  hc_buckets :: "'a Bucket list"

definition HashCounter_default :: "'a \<Rightarrow> 'a HashCounter" where
  "HashCounter_default d = \<lparr>hc_buckets = replicate BUCKETS (Bucket_default d)\<rparr>"

definition HashCounter_add ::
  "('a \<Rightarrow> 'a \<Rightarrow> bool) \<Rightarrow> ('a \<Rightarrow> u64) \<Rightarrow> 'a HashCounter \<Rightarrow> 'a \<Rightarrow> isize
     \<Rightarrow> 'a HashCounter \<times> 'a Entry option" where
  "HashCounter_add eq hash hc key count =
     (let hash_value = hash key;
          i = unat (hash_value mod of_nat BUCKETS);
          (bucket, evict) = Bucket_add eq (hc_buckets hc ! i) key count
      in (\<lparr>hc_buckets = (hc_buckets hc)[i := bucket]\<rparr>, evict))"

definition HashCounter_iter :: "'a HashCounter \<Rightarrow> 'a Entry list" where
  "HashCounter_iter hc = concat (map Bucket_iter (hc_buckets hc))"

section \<open>Weights and distinct keys\<close>

text \<open>
  \<open>weight f P\<close> adds up \<open>f\<close> of the counts of the entries whose key satisfies \<open>P\<close>. With \<open>f\<close> the identity
  it is the wrapping sum the code computes, with \<open>f = unat\<close> the true total. \<open>Bucket_live\<close> are the
  entries a bucket holds.
\<close>

definition weight :: "(isize \<Rightarrow> 'b::cancel_comm_monoid_add) \<Rightarrow> ('a \<Rightarrow> bool) \<Rightarrow> 'a Entry list \<Rightarrow> 'b" where
  "weight f P es = (\<Sum>e\<leftarrow>es. if P (e_item e) then f (e_count e) else 0)"

definition key_count :: "('a \<Rightarrow> 'a \<Rightarrow> bool) \<Rightarrow> 'a \<Rightarrow> 'a Entry list \<Rightarrow> isize" where
  "key_count eq k es = weight (\<lambda>c. c) (\<lambda>x. eq x k) es"

definition opt_list :: "'a option \<Rightarrow> 'a list" where
  "opt_list x = (case x of None \<Rightarrow> [] | Some y \<Rightarrow> [y])"

definition entries_distinct :: "('a \<Rightarrow> 'a \<Rightarrow> bool) \<Rightarrow> 'a Entry list \<Rightarrow> bool" where
  "entries_distinct eq es = sorted_wrt (\<lambda>a b. \<not> eq (e_item a) (e_item b)) es"

definition Bucket_live :: "'a Bucket \<Rightarrow> 'a Entry list" where
  "Bucket_live b = take (b_length b) (b_entries b)"

definition Bucket_wf :: "('a \<Rightarrow> 'a \<Rightarrow> bool) \<Rightarrow> 'a Bucket \<Rightarrow> bool" where
  "Bucket_wf eq b \<longleftrightarrow>
     length (b_entries b) = BUCKETS_ASSOCIATIVITY \<and> b_length b \<le> BUCKETS_ASSOCIATIVITY \<and>
     entries_distinct eq (Bucket_live b)"

lemma weight_simps [simp]:
  "weight f P [] = 0"
  "weight f P (e # es) = (if P (e_item e) then f (e_count e) else 0) + weight f P es"
  "weight f P (xs @ ys) = weight f P xs + weight f P ys"
  by (auto simp: weight_def)

lemma weight_concat: "weight f P (concat xss) = (\<Sum>xs\<leftarrow>xss. weight f P xs)"
  by (induction xss) auto

lemma weight_update:
  assumes "i < length es"
  shows "weight f P (es[i := e]) + weight f P [es ! i] = weight f P es + weight f P [e]"
  using assms sum_list_swap [of i "map (\<lambda>e. if P (e_item e) then f (e_count e) else 0) es"]
  by (simp add: weight_def map_update)

lemma opt_list_simps [simp]: "opt_list None = []" "opt_list (Some x) = [x]"
  by (auto simp: opt_list_def)

lemma bump_matching_eq:
  "bump_matching eq key count es d =
     (map (\<lambda>e. if eq (e_item e) key then e\<lparr>e_count := e_count e + count\<rparr> else e) es,
      d \<or> list_ex (\<lambda>e. eq (e_item e) key) es)"
  by (induction es arbitrary: d) (auto split: prod.splits)

lemma Bucket_drain_eq:
  "b_length b \<le> length (b_entries b) \<Longrightarrow> Bucket_drain b i = drop i (Bucket_live b)"
proof (induction b i rule: Bucket_drain.induct)
  case (1 b i)
  show ?case
  proof (cases "i < b_length b")
    case True
    with 1 have "Bucket_drain b (Suc i) = drop (Suc i) (Bucket_live b)"
      by (simp add: BucketIterator_next_def)
    moreover have "drop i (Bucket_live b) = b_entries b ! i # drop (Suc i) (Bucket_live b)"
      using True 1 Cons_nth_drop_Suc [of i "Bucket_live b"] by (simp add: Bucket_live_def)
    ultimately show ?thesis
      using True by (subst Bucket_drain.simps) (simp add: BucketIterator_next_def)
  next
    case False
    then show ?thesis
      by (subst Bucket_drain.simps) (simp add: BucketIterator_next_def Bucket_live_def)
  qed
qed

lemma Bucket_iter_eq: "Bucket_wf eq b \<Longrightarrow> Bucket_iter b = Bucket_live b"
  by (simp add: Bucket_iter_def Bucket_wf_def Bucket_drain_eq)

lemma Bucket_default_wf [simp]: "Bucket_wf eq (Bucket_default d)"
  by (simp add: Bucket_wf_def Bucket_default_def Bucket_live_def entries_distinct_def)

lemma Bucket_live_default [simp]: "Bucket_live (Bucket_default d) = []"
  by (simp add: Bucket_default_def Bucket_live_def)

text \<open>The scan for the eviction victim returns the first entry with the least count.\<close>

lemma min_scan_step:
  "min_scan entries (Suc n) =
     (let (mi, mc) = min_scan entries n; c = e_count (entries ! n)
      in if sint c < sint mc then (n, c) else (mi, mc))"
  by (simp add: min_scan_def split: prod.splits)

lemma min_scan_spec:
  assumes "min_scan entries n = (mi, mc)" and "0 < n"
  shows "mi < n \<and> mc = e_count (entries ! mi) \<and>
         (\<forall>j < n. sint mc \<le> sint (e_count (entries ! j))) \<and>
         (\<forall>j < mi. sint mc < sint (e_count (entries ! j)))"
  using assms
proof (induction n arbitrary: mi mc)
  case (Suc n)
  show ?case
  proof (cases "n = 0")
    case True
    with Suc.prems show ?thesis by (auto simp: min_scan_def)
  next
    case False
    obtain mi' mc' where m: "min_scan entries n = (mi', mc')" by fastforce
    with Suc.IH False have IH: "mi' < n" "mc' = e_count (entries ! mi')"
      "\<forall>j < n. sint mc' \<le> sint (e_count (entries ! j))"
      "\<forall>j < mi'. sint mc' < sint (e_count (entries ! j))"
      by blast+
    show ?thesis
    proof (cases "sint (e_count (entries ! n)) < sint mc'")
      case True
      with Suc.prems m have "mi = n" "mc = e_count (entries ! n)"
        by (auto simp: min_scan_step)
      with True IH show ?thesis by (auto simp: less_Suc_eq)
    next
      case False
      with Suc.prems m have "mi = mi'" "mc = mc'"
        by (auto simp: min_scan_step Let_def split: if_splits)
      with False IH show ?thesis by (auto simp: less_Suc_eq)
    qed
  qed
qed simp

section \<open>Adding to a bucket\<close>

text \<open>The three outcomes of \<open>Bucket_add\<close>, in terms of the entries the bucket holds.\<close>

definition Bucket_dims :: "'a Bucket \<Rightarrow> bool" where
  "Bucket_dims b \<longleftrightarrow>
     length (b_entries b) = BUCKETS_ASSOCIATIVITY \<and> b_length b \<le> BUCKETS_ASSOCIATIVITY"

lemma Bucket_wf_iff: "Bucket_wf eq b \<longleftrightarrow> Bucket_dims b \<and> entries_distinct eq (Bucket_live b)"
  by (auto simp: Bucket_wf_def Bucket_dims_def)

lemma Bucket_add_hit:
  assumes "Bucket_dims b" and "list_ex (\<lambda>e. eq (e_item e) key) (Bucket_live b)"
  shows "\<exists>b'. Bucket_add eq b key count = (b', None) \<and> Bucket_dims b' \<and>
    Bucket_live b' = map (\<lambda>e. if eq (e_item e) key then e\<lparr>e_count := e_count e + count\<rparr> else e)
      (Bucket_live b)"
  using assms
  by (auto simp: Bucket_add_def bump_matching_eq Bucket_live_def Bucket_dims_def min_def)

lemma bump_matching_miss:
  assumes "\<not> list_ex (\<lambda>e. eq (e_item e) key) es"
  shows "bump_matching eq key count es False = (es, False)"
proof -
  have "map (\<lambda>e. if eq (e_item e) key then e\<lparr>e_count := e_count e + count\<rparr> else e) es = es"
    using assms by (induction es) auto
  with assms show ?thesis by (simp add: bump_matching_eq)
qed

lemma Bucket_add_room:
  assumes "Bucket_dims b" and "\<not> list_ex (\<lambda>e. eq (e_item e) key) (Bucket_live b)"
    and "b_length b < BUCKETS_ASSOCIATIVITY"
  shows "\<exists>b'. Bucket_add eq b key count = (b', None) \<and> Bucket_dims b' \<and>
    Bucket_live b' = Bucket_live b @ [\<lparr>e_item = key, e_count = count\<rparr>]"
  using assms
  by (simp add: Bucket_add_def bump_matching_miss Bucket_live_def Bucket_dims_def take_Suc_conv_app_nth)

lemma Bucket_add_evict:
  assumes "Bucket_dims b" and "\<not> list_ex (\<lambda>e. eq (e_item e) key) (Bucket_live b)"
    and "\<not> b_length b < BUCKETS_ASSOCIATIVITY"
  shows "\<exists>b' mi. Bucket_add eq b key count = (b', Some (Bucket_live b ! mi)) \<and> Bucket_dims b' \<and>
    mi < length (Bucket_live b) \<and>
    Bucket_live b' = (Bucket_live b)[mi := \<lparr>e_item = key, e_count = count\<rparr>] \<and>
    (\<forall>e \<in> set (Bucket_live b). sint (e_count (Bucket_live b ! mi)) \<le> sint (e_count e))"
proof -
  have len: "b_length b = BUCKETS_ASSOCIATIVITY" "Bucket_live b = b_entries b"
    using assms(1,3) by (auto simp: Bucket_dims_def Bucket_live_def)
  obtain mi mc where m: "min_scan (b_entries b) (b_length b) = (mi, mc)" by fastforce
  with min_scan_spec [OF m] len
  have spec: "mi < b_length b" "\<forall>j < b_length b. sint (e_count (b_entries b ! mi)) \<le> sint (e_count (b_entries b ! j))"
    by (auto simp: BUCKETS_ASSOCIATIVITY_def)
  have add: "Bucket_add eq b key count =
      (b\<lparr>b_entries := (b_entries b)[mi := \<lparr>e_item = key, e_count = count\<rparr>]\<rparr>, Some (b_entries b ! mi))"
    using assms len m by (simp add: Bucket_add_def bump_matching_miss Bucket_live_def)
  have "\<forall>e \<in> set (b_entries b). sint (e_count (b_entries b ! mi)) \<le> sint (e_count e)"
    using spec(2) assms(1) len(1) by (auto simp: in_set_conv_nth Bucket_dims_def)
  with add assms(1) len spec(1) show ?thesis
    by (intro exI [of _ mi] exI) (auto simp: Bucket_dims_def Bucket_live_def)
qed

lemma Bucket_addE:
  assumes "Bucket_wf eq b" and "Bucket_add eq b key count = (b', ev)"
  obtains
    (hit) "list_ex (\<lambda>e. eq (e_item e) key) (Bucket_live b)" "ev = None" "Bucket_dims b'"
      "Bucket_live b' = map (\<lambda>e. if eq (e_item e) key then e\<lparr>e_count := e_count e + count\<rparr> else e)
         (Bucket_live b)"
  | (room) "\<not> list_ex (\<lambda>e. eq (e_item e) key) (Bucket_live b)" "ev = None" "Bucket_dims b'"
      "Bucket_live b' = Bucket_live b @ [\<lparr>e_item = key, e_count = count\<rparr>]"
  | (evict) mi where "\<not> list_ex (\<lambda>e. eq (e_item e) key) (Bucket_live b)"
      "ev = Some (Bucket_live b ! mi)" "Bucket_dims b'" "mi < length (Bucket_live b)"
      "Bucket_live b' = (Bucket_live b)[mi := \<lparr>e_item = key, e_count = count\<rparr>]"
      "\<forall>e \<in> set (Bucket_live b). sint (e_count (Bucket_live b ! mi)) \<le> sint (e_count e)"
proof -
  have dims: "Bucket_dims b" using assms(1) by (simp add: Bucket_wf_iff)
  show ?thesis
  proof (cases "list_ex (\<lambda>e. eq (e_item e) key) (Bucket_live b)")
    case True
    from Bucket_add_hit [of b eq key count, OF dims True] assms(2) True show ?thesis
      by (auto intro: hit)
  next
    case miss: False
    show ?thesis
    proof (cases "b_length b < BUCKETS_ASSOCIATIVITY")
      case True
      from Bucket_add_room [of b eq key count, OF dims miss True] assms(2) miss show ?thesis
        by (auto intro: room)
    next
      case False
      from Bucket_add_evict [of b eq key count, OF dims miss False] assms(2) miss show ?thesis
        by (auto intro: evict)
    qed
  qed
qed

context key_eq
begin

lemma weight_bump_hit:
  assumes "entries_distinct eq es" and "list_ex (\<lambda>e. eq (e_item e) key) es"
    and P: "\<And>x y. eq x y \<Longrightarrow> P x = P y"
    and f: "\<And>e. e \<in> set es \<Longrightarrow> f (e_count e + count) = f (e_count e) + f count"
  shows "weight f P (map (\<lambda>e. if eq (e_item e) key then e\<lparr>e_count := e_count e + count\<rparr> else e) es)
       = weight f P es + (if P key then f count else 0)"
  using assms(1,2) f
proof (induction es)
  case (Cons e es)
  let ?upd = "\<lambda>e. if eq (e_item e) key then e\<lparr>e_count := e_count e + count\<rparr> else e"
  show ?case
  proof (cases "eq (e_item e) key")
    case True
    have "\<not> eq (e_item e) (e_item x)" if "x \<in> set es" for x
      using that Cons.prems(1) by (simp add: entries_distinct_def)
    then have "\<not> eq (e_item x) key" if "x \<in> set es" for x
      using that True by (blast dest: eq_sym eq_trans)
    then have "map ?upd es = es" by (induction es) auto
    with True show ?thesis using P [OF True] Cons.prems(3) by (simp add: ac_simps)
  next
    case False
    with Cons show ?thesis by (simp add: entries_distinct_def ac_simps)
  qed
qed simp

lemma distinct_bump:
  "entries_distinct eq es \<Longrightarrow>
   entries_distinct eq (map (\<lambda>e. if eq (e_item e) key then e\<lparr>e_count := e_count e + count\<rparr> else e) es)"
  by (simp add: entries_distinct_def sorted_wrt_map) (erule sorted_wrt_mono_rel [rotated], simp)

lemma distinct_snoc:
  assumes "entries_distinct eq es" and "\<not> list_ex (\<lambda>e. eq (e_item e) key) es"
  shows "entries_distinct eq (es @ [\<lparr>e_item = key, e_count = count\<rparr>])"
  using assms by (auto simp: entries_distinct_def sorted_wrt_append list_ex_iff)

lemma distinct_replace:
  assumes "entries_distinct eq es" and "\<not> list_ex (\<lambda>e. eq (e_item e) key) es" and "i < length es"
  shows "entries_distinct eq (es[i := \<lparr>e_item = key, e_count = count\<rparr>])"
  unfolding entries_distinct_def
proof (rule sorted_wrt_update)
  show "\<not> eq (e_item (es ! j)) (e_item \<lparr>e_item = key, e_count = count\<rparr>)" if "j < i" for j
    using that assms by (auto simp: list_ex_length)
  show "\<not> eq (e_item \<lparr>e_item = key, e_count = count\<rparr>) (e_item (es ! j))" if "i < j" "j < length es" for j
    using that assms eq_sym by (auto simp: list_ex_length)
qed (use assms in \<open>simp_all add: entries_distinct_def\<close>)

lemma Bucket_add_wf:
  assumes "Bucket_wf eq b" and "Bucket_add eq b key count = (b', ev)"
  shows "Bucket_wf eq b'"
  using assms
proof (cases rule: Bucket_addE)
  case hit
  with assms(1) show ?thesis by (simp add: Bucket_wf_iff distinct_bump)
next
  case room
  with assms(1) show ?thesis by (simp add: Bucket_wf_iff distinct_snoc)
next
  case evict
  with assms(1) show ?thesis by (simp add: Bucket_wf_iff distinct_replace)
qed

lemma Bucket_add_weight:
  assumes "Bucket_wf eq b" and "Bucket_add eq b key count = (b', ev)"
    and P: "\<And>x y. eq x y \<Longrightarrow> P x = P y"
    and f: "\<And>e. e \<in> set (Bucket_live b) \<Longrightarrow> f (e_count e + count) = f (e_count e) + f count"
  shows "weight f P (Bucket_live b') + weight f P (opt_list ev)
       = weight f P (Bucket_live b) + (if P key then f count else 0)"
  using assms(1,2)
proof (cases rule: Bucket_addE)
  case hit
  with weight_bump_hit [OF _ hit(1) P f] assms(1) show ?thesis by (simp add: Bucket_wf_iff)
next
  case room
  then show ?thesis by simp
next
  case (evict mi)
  then show ?thesis using weight_update [OF evict(4), of f P] by simp
qed

lemma Bucket_add_origin:
  assumes "Bucket_wf eq b" and "Bucket_add eq b key count = (b', ev)"
    and "e \<in> set (Bucket_live b') \<union> set (opt_list ev)"
  shows "e = \<lparr>e_item = key, e_count = count\<rparr> \<or>
    (\<exists>e' \<in> set (Bucket_live b). e = e' \<or> e = e'\<lparr>e_count := e_count e' + count\<rparr>)"
  using assms(1,2)
proof (cases rule: Bucket_addE)
  case hit
  with assms(3) show ?thesis by auto
next
  case room
  with assms(3) show ?thesis by auto
next
  case (evict mi)
  with assms(3) show ?thesis by (auto dest!: set_update_subset_insert [THEN subsetD])
qed

end

section \<open>Adding to the hash table\<close>

text \<open>
  \<open>hash_key\<close> is what \<^verbatim>\<open>Hash\<close> promises beside \<^verbatim>\<open>Eq\<close>: equal keys have equal hashes. The invariant puts
  every entry in the bucket of its hash, so a key has one place in the table.
\<close>

definition HashCounter_index :: "('a \<Rightarrow> u64) \<Rightarrow> 'a \<Rightarrow> nat" where
  "HashCounter_index hash key = unat (hash key mod of_nat BUCKETS)"

definition HashCounter_wf :: "('a \<Rightarrow> 'a \<Rightarrow> bool) \<Rightarrow> ('a \<Rightarrow> u64) \<Rightarrow> 'a HashCounter \<Rightarrow> bool" where
  "HashCounter_wf eq hash hc \<longleftrightarrow>
     length (hc_buckets hc) = BUCKETS \<and>
     (\<forall>i < BUCKETS. Bucket_wf eq (hc_buckets hc ! i) \<and>
        (\<forall>e \<in> set (Bucket_live (hc_buckets hc ! i)). HashCounter_index hash (e_item e) = i))"

lemma HashCounter_index_less: "HashCounter_index hash key < BUCKETS"
  by (simp add: HashCounter_index_def BUCKETS_def unat_mod unat_of_nat_small)

lemma HashCounter_default_wf: "HashCounter_wf eq hash (HashCounter_default d)"
  by (simp add: HashCounter_wf_def HashCounter_default_def)

lemma HashCounter_iter_eq:
  assumes "HashCounter_wf eq hash hc"
  shows "HashCounter_iter hc = concat (map Bucket_live (hc_buckets hc))"
proof -
  have "map Bucket_iter (hc_buckets hc) = map Bucket_live (hc_buckets hc)"
    using assms
    by (intro map_cong) (auto simp: HashCounter_wf_def in_set_conv_nth Bucket_iter_eq)
  then show ?thesis by (simp only: HashCounter_iter_def)
qed

lemma HashCounter_iter_default: "HashCounter_iter (HashCounter_default d) = []"
  using HashCounter_default_wf [of "(=)" "\<lambda>_. 0" d]
  by (simp add: HashCounter_iter_eq) (simp add: HashCounter_default_def)

locale hash_key = key_eq eq for eq :: "'a \<Rightarrow> 'a \<Rightarrow> bool" +
  fixes hash :: "'a \<Rightarrow> u64"
  assumes hash_cong: "eq x y \<Longrightarrow> hash x = hash y"
begin

lemma index_cong: "eq x y \<Longrightarrow> HashCounter_index hash x = HashCounter_index hash y"
  using hash_cong by (simp add: HashCounter_index_def)

lemma HashCounter_add_wf [wf_intros]:
  assumes wf: "HashCounter_wf eq hash hc"
  shows "HashCounter_wf eq hash (fst (HashCounter_add eq hash hc key count))"
proof -
  let ?i = "HashCounter_index hash key"
  let ?b = "hc_buckets hc ! ?i"
  obtain b' ev where add: "Bucket_add eq ?b key count = (b', ev)" by fastforce
  have i: "?i < BUCKETS" by (rule HashCounter_index_less)
  with wf have b: "Bucket_wf eq ?b" "\<forall>e \<in> set (Bucket_live ?b). HashCounter_index hash (e_item e) = ?i"
    by (auto simp: HashCounter_wf_def)
  have "Bucket_wf eq b'"
    using Bucket_add_wf [OF b(1) add] .
  moreover have "\<forall>e \<in> set (Bucket_live b'). HashCounter_index hash (e_item e) = ?i"
    using Bucket_add_origin [OF b(1) add] b(2) by fastforce
  ultimately show ?thesis
    using wf i add
    by (auto simp: HashCounter_wf_def HashCounter_add_def HashCounter_index_def Let_def nth_list_update)
qed

lemma HashCounter_addE:
  assumes wf: "HashCounter_wf eq hash hc" and add: "HashCounter_add eq hash hc key count = (hc', ev)"
  obtains i b' where "i < length (hc_buckets hc)" and "Bucket_wf eq (hc_buckets hc ! i)"
    and "Bucket_add eq (hc_buckets hc ! i) key count = (b', ev)"
    and "HashCounter_iter hc = concat (map Bucket_live (hc_buckets hc))"
    and "HashCounter_iter hc' = concat ((map Bucket_live (hc_buckets hc))[i := Bucket_live b'])"
proof -
  let ?i = "HashCounter_index hash key"
  obtain b' where b': "Bucket_add eq (hc_buckets hc ! ?i) key count = (b', ev)"
    and hc': "hc' = \<lparr>hc_buckets = (hc_buckets hc)[?i := b']\<rparr>"
    using add by (auto simp: HashCounter_add_def HashCounter_index_def Let_def split: prod.splits)
  have i: "?i < length (hc_buckets hc)" and b: "Bucket_wf eq (hc_buckets hc ! ?i)"
    using wf HashCounter_index_less [of hash key] by (auto simp: HashCounter_wf_def)
  have wf': "HashCounter_wf eq hash hc'"
    using HashCounter_add_wf [OF wf, of key count] add by simp
  show ?thesis
    using that [OF i b b' HashCounter_iter_eq [OF wf]] HashCounter_iter_eq [OF wf']
    by (simp add: hc' map_update)
qed

lemma HashCounter_add_weight:
  assumes wf: "HashCounter_wf eq hash hc" and add: "HashCounter_add eq hash hc key count = (hc', ev)"
    and P: "\<And>x y. eq x y \<Longrightarrow> P x = P y"
    and f: "\<And>e. e \<in> set (HashCounter_iter hc) \<Longrightarrow> f (e_count e + count) = f (e_count e) + f count"
  shows "weight f P (HashCounter_iter hc') + weight f P (opt_list ev)
       = weight f P (HashCounter_iter hc) + (if P key then f count else 0)"
proof -
  let ?w = "weight f P"
  obtain i b' where i: "i < length (hc_buckets hc)" "Bucket_wf eq (hc_buckets hc ! i)"
    and b': "Bucket_add eq (hc_buckets hc ! i) key count = (b', ev)"
    and it: "HashCounter_iter hc = concat (map Bucket_live (hc_buckets hc))"
      "HashCounter_iter hc' = concat ((map Bucket_live (hc_buckets hc))[i := Bucket_live b'])"
    using HashCounter_addE [OF wf add] .
  let ?b = "Bucket_live (hc_buckets hc ! i)"
  have live: "set ?b \<subseteq> set (HashCounter_iter hc)"
    using i(1) by (auto simp: it(1) intro: nth_mem)
  have b: "?w (Bucket_live b') + ?w (opt_list ev) = ?w ?b + (if P key then f count else 0)"
    using Bucket_add_weight [OF i(2) b', of P f] P f live by blast
  have "?w (HashCounter_iter hc') + ?w ?b = ?w (HashCounter_iter hc) + ?w (Bucket_live b')"
    using i(1) sum_list_swap [of i "map (\<lambda>b. ?w (Bucket_live b)) (hc_buckets hc)" "?w (Bucket_live b')"]
    by (simp add: it weight_concat map_update comp_def)
  then have "?w (HashCounter_iter hc') + ?w (opt_list ev) + ?w ?b =
        ?w (HashCounter_iter hc) + (if P key then f count else 0) + ?w ?b"
    using b by (metis (no_types, lifting) add.assoc add.commute)
  then show ?thesis by (rule add_right_imp_eq)
qed

lemma HashCounter_iter_distinct:
  assumes wf: "HashCounter_wf eq hash hc"
  shows "entries_distinct eq (HashCounter_iter hc)"
  unfolding HashCounter_iter_eq [OF wf] entries_distinct_def
proof (rule sorted_wrt_concat)
  fix i assume "i < length (map Bucket_live (hc_buckets hc))"
  with wf show "sorted_wrt (\<lambda>a b. \<not> eq (e_item a) (e_item b)) (map Bucket_live (hc_buckets hc) ! i)"
    by (auto simp: HashCounter_wf_def Bucket_wf_def entries_distinct_def)
next
  fix i j x y
  assume "i < j" "j < length (map Bucket_live (hc_buckets hc))"
    "x \<in> set (map Bucket_live (hc_buckets hc) ! i)" "y \<in> set (map Bucket_live (hc_buckets hc) ! j)"
  with wf have "HashCounter_index hash (e_item x) = i" "HashCounter_index hash (e_item y) = j" "i \<noteq> j"
    by (simp_all add: HashCounter_wf_def)
  then have "HashCounter_index hash (e_item x) \<noteq> HashCounter_index hash (e_item y)" by simp
  then show "\<not> eq (e_item x) (e_item y)" using index_cong by blast
qed

lemma HashCounter_add_origin:
  assumes wf: "HashCounter_wf eq hash hc" and add: "HashCounter_add eq hash hc key count = (hc', ev)"
    and e: "e \<in> set (HashCounter_iter hc') \<union> set (opt_list ev)"
  shows "e = \<lparr>e_item = key, e_count = count\<rparr> \<or>
    (\<exists>e' \<in> set (HashCounter_iter hc). e = e' \<or> e = e'\<lparr>e_count := e_count e' + count\<rparr>)"
proof -
  obtain i b' where i: "i < length (hc_buckets hc)" "Bucket_wf eq (hc_buckets hc ! i)"
    and b': "Bucket_add eq (hc_buckets hc ! i) key count = (b', ev)"
    and it: "HashCounter_iter hc = concat (map Bucket_live (hc_buckets hc))"
      "HashCounter_iter hc' = concat ((map Bucket_live (hc_buckets hc))[i := Bucket_live b'])"
    using HashCounter_addE [OF wf add] .
  have live: "set (Bucket_live (hc_buckets hc ! i)) \<subseteq> set (HashCounter_iter hc)"
    using i(1) by (auto simp: it(1) intro: nth_mem)
  have "e \<in> set (Bucket_live b') \<union> set (opt_list ev) \<or> e \<in> set (HashCounter_iter hc)"
    using e unfolding it by (auto dest!: set_update_subset_insert [THEN subsetD])
  then show ?thesis
    using Bucket_add_origin [OF i(2) b'] live by blast
qed

end

interpretation usize_key: hash_key "(=)" hash for hash :: "usize \<Rightarrow> u64"
  by unfold_locales auto


section \<open>Properties\<close>

text \<open>\<open>HashCounter_run\<close> is a sequence of \<^verbatim>\<open>add\<close> calls whose evictions the caller keeps.\<close>

primrec HashCounter_run ::
  "('a \<Rightarrow> 'a \<Rightarrow> bool) \<Rightarrow> ('a \<Rightarrow> u64) \<Rightarrow> 'a HashCounter \<Rightarrow> ('a \<times> isize) list
     \<Rightarrow> 'a HashCounter \<times> 'a Entry list" where
  "HashCounter_run eq hash hc [] = (hc, [])"
| "HashCounter_run eq hash hc (op # ops) =
     (let (hc', ev) = HashCounter_add eq hash hc (fst op) (snd op);
          (hc'', evs) = HashCounter_run eq hash hc' ops
      in (hc'', opt_list ev @ evs))"

definition key_added :: "('a \<Rightarrow> 'a \<Rightarrow> bool) \<Rightarrow> 'a \<Rightarrow> ('a \<times> isize) list \<Rightarrow> isize" where
  "key_added eq k ops = (\<Sum>(key, count)\<leftarrow>ops. if eq key k then count else 0)"

lemma hash_keyI:
  assumes "equivp eq" and "\<forall>x y. eq x y \<longrightarrow> hash x = hash y"
  shows "hash_key eq hash"
proof unfold_locales
  show "eq x x" for x using assms(1) by (rule equivp_reflp)
  show "eq y x" if "eq x y" for x y using assms(1) that by (rule equivp_symp)
  show "eq x z" if "eq x y" "eq y z" for x y z using assms(1) that by (rule equivp_transp)
  show "hash x = hash y" if "eq x y" for x y using assms(2) that by blast
qed

context hash_key
begin

lemma HashCounter_run_laws:
  assumes "HashCounter_wf eq hash hc" and "HashCounter_run eq hash hc ops = (hc', evs)"
  shows "HashCounter_wf eq hash hc' \<and>
    key_count eq k (HashCounter_iter hc' @ evs) = key_count eq k (HashCounter_iter hc) + key_added eq k ops"
  using assms
proof (induction ops arbitrary: hc evs)
  case Nil
  then show ?case by (simp add: key_added_def)
next
  case (Cons op ops)
  obtain hc1 ev where add: "HashCounter_add eq hash hc (fst op) (snd op) = (hc1, ev)" by fastforce
  obtain evs1 where run: "HashCounter_run eq hash hc1 ops = (hc', evs1)" and evs: "evs = opt_list ev @ evs1"
    using Cons.prems(2) add by (auto split: prod.splits)
  have wf1: "HashCounter_wf eq hash hc1"
    using HashCounter_add_wf [OF Cons.prems(1), of "fst op" "snd op"] add by simp
  note IH = Cons.IH [OF wf1 run]
  have "key_count eq k (HashCounter_iter hc1) + key_count eq k (opt_list ev) =
      key_count eq k (HashCounter_iter hc) + (if eq (fst op) k then snd op else 0)"
    unfolding key_count_def
    using HashCounter_add_weight [OF Cons.prems(1) add, of "\<lambda>x. eq x k" "\<lambda>c. c"] eq_cong by blast
  moreover have "key_count eq k (HashCounter_iter hc' @ evs) =
      key_count eq k (HashCounter_iter hc' @ evs1) + key_count eq k (opt_list ev)"
    by (simp add: evs key_count_def)
  moreover have "key_added eq k (op # ops) = (if eq (fst op) k then snd op else 0) + key_added eq k ops"
    by (simp add: key_added_def split: prod.splits)
  ultimately show ?case using IH by (simp only: ac_simps)
qed

end

text \<open>
  \<^verbatim>\<open>HashCounter\<close> is an exact counter with unique keys. After any sequence of \<^verbatim>\<open>add\<close> calls on a new
  counter, for any equality and hash that keep the contract of \<^verbatim>\<open>Eq\<close> and \<^verbatim>\<open>Hash\<close>: the table is well
  formed, \<^verbatim>\<open>iter\<close> yields each key at most once, and for every key the counts \<^verbatim>\<open>iter\<close> yields and the
  counts that were evicted on the way add up to the counts that were added.
\<close>

lemma hash_counter_conserves:
  assumes "equivp eq" and "\<forall>x y. eq x y \<longrightarrow> hash x = hash y"
    and "HashCounter_run eq hash (HashCounter_default d) ops = (hc, evs)"
  shows "HashCounter_wf eq hash hc \<and> entries_distinct eq (HashCounter_iter hc) \<and>
    (\<forall>k. key_count eq k (HashCounter_iter hc @ evs) = key_added eq k ops)"
proof -
  have hk: "hash_key eq hash" using assms(1,2) by (rule hash_keyI)
  note laws = hash_key.HashCounter_run_laws [OF hk HashCounter_default_wf assms(3)]
  show ?thesis
    using laws hash_key.HashCounter_iter_distinct [OF hk]
    by (simp add: HashCounter_iter_default key_count_def)
qed

lemma hash_counter_conserves_witness:
  "\<exists>hc evs. HashCounter_run (=) (\<lambda>x. x) (HashCounter_default (0 :: usize)) [(0, 1), (1, 1), (1, 1)] = (hc, evs)
     \<and> entries_distinct (=) (HashCounter_iter hc)
     \<and> key_count (=) 1 (HashCounter_iter hc @ evs) = 2"
proof -
  let ?ops = "[(0, 1), (1, 1), (1, 1)] :: (usize \<times> isize) list"
  obtain hc evs where run: "HashCounter_run (=) (\<lambda>x. x) (HashCounter_default (0 :: usize)) ?ops = (hc, evs)"
    by fastforce
  have "equivp ((=) :: usize \<Rightarrow> usize \<Rightarrow> bool)" by (rule identity_equivp)
  from hash_counter_conserves [OF this _ run]
  have "entries_distinct (=) (HashCounter_iter hc) \<and>
      key_count (=) 1 (HashCounter_iter hc @ evs) = key_added (=) 1 ?ops" by blast
  then show ?thesis using run by (simp add: key_added_def)
qed

text \<open>
  What \<^verbatim>\<open>Bucket::add\<close> evicts. On a well-formed bucket it evicts only when the bucket is full and
  does not hold the key; the evicted entry is one the bucket held, with a least (signed) count, and
  the new key takes its place: the bucket then holds the key with exactly the given count.
\<close>

lemma bucket_add_evicts_least:
  assumes "Bucket_wf eq b" and "Bucket_add eq b key count = (b', Some ev)"
  shows "b_length b = BUCKETS_ASSOCIATIVITY \<and> \<not> (\<exists>e \<in> set (Bucket_iter b). eq (e_item e) key) \<and>
    ev \<in> set (Bucket_iter b) \<and> (\<forall>e \<in> set (Bucket_iter b). sint (e_count ev) \<le> sint (e_count e)) \<and>
    (\<exists>i < BUCKETS_ASSOCIATIVITY. Bucket_live b ! i = ev \<and>
       Bucket_live b' = (Bucket_live b)[i := \<lparr>e_item = key, e_count = count\<rparr>])"
proof -
  have full: "b_length b = BUCKETS_ASSOCIATIVITY"
    using assms by (auto simp: Bucket_add_def Bucket_wf_def Let_def split: prod.splits if_splits)
  have live: "length (Bucket_live b) = BUCKETS_ASSOCIATIVITY"
    using assms(1) full by (simp add: Bucket_live_def Bucket_wf_def)
  from assms show ?thesis
  proof (cases rule: Bucket_addE)
    case (evict mi)
    with full live Bucket_iter_eq [OF assms(1)] show ?thesis
      by (auto simp: list_ex_iff intro: nth_mem)
  qed simp_all
qed

lemma bucket_add_evicts_least_witness:
  "let es = [\<lparr>e_item = 1, e_count = 5\<rparr>, \<lparr>e_item = 2, e_count = 3\<rparr>, \<lparr>e_item = 3, e_count = 3\<rparr>,
             \<lparr>e_item = 4, e_count = 9\<rparr>] :: usize Entry list;
       b = \<lparr>b_length = 4, b_entries = es\<rparr>
   in Bucket_wf (=) b \<and>
      snd (Bucket_add (=) b 7 1) = Some \<lparr>e_item = 2, e_count = 3\<rparr> \<and>
      (\<forall>e \<in> set (Bucket_iter b). sint (3 :: isize) \<le> sint (e_count e))"
proof -
  let ?es = "[\<lparr>e_item = 1, e_count = 5\<rparr>, \<lparr>e_item = 2, e_count = 3\<rparr>, \<lparr>e_item = 3, e_count = 3\<rparr>,
             \<lparr>e_item = 4, e_count = 9\<rparr>] :: usize Entry list"
  let ?b = "\<lparr>b_length = 4, b_entries = ?es\<rparr>"
  have wf: "Bucket_wf (=) ?b"
    by (simp add: Bucket_wf_def Bucket_live_def entries_distinct_def BUCKETS_ASSOCIATIVITY_def)
  have add: "Bucket_add (=) ?b 7 1 =
      (\<lparr>b_length = 4, b_entries = ?es[1 := \<lparr>e_item = 7, e_count = 1\<rparr>]\<rparr>, Some \<lparr>e_item = 2, e_count = 3\<rparr>)"
    by (simp add: Bucket_add_def BUCKETS_ASSOCIATIVITY_def min_scan_def upt_rec)
  have least: "\<forall>e \<in> set (Bucket_iter ?b). sint (3 :: isize) \<le> sint (e_count e)"
    using bucket_add_evicts_least [OF wf add] by (elim conjE) (simp only: Entry.simps)
  show ?thesis unfolding Let_def using wf least by (simp only: add snd_conv simp_thms)
qed

end
