(* ===== verification/Temp_Fd_Array.thy ===== *)
theory Temp_Fd_Array
  imports Prelude
begin

text \<open>
  The spill file of \<^verbatim>\<open>src/src/collector.rs\<close>: \<^verbatim>\<open>TempFdArray\<close>, an array that appends its buffer to a
  temporary file when the buffer is full, and the iterator that reads it back. The file is kept as
  bytes: \<open>mem_layout\<close> is the memory image of an entry, which the compiler chooses, and the locale
  \<open>layout_laws\<close> says what a memory image is. The lemmas show that what is pushed is read back, and
  what a failed write does.
\<close>

section \<open>The spill file\<close>

record 'e mem_layout =
  size_of :: nat
  to_bytes :: "'e \<Rightarrow> u8 list"
  from_bytes :: "u8 list \<Rightarrow> 'e"

text \<open>
  What the file system does with one \<^verbatim>\<open>write_all\<close>: all of it, or an error after a strict prefix;
  and the results of \<^verbatim>\<open>reopen\<close>, \<^verbatim>\<open>read_exact\<close> (apart from a short file) and \<^verbatim>\<open>seek\<close>.
\<close>

datatype write_res = Written | WriteFailed nat io_error

record read_res =
  r_reopen :: "io_error option"
  r_read :: "io_error option"
  r_seek :: "io_error option"

definition read_ok :: read_res where
  "read_ok = \<lparr>r_reopen = None, r_read = None, r_seek = None\<rparr>"

record 'e TempFdArray =
  t_file :: "u8 list"
  t_buffer :: "'e list"
  t_buffer_index :: nat
  t_flush_n :: nat

definition TempFdArray_new :: "nat \<Rightarrow> 'e \<Rightarrow> io_error option \<Rightarrow> io_error + 'e TempFdArray" where
  "TempFdArray_new buffer_length d create_err =
     (case create_err of
        Some e \<Rightarrow> Inl e
      | None \<Rightarrow> Inr \<lparr>t_file = [], t_buffer = replicate buffer_length d,
                     t_buffer_index = 0, t_flush_n = 0\<rparr>)"

definition TempFdArray_flush_buffer ::
  "'e mem_layout \<Rightarrow> write_res \<Rightarrow> 'e TempFdArray \<Rightarrow> 'e TempFdArray \<times> (io_error + unit)" where
  "TempFdArray_flush_buffer L w t =
     (let buf = concat (map (to_bytes L) (t_buffer t));
          t' = t\<lparr>t_buffer_index := 0, t_flush_n := t_flush_n t + 1\<rparr>
      in case w of
           Written \<Rightarrow> (t'\<lparr>t_file := t_file t @ buf\<rparr>, Inr ())
         | WriteFailed n e \<Rightarrow> (t'\<lparr>t_file := t_file t @ take n buf\<rparr>, Inl e))"

definition TempFdArray_store :: "'e TempFdArray \<Rightarrow> 'e \<Rightarrow> 'e TempFdArray outcome" where
  "TempFdArray_store t entry =
     (if t_buffer_index t < length (t_buffer t)
      then Return (t\<lparr>t_buffer := (t_buffer t)[t_buffer_index t := entry],
                     t_buffer_index := t_buffer_index t + 1\<rparr>)
      else Panic IndexOutOfBounds)"

definition TempFdArray_push ::
  "'e mem_layout \<Rightarrow> write_res \<Rightarrow> 'e TempFdArray \<Rightarrow> 'e
     \<Rightarrow> ('e TempFdArray \<times> (io_error + unit)) outcome" where
  "TempFdArray_push L w t entry =
     (if t_buffer_index t \<ge> length (t_buffer t)
      then case TempFdArray_flush_buffer L w t of
             (t', Inl e) \<Rightarrow> Return (t', Inl e)
           | (t', Inr _) \<Rightarrow> obind (TempFdArray_store t' entry) (\<lambda>t''. Return (t'', Inr ()))
      else obind (TempFdArray_store t entry) (\<lambda>t'. Return (t', Inr ())))"

record 'e TempFdArrayIterator =
  it_buffer :: "'e list"
  it_file_vec :: "u8 list"
  it_index :: nat

definition TempFdArray_try_iter ::
  "'e mem_layout \<Rightarrow> read_res \<Rightarrow> 'e TempFdArray \<Rightarrow> io_error + 'e TempFdArrayIterator" where
  "TempFdArray_try_iter L io t =
     (let size = length (t_buffer t) * t_flush_n t * size_of L
      in case r_reopen io of Some e \<Rightarrow> Inl e
         | None \<Rightarrow>
           (case r_read io of Some e \<Rightarrow> Inl e
            | None \<Rightarrow>
              if length (t_file t) < size then Inl UnexpectedEof
              else (case r_seek io of Some e \<Rightarrow> Inl e
                    | None \<Rightarrow> Inr \<lparr>it_buffer = take (t_buffer_index t) (t_buffer t),
                                   it_file_vec = take size (t_file t), it_index = 0\<rparr>)))"

text \<open>\<^verbatim>\<open>slice::from_raw_parts(file_vec.as_ptr() as *const T, length)\<close>.\<close>

definition raw_parts :: "'e mem_layout \<Rightarrow> u8 list \<Rightarrow> nat \<Rightarrow> 'e list" where
  "raw_parts L bytes len =
     map (\<lambda>i. from_bytes L (take (size_of L) (drop (i * size_of L) bytes))) [0..<len]"

definition TempFdArrayIterator_next ::
  "'e mem_layout \<Rightarrow> 'e TempFdArrayIterator \<Rightarrow> 'e TempFdArrayIterator \<times> 'e option" where
  "TempFdArrayIterator_next L it =
     (if it_index it < length (it_buffer it)
      then (it\<lparr>it_index := it_index it + 1\<rparr>, Some (it_buffer it ! it_index it))
      else let len = length (it_file_vec it) div size_of L;
               ts = raw_parts L (it_file_vec it) len
           in if it_index it - length (it_buffer it) < length ts
              then (it\<lparr>it_index := it_index it + 1\<rparr>,
                    Some (ts ! (it_index it + 1 - length (it_buffer it) - 1)))
              else (it, None))"

function TempFdArray_drain :: "'e mem_layout \<Rightarrow> 'e TempFdArrayIterator \<Rightarrow> 'e list" where
  "TempFdArray_drain L it =
     (case TempFdArrayIterator_next L it of
        (it', Some e) \<Rightarrow> e # TempFdArray_drain L it'
      | (_, None) \<Rightarrow> [])"
  by pat_completeness auto
termination
  by (relation "measure (\<lambda>(L, it). length (it_buffer it) + length (it_file_vec it) div size_of L - it_index it)")
     (auto simp: TempFdArrayIterator_next_def Let_def raw_parts_def split: if_splits)

declare TempFdArray_drain.simps [simp del]

section \<open>Pushing to and reading the spill file\<close>

text \<open>
  \<open>TempFdArray_items\<close> are the entries pushed so far, oldest first: what the file holds, then the used
  part of the buffer. \<open>TempFdArray_wf\<close> holds while no write has failed.
\<close>

definition TempFdArray_items :: "'e mem_layout \<Rightarrow> 'e TempFdArray \<Rightarrow> 'e list" where
  "TempFdArray_items L t =
     raw_parts L (t_file t) (length (t_buffer t) * t_flush_n t) @ take (t_buffer_index t) (t_buffer t)"

definition TempFdArray_dims :: "'e TempFdArray \<Rightarrow> bool" where
  "TempFdArray_dims t \<longleftrightarrow> 0 < length (t_buffer t) \<and> t_buffer_index t \<le> length (t_buffer t)"

definition TempFdArray_wf :: "'e mem_layout \<Rightarrow> ('e \<Rightarrow> bool) \<Rightarrow> 'e TempFdArray \<Rightarrow> bool" where
  "TempFdArray_wf L ok t \<longleftrightarrow>
     TempFdArray_dims t \<and> length (t_file t) = length (t_buffer t) * t_flush_n t * size_of L \<and>
     (\<forall>e \<in> set (t_buffer t). ok e)"

lemma length_raw_parts [simp]: "length (raw_parts L bytes n) = n"
  by (simp add: raw_parts_def)

lemma raw_parts_0 [simp]: "raw_parts L bytes 0 = []"
  by (simp add: raw_parts_def)

lemma raw_parts_Suc:
  "raw_parts L bytes (Suc n) = from_bytes L (take (size_of L) bytes) # raw_parts L (drop (size_of L) bytes) n"
  unfolding raw_parts_def by (subst map_upt_Suc) (simp add: add.commute)

lemma raw_parts_append:
  "length xs = n * size_of L \<Longrightarrow> raw_parts L (xs @ ys) (n + m) = raw_parts L xs n @ raw_parts L ys m"
proof (induction n arbitrary: xs)
  case (Suc n)
  then have "length (drop (size_of L) xs) = n * size_of L" by simp
  with Suc show ?case by (simp add: raw_parts_Suc)
qed simp

lemma TempFdArray_drain_eq:
  "TempFdArray_drain L it =
     drop (it_index it)
       (it_buffer it @ raw_parts L (it_file_vec it) (length (it_file_vec it) div size_of L))"
  (is "_ = drop _ (?all it)")
proof (induction L it rule: TempFdArray_drain.induct)
  case (1 L it)
  let ?ts = "raw_parts L (it_file_vec it) (length (it_file_vec it) div size_of L)"
  let ?all = "it_buffer it @ ?ts"
  show ?case
  proof (cases "it_index it < length ?all")
    case True
    let ?it' = "it\<lparr>it_index := it_index it + 1\<rparr>"
    have next_eq: "TempFdArrayIterator_next L it = (?it', Some (?all ! it_index it))"
      using True by (auto simp: TempFdArrayIterator_next_def Let_def nth_append Suc_diff_le)
    then have "TempFdArray_drain L ?it' = drop (it_index it + 1) ?all"
      using "1.IH" [of ?it' "Some (?all ! it_index it)"] by simp
    with next_eq have "TempFdArray_drain L it = ?all ! it_index it # drop (it_index it + 1) ?all"
      by (subst TempFdArray_drain.simps) simp
    with Cons_nth_drop_Suc [OF True] show ?thesis by simp
  next
    case False
    then have "TempFdArrayIterator_next L it = (it, None)"
      by (auto simp: TempFdArrayIterator_next_def Let_def)
    then show ?thesis using False by (subst TempFdArray_drain.simps) simp
  qed
qed

locale layout_laws =
  fixes L :: "'e mem_layout" and ok :: "'e \<Rightarrow> bool"
  assumes size_pos: "0 < size_of L"
    and length_to_bytes: "ok e \<Longrightarrow> length (to_bytes L e) = size_of L"
    and from_to_bytes: "ok e \<Longrightarrow> from_bytes L (to_bytes L e) = e"
begin

lemma length_concat_to_bytes:
  "\<forall>e \<in> set es. ok e \<Longrightarrow> length (concat (map (to_bytes L) es)) = length es * size_of L"
  by (induction es) (auto simp: length_to_bytes)

lemma raw_parts_concat: "\<forall>e \<in> set es. ok e \<Longrightarrow> raw_parts L (concat (map (to_bytes L) es)) (length es) = es"
  by (induction es) (auto simp: raw_parts_Suc length_to_bytes from_to_bytes)

lemma TempFdArray_new_wf:
  assumes "0 < n" and "ok d"
  shows "\<exists>t. TempFdArray_new n d None = Inr t \<and> TempFdArray_wf L ok t \<and> TempFdArray_items L t = []"
  using assms
  by (simp add: TempFdArray_new_def TempFdArray_wf_def TempFdArray_dims_def TempFdArray_items_def)

lemma TempFdArray_push_room:
  assumes "TempFdArray_wf L ok t" and "ok e" and "t_buffer_index t < length (t_buffer t)"
  shows "\<exists>t'. TempFdArray_push L w t e = Return (t', Inr ()) \<and> TempFdArray_wf L ok t' \<and>
              TempFdArray_items L t' = TempFdArray_items L t @ [e]"
  using assms
  by (auto simp: TempFdArray_push_def TempFdArray_store_def TempFdArray_wf_def TempFdArray_dims_def
      TempFdArray_items_def take_Suc_conv_app_nth dest!: set_update_subset_insert [THEN subsetD])

lemma TempFdArray_push_full:
  assumes wf: "TempFdArray_wf L ok t" and "ok e" and full: "\<not> t_buffer_index t < length (t_buffer t)"
  shows "\<exists>t'. TempFdArray_push L Written t e = Return (t', Inr ()) \<and> TempFdArray_wf L ok t' \<and>
              TempFdArray_items L t' = TempFdArray_items L t @ [e]"
proof -
  let ?n = "length (t_buffer t)"
  let ?buf = "concat (map (to_bytes L) (t_buffer t))"
  let ?t = "\<lparr>t_file = t_file t @ ?buf, t_buffer = (t_buffer t)[0 := e],
             t_buffer_index = 1, t_flush_n = t_flush_n t + 1\<rparr>"
  have n: "0 < ?n" and flen: "length (t_file t) = ?n * t_flush_n t * size_of L"
    and ok: "\<forall>x \<in> set (t_buffer t). ok x"
    using wf by (auto simp: TempFdArray_wf_def TempFdArray_dims_def)
  have idx: "t_buffer_index t = ?n"
    using wf full by (simp add: TempFdArray_wf_def TempFdArray_dims_def)
  have push: "TempFdArray_push L Written t e = Return (?t, Inr ())"
    using n full
    by (cases t) (simp add: TempFdArray_push_def TempFdArray_flush_buffer_def TempFdArray_store_def)
  have wf': "TempFdArray_wf L ok ?t"
    using n flen ok \<open>ok e\<close> length_concat_to_bytes [OF ok]
    by (auto simp: TempFdArray_wf_def TempFdArray_dims_def algebra_simps Suc_le_eq
        dest!: set_update_subset_insert [THEN subsetD])
  have "raw_parts L (t_file t @ ?buf) (?n * t_flush_n t + ?n) =
        raw_parts L (t_file t) (?n * t_flush_n t) @ t_buffer t"
    using raw_parts_append [OF flen] raw_parts_concat [OF ok] by simp
  moreover have "take 1 ((t_buffer t)[0 := e]) = [e]"
    using n by (cases "t_buffer t") auto
  ultimately have "TempFdArray_items L ?t = TempFdArray_items L t @ [e]"
    using idx by (simp add: TempFdArray_items_def algebra_simps)
  with push wf' show ?thesis by blast
qed

lemma TempFdArray_push_items:
  assumes "TempFdArray_wf L ok t" and "ok e"
  shows "\<exists>t'. TempFdArray_push L Written t e = Return (t', Inr ()) \<and> TempFdArray_wf L ok t' \<and>
              TempFdArray_items L t' = TempFdArray_items L t @ [e]"
  using TempFdArray_push_room TempFdArray_push_full assms by blast

lemma TempFdArray_try_iter_items:
  assumes "TempFdArray_wf L ok t"
  shows "\<exists>it. TempFdArray_try_iter L read_ok t = Inr it \<and>
    TempFdArray_drain L it = take (t_buffer_index t) (t_buffer t) @
      raw_parts L (t_file t) (length (t_buffer t) * t_flush_n t)"
  using assms size_pos
  by (simp add: TempFdArray_try_iter_def TempFdArray_wf_def TempFdArray_drain_eq read_ok_def)

end

section \<open>Failed writes\<close>

text \<open>
  \<^verbatim>\<open>flush_buffer\<close> counts the flush and forgets the buffer before it writes. After a failed write the
  file is shorter than \<^verbatim>\<open>flush_n\<close> says, and stays so.
\<close>

definition TempFdArray_short :: "'e mem_layout \<Rightarrow> 'e TempFdArray \<Rightarrow> bool" where
  "TempFdArray_short L t \<longleftrightarrow> length (t_file t) < length (t_buffer t) * t_flush_n t * size_of L"

lemma TempFdArray_short_try_iter: "TempFdArray_short L t \<Longrightarrow> \<exists>e. TempFdArray_try_iter L io t = Inl e"
  by (auto simp: TempFdArray_try_iter_def TempFdArray_short_def Let_def split: option.split)

context layout_laws
begin

lemma TempFdArray_push_short:
  assumes "TempFdArray_short L t" and ok: "\<forall>x \<in> set (t_buffer t). ok x" and "ok e"
    and "TempFdArray_push L w t e = Return (t', r)"
  shows "TempFdArray_short L t' \<and> (\<forall>x \<in> set (t_buffer t'). ok x)"
  using assms(1,3,4) ok length_concat_to_bytes [OF ok]
  by (auto simp: TempFdArray_push_def TempFdArray_flush_buffer_def TempFdArray_store_def
      TempFdArray_short_def Let_def obind_Return_iff algebra_simps min_def
      split: if_splits write_res.splits dest!: set_update_subset_insert [THEN subsetD])

lemma TempFdArray_push_failed:
  assumes "TempFdArray_wf L ok t" and "TempFdArray_push L (WriteFailed n err) t e = Return (t', Inl err')"
    and "n < length (t_buffer t) * size_of L"
  shows "TempFdArray_short L t' \<and> (\<forall>x \<in> set (t_buffer t'). ok x)"
proof -
  have ok: "\<forall>x \<in> set (t_buffer t). ok x" using assms(1) by (simp add: TempFdArray_wf_def)
  show ?thesis
    using assms length_concat_to_bytes [OF ok]
    by (auto simp: TempFdArray_push_def TempFdArray_flush_buffer_def TempFdArray_store_def
        TempFdArray_short_def TempFdArray_wf_def Let_def algebra_simps min_def obind_Return_iff
        split: if_splits)
qed

end

section \<open>Properties\<close>

text \<open>
  \<open>is_layout\<close> says what a memory image is: all images have the size of the type, and reading an image
  back gives the value. \<open>TempFdArray_push_all\<close> is a sequence of pushes that stops at an error.
\<close>

definition is_layout :: "'e mem_layout \<Rightarrow> ('e \<Rightarrow> bool) \<Rightarrow> bool" where
  "is_layout L ok \<longleftrightarrow> 0 < size_of L \<and>
     (\<forall>e. ok e \<longrightarrow> length (to_bytes L e) = size_of L \<and> from_bytes L (to_bytes L e) = e)"

lemma is_layout_laws: "is_layout L ok = layout_laws L ok"
  by (auto simp: is_layout_def layout_laws_def)

primrec TempFdArray_push_all ::
  "'e mem_layout \<Rightarrow> 'e TempFdArray \<Rightarrow> 'e list \<Rightarrow> ('e TempFdArray \<times> (io_error + unit)) outcome" where
  "TempFdArray_push_all L t [] = Return (t, Inr ())"
| "TempFdArray_push_all L t (e # es) =
     obind (TempFdArray_push L Written t e)
       (\<lambda>(t', r). case r of Inl err \<Rightarrow> Return (t', Inl err) | Inr _ \<Rightarrow> TempFdArray_push_all L t' es)"

definition u64_layout :: "u64 mem_layout" where
  "u64_layout = \<lparr>size_of = 8, to_bytes = le_bytes 8, from_bytes = le_word\<rparr>"

lemma is_layout_u64: "is_layout u64_layout (\<lambda>_. True)"
  by (simp add: is_layout_def u64_layout_def le_word_le_bytes)

interpretation u64_mem: layout_laws u64_layout "\<lambda>_. True"
  using is_layout_u64 by (simp add: is_layout_laws)

lemma TempFdArray_push_buffer:
  "TempFdArray_push L w t e = Return (t', r) \<Longrightarrow> length (t_buffer t') = length (t_buffer t)"
  by (auto simp: TempFdArray_push_def TempFdArray_flush_buffer_def TempFdArray_store_def Let_def
      obind_Return_iff split: if_splits write_res.splits)

lemma TempFdArray_push_all_buffer:
  "TempFdArray_push_all L t es = Return (t', r) \<Longrightarrow> length (t_buffer t') = length (t_buffer t)"
proof (induction es arbitrary: t)
  case (Cons e es)
  then obtain t1 r1 where t1: "TempFdArray_push L Written t e = Return (t1, r1)"
    and rest: "(case r1 of Inl err \<Rightarrow> Return (t1, Inl err) | Inr _ \<Rightarrow> TempFdArray_push_all L t1 es) = Return (t', r)"
    by (auto simp: obind_Return_iff)
  then show ?case
    using TempFdArray_push_buffer [OF t1] Cons.IH [of t1] by (cases r1) auto
qed simp

context layout_laws
begin

lemma TempFdArray_push_all_items:
  assumes "TempFdArray_wf L ok t" and "\<forall>e \<in> set es. ok e"
  shows "\<exists>t'. TempFdArray_push_all L t es = Return (t', Inr ()) \<and> TempFdArray_wf L ok t' \<and>
              TempFdArray_items L t' = TempFdArray_items L t @ es"
  using assms
proof (induction es arbitrary: t)
  case (Cons e es)
  obtain t1 where t1: "TempFdArray_push L Written t e = Return (t1, Inr ())" "TempFdArray_wf L ok t1"
    "TempFdArray_items L t1 = TempFdArray_items L t @ [e]"
    using TempFdArray_push_items [OF Cons.prems(1)] Cons.prems(2) by auto
  with Cons.IH [of t1] Cons.prems(2) show ?case by auto
qed simp

end

text \<open>
  C7. What is pushed to a \<^verbatim>\<open>TempFdArray\<close> is read back. For any non-empty buffer and any memory image, if
  all writes succeed, \<^verbatim>\<open>try_iter\<close> succeeds and its iterator yields every pushed entry once: first the
  entries still in the buffer, then those the file holds, each in the order they were pushed. The
  iterator stops.
\<close>

theorem temp_fd_array_round_trip:
  assumes "is_layout L ok" and "0 < n" and "ok d" and "\<forall>e \<in> set es. ok e"
  shows "\<exists>t t' it spilled kept. TempFdArray_new n d None = Inr t \<and>
    TempFdArray_push_all L t es = Return (t', Inr ()) \<and> TempFdArray_try_iter L read_ok t' = Inr it \<and>
    es = spilled @ kept \<and> length spilled = n * t_flush_n t' \<and> length kept \<le> n \<and>
    TempFdArray_drain L it = kept @ spilled"
proof -
  have laws: "layout_laws L ok" using assms(1) by (simp add: is_layout_laws)
  obtain t where t: "TempFdArray_new n d None = Inr t" "TempFdArray_wf L ok t" "TempFdArray_items L t = []"
    using layout_laws.TempFdArray_new_wf [OF laws assms(2,3)] by blast
  obtain t' where t': "TempFdArray_push_all L t es = Return (t', Inr ())" "TempFdArray_wf L ok t'"
    "TempFdArray_items L t' = es"
    using layout_laws.TempFdArray_push_all_items [OF laws t(2) assms(4)] t(3) by auto
  obtain it where "TempFdArray_try_iter L read_ok t' = Inr it"
    "TempFdArray_drain L it = take (t_buffer_index t') (t_buffer t') @
       raw_parts L (t_file t') (length (t_buffer t') * t_flush_n t')"
    using layout_laws.TempFdArray_try_iter_items [OF laws t'(2)] by blast
  moreover have "length (t_buffer t') = n"
    using t(1) TempFdArray_push_all_buffer [OF t'(1)] by (auto simp: TempFdArray_new_def)
  ultimately show ?thesis
    using t(1) t'(1,3) unfolding TempFdArray_items_def by force
qed

theorem temp_fd_array_round_trip_witness:
  "\<exists>t t' it. TempFdArray_new 2 0 None = Inr t \<and>
     TempFdArray_push_all u64_layout t [10, 20, 30] = Return (t', Inr ()) \<and>
     TempFdArray_try_iter u64_layout read_ok t' = Inr it \<and>
     length (TempFdArray_drain u64_layout it) = 3"
proof -
  have "(0 :: nat) < 2" by simp
  from temp_fd_array_round_trip [OF is_layout_u64 this, where d = 0 and es = "[10, 20, 30]"]
  obtain t t' it spilled kept where r: "TempFdArray_new 2 0 None = Inr t"
    "TempFdArray_push_all u64_layout t [10, 20, 30] = Return (t', Inr ())"
    "TempFdArray_try_iter u64_layout read_ok t' = Inr it" "[10, 20, 30] = spilled @ kept"
    "TempFdArray_drain u64_layout it = kept @ spilled"
    by (auto simp del: TempFdArray_push_all.simps)
  have "length [10, 20, 30 :: u64] = length spilled + length kept"
    by (simp only: r(4) length_append)
  then have "length (TempFdArray_drain u64_layout it) = 3" by (simp add: r(5))
  with r(1-3) show ?thesis by blast
qed

end
