(* ===== verification/Collector.thy ===== *)
theory Collector
  imports Hash_Counter Temp_Fd_Array
begin

text \<open>
  \<^verbatim>\<open>Collector\<close> of \<^verbatim>\<open>src/src/collector.rs\<close>: the hash table, with its evictions pushed to the spill
  file. The locale \<open>collector_laws\<close> joins the contracts of the two parts; in it the collector is a
  counter, exactly for wrapping sums and for true totals below \<open>2 ^ 64\<close>.
\<close>

section \<open>The collector\<close>

record 'a Collector =
  c_map :: "'a HashCounter"
  c_temp_array :: "'a Entry TempFdArray"

definition Collector_new :: "nat \<Rightarrow> 'a \<Rightarrow> io_error option \<Rightarrow> io_error + 'a Collector" where
  "Collector_new buffer_length d create_err =
     (case TempFdArray_new buffer_length (Entry_default d) create_err of
        Inl e \<Rightarrow> Inl e
      | Inr t \<Rightarrow> Inr \<lparr>c_map = HashCounter_default d, c_temp_array = t\<rparr>)"

definition Collector_add ::
  "('a \<Rightarrow> 'a \<Rightarrow> bool) \<Rightarrow> ('a \<Rightarrow> u64) \<Rightarrow> 'a Entry mem_layout \<Rightarrow> write_res \<Rightarrow> 'a Collector \<Rightarrow> 'a \<Rightarrow> isize
     \<Rightarrow> ('a Collector \<times> (io_error + unit)) outcome" where
  "Collector_add eq hash L w c key count =
     (case HashCounter_add eq hash (c_map c) key count of
        (m, None) \<Rightarrow> Return (c\<lparr>c_map := m\<rparr>, Inr ())
      | (m, Some evict) \<Rightarrow>
          obind (TempFdArray_push L w (c_temp_array c) evict)
            (\<lambda>(t, r). Return (c\<lparr>c_map := m, c_temp_array := t\<rparr>, r)))"

definition Collector_try_iter ::
  "'a Entry mem_layout \<Rightarrow> read_res \<Rightarrow> 'a Collector \<Rightarrow> io_error + 'a Entry list" where
  "Collector_try_iter L io c =
     (case TempFdArray_try_iter L io (c_temp_array c) of
        Inl e \<Rightarrow> Inl e
      | Inr it \<Rightarrow> Inr (HashCounter_iter (c_map c) @ TempFdArray_drain L it))"

section \<open>The collector as a counter\<close>

text \<open>
  \<open>Collector_run\<close> is a sequence of \<^verbatim>\<open>add\<close> calls whose results the caller drops, each with what the
  file system does should the call have to flush. \<open>Collector_items\<close> is everything the collector holds.
\<close>

primrec Collector_run ::
  "('a \<Rightarrow> 'a \<Rightarrow> bool) \<Rightarrow> ('a \<Rightarrow> u64) \<Rightarrow> 'a Entry mem_layout \<Rightarrow> 'a Collector
     \<Rightarrow> ('a \<times> isize \<times> write_res) list \<Rightarrow> 'a Collector outcome" where
  "Collector_run eq hash L c [] = Return c"
| "Collector_run eq hash L c (op # ops) =
     (case op of (key, count, w) \<Rightarrow>
        obind (Collector_add eq hash L w c key count) (\<lambda>(c', _). Collector_run eq hash L c' ops))"

definition Collector_items :: "'a Entry mem_layout \<Rightarrow> 'a Collector \<Rightarrow> 'a Entry list" where
  "Collector_items L c = HashCounter_iter (c_map c) @ TempFdArray_items L (c_temp_array c)"

definition Collector_wf ::
  "('a \<Rightarrow> 'a \<Rightarrow> bool) \<Rightarrow> ('a \<Rightarrow> u64) \<Rightarrow> 'a Entry mem_layout \<Rightarrow> ('a \<Rightarrow> bool) \<Rightarrow> 'a Collector \<Rightarrow> bool" where
  "Collector_wf eq hash L ok c \<longleftrightarrow>
     HashCounter_wf eq hash (c_map c) \<and> TempFdArray_wf L (\<lambda>e. ok (e_item e)) (c_temp_array c) \<and>
     (\<forall>e \<in> set (HashCounter_iter (c_map c)). ok (e_item e))"

definition added :: "(isize \<Rightarrow> 'b::comm_monoid_add) \<Rightarrow> ('a \<Rightarrow> bool) \<Rightarrow> ('a \<times> isize \<times> write_res) list \<Rightarrow> 'b" where
  "added f P ops = (\<Sum>(key, count, w)\<leftarrow>ops. if P key then f count else 0)"

lemma added_simps [simp]:
  "added f P [] = 0"
  "added f P ((key, count, w) # ops) = (if P key then f count else 0) + added f P ops"
  by (auto simp: added_def)

lemma weight_unat_member: "e \<in> set es \<Longrightarrow> unat (e_count e) \<le> weight unat (\<lambda>_. True) es"
  by (induction es) auto

lemma weight_unat_add:
  assumes "weight unat (\<lambda>_. True) es + unat count < 2 ^ 64" and "e \<in> set es"
  shows "unat (e_count e + count) = unat (e_count e) + unat count"
proof -
  have "unat (e_count e) + unat count < 2 ^ 64"
    using assms(1) weight_unat_member [OF assms(2)] by linarith
  then show ?thesis by (simp add: unat_word_ariths)
qed

locale collector_laws = hash_key eq hash + layout_laws L "\<lambda>e. ok (e_item e)"
  for eq :: "'a \<Rightarrow> 'a \<Rightarrow> bool" and hash :: "'a \<Rightarrow> u64"
    and L :: "'a Entry mem_layout" and ok :: "'a \<Rightarrow> bool"
begin

lemma Collector_new_wf:
  assumes "0 < n" and "ok d"
  shows "\<exists>c. Collector_new n d None = Inr c \<and> Collector_wf eq hash L ok c \<and> Collector_items L c = []"
  using TempFdArray_new_wf [of n "Entry_default d"] assms
  by (auto simp: Collector_new_def Collector_wf_def Collector_items_def Entry_default_def
      HashCounter_default_wf HashCounter_iter_default)

lemma Collector_add_Written:
  assumes wf: "Collector_wf eq hash L ok c" and key: "ok key"
  obtains m ev t where "HashCounter_add eq hash (c_map c) key count = (m, ev)"
    and "Collector_add eq hash L Written c key count = Return (\<lparr>c_map = m, c_temp_array = t\<rparr>, Inr ())"
    and "TempFdArray_items L t = TempFdArray_items L (c_temp_array c) @ opt_list ev"
    and "Collector_wf eq hash L ok \<lparr>c_map = m, c_temp_array = t\<rparr>"
proof -
  obtain m ev where add: "HashCounter_add eq hash (c_map c) key count = (m, ev)" by fastforce
  have hc: "HashCounter_wf eq hash (c_map c)" using wf by (simp add: Collector_wf_def)
  have m: "HashCounter_wf eq hash m"
    using HashCounter_add_wf [OF hc, of key count] add by simp
  have ok: "ok (e_item e)" if "e \<in> set (HashCounter_iter m) \<union> set (opt_list ev)" for e
    using HashCounter_add_origin [OF hc add that] wf key by (auto simp: Collector_wf_def)
  show ?thesis
  proof (cases ev)
    case None
    with wf m ok add show ?thesis
      by (intro that [of m ev "c_temp_array c"]) (simp_all add: Collector_add_def Collector_wf_def)
  next
    case (Some e)
    with ok have "ok (e_item e)" by simp
    then obtain t where "TempFdArray_push L Written (c_temp_array c) e = Return (t, Inr ())"
      "TempFdArray_wf L (\<lambda>e. ok (e_item e)) t"
      "TempFdArray_items L t = TempFdArray_items L (c_temp_array c) @ [e]"
      using TempFdArray_push_items [of "c_temp_array c" e] wf by (auto simp: Collector_wf_def)
    with Some m ok add show ?thesis
      by (intro that [of m ev t]) (simp_all add: Collector_add_def Collector_wf_def)
  qed
qed

lemma Collector_add_weight:
  assumes "Collector_wf eq hash L ok c" and "ok key"
    and "Collector_add eq hash L Written c key count = Return (c', r)"
    and P: "\<And>x y. eq x y \<Longrightarrow> P x = P y"
    and f: "\<And>e. e \<in> set (HashCounter_iter (c_map c)) \<Longrightarrow> f (e_count e + count) = f (e_count e) + f count"
  shows "weight f P (Collector_items L c') = weight f P (Collector_items L c) + (if P key then f count else 0)"
proof -
  obtain m ev t where add: "HashCounter_add eq hash (c_map c) key count = (m, ev)"
    and c': "c' = \<lparr>c_map = m, c_temp_array = t\<rparr>"
    and t: "TempFdArray_items L t = TempFdArray_items L (c_temp_array c) @ opt_list ev"
    using Collector_add_Written [OF assms(1,2), of count] assms(3) by (metis Pair_inject outcome.inject(1))
  have "weight f P (HashCounter_iter m) + weight f P (opt_list ev) =
      weight f P (HashCounter_iter (c_map c)) + (if P key then f count else 0)"
    using HashCounter_add_weight [OF _ add P f] assms(1) by (simp add: Collector_wf_def)
  moreover have "weight f P (Collector_items L c') =
      (weight f P (HashCounter_iter m) + weight f P (opt_list ev))
      + weight f P (TempFdArray_items L (c_temp_array c))"
    by (simp add: c' t Collector_items_def ac_simps)
  ultimately show ?thesis by (simp only: Collector_items_def weight_simps) (simp add: ac_simps)
qed

lemma Collector_run_wf:
  assumes "Collector_wf eq hash L ok c" and "\<forall>(key, count, w) \<in> set ops. ok key \<and> w = Written"
  shows "\<exists>c'. Collector_run eq hash L c ops = Return c' \<and> Collector_wf eq hash L ok c' \<and>
    (\<forall>k. key_count eq k (Collector_items L c') =
         key_count eq k (Collector_items L c) + added (\<lambda>n. n) (\<lambda>x. eq x k) ops)"
  using assms
proof (induction ops arbitrary: c)
  case (Cons op ops)
  obtain key count where op: "op = (key, count, Written)" and key: "ok key"
    using Cons.prems(2) by (cases op) auto
  obtain c1 where c1: "Collector_add eq hash L Written c key count = Return (c1, Inr ())"
    and wf1: "Collector_wf eq hash L ok c1"
    using Collector_add_Written [OF Cons.prems(1) key, of count] by blast
  have "key_count eq k (Collector_items L c1) =
      key_count eq k (Collector_items L c) + (if eq key k then count else 0)" for k
    unfolding key_count_def
    using Collector_add_weight [OF Cons.prems(1) key c1, of "\<lambda>x. eq x k" "\<lambda>c. c"] eq_cong by blast
  moreover obtain c' where "Collector_run eq hash L c1 ops = Return c'" "Collector_wf eq hash L ok c'"
    "\<forall>k. key_count eq k (Collector_items L c') =
         key_count eq k (Collector_items L c1) + added (\<lambda>n. n) (\<lambda>x. eq x k) ops"
    using Cons.IH [OF wf1] Cons.prems(2) by auto
  ultimately show ?case using c1 by (auto simp: op add.assoc)
qed simp

lemma Collector_try_iter_items:
  assumes "Collector_wf eq hash L ok c"
  shows "\<exists>es. Collector_try_iter L read_ok c = Inr es \<and> set es = set (Collector_items L c) \<and>
    (\<forall>f P. weight f P es = (weight f P (Collector_items L c) :: 'b::cancel_comm_monoid_add))"
proof -
  obtain it where "TempFdArray_try_iter L read_ok (c_temp_array c) = Inr it"
    "TempFdArray_drain L it = take (t_buffer_index (c_temp_array c)) (t_buffer (c_temp_array c)) @
      raw_parts L (t_file (c_temp_array c))
        (length (t_buffer (c_temp_array c)) * t_flush_n (c_temp_array c))"
    using TempFdArray_try_iter_items assms by (metis Collector_wf_def)
  then show ?thesis
    by (auto simp: Collector_try_iter_def Collector_items_def TempFdArray_items_def ac_simps)
qed

end

section \<open>True totals\<close>

text \<open>
  As long as the true total of everything added stays below \<open>2 ^ 64\<close>, no count wraps: then the
  collector's counts add up as natural numbers, and no entry has count zero unless zero was added.
\<close>

context collector_laws
begin

lemma Collector_add_total:
  assumes "Collector_wf eq hash L ok c" and "ok key"
    and "Collector_add eq hash L Written c key count = Return (c', r)"
    and bound: "weight unat (\<lambda>_. True) (Collector_items L c) + unat count < 2 ^ 64"
    and P: "\<And>x y. eq x y \<Longrightarrow> P x = P y"
  shows "weight unat P (Collector_items L c') =
         weight unat P (Collector_items L c) + (if P key then unat count else 0)"
proof (rule Collector_add_weight [OF assms(1-3) P])
  show "unat (e_count e + count) = unat (e_count e) + unat count"
    if "e \<in> set (HashCounter_iter (c_map c))" for e
    using that bound by (intro weight_unat_add [of "Collector_items L c"]) (auto simp: Collector_items_def)
qed

lemma Collector_add_origin:
  assumes "Collector_wf eq hash L ok c" and "ok key" and "Collector_add eq hash L Written c key count = Return (c', r)"
  shows "e_item ` set (Collector_items L c') \<subseteq> insert key (e_item ` set (Collector_items L c))"
proof -
  obtain m ev t where add: "HashCounter_add eq hash (c_map c) key count = (m, ev)"
    and c': "c' = \<lparr>c_map = m, c_temp_array = t\<rparr>"
    and t: "TempFdArray_items L t = TempFdArray_items L (c_temp_array c) @ opt_list ev"
    using Collector_add_Written [OF assms(1,2), of count] assms(3) by (metis Pair_inject outcome.inject(1))
  have "e_item e \<in> insert key (e_item ` set (HashCounter_iter (c_map c)))"
    if "e \<in> set (HashCounter_iter m) \<union> set (opt_list ev)" for e
    using HashCounter_add_origin [OF _ add that] assms(1) by (auto simp: Collector_wf_def)
  then show ?thesis by (auto simp: c' t Collector_items_def)
qed

text \<open>A sequence of additions: true totals, and no key that was not added.\<close>

lemma Collector_run_counts:
  assumes "Collector_wf eq hash L ok c" and "\<forall>(key, count, w) \<in> set ops. ok key \<and> w = Written"
    and "weight unat (\<lambda>_. True) (Collector_items L c) + added unat (\<lambda>_. True) ops < 2 ^ 64"
  shows "\<exists>c'. Collector_run eq hash L c ops = Return c' \<and> Collector_wf eq hash L ok c' \<and>
    (\<forall>P. (\<forall>x y. eq x y \<longrightarrow> P x = P y) \<longrightarrow>
       weight unat P (Collector_items L c') = weight unat P (Collector_items L c) + added unat P ops) \<and>
    e_item ` set (Collector_items L c') \<subseteq> e_item ` set (Collector_items L c) \<union> fst ` set ops"
  using assms
proof (induction ops arbitrary: c)
  case (Cons op ops)
  obtain key count where op: "op = (key, count, Written)" and key: "ok key"
    using Cons.prems(2) by (cases op) auto
  obtain c1 where c1: "Collector_add eq hash L Written c key count = Return (c1, Inr ())"
    and wf1: "Collector_wf eq hash L ok c1"
    using Collector_add_Written [OF Cons.prems(1) key, of count] by blast
  have add: "weight unat P (Collector_items L c1) = weight unat P (Collector_items L c) + (if P key then unat count else 0)"
    if "\<forall>x y. eq x y \<longrightarrow> P x = P y" for P
    using Collector_add_total [OF Cons.prems(1) key c1, of P] that Cons.prems(3) by (simp add: op)
  have room: "weight unat (\<lambda>_. True) (Collector_items L c1) + added unat (\<lambda>_. True) ops < 2 ^ 64"
    using Cons.prems(3) add [of "\<lambda>_. True"] by (simp add: op)
  obtain c' where c': "Collector_run eq hash L c1 ops = Return c'" "Collector_wf eq hash L ok c'"
    "\<forall>P. (\<forall>x y. eq x y \<longrightarrow> P x = P y) \<longrightarrow>
       weight unat P (Collector_items L c') = weight unat P (Collector_items L c1) + added unat P ops"
    "e_item ` set (Collector_items L c') \<subseteq> e_item ` set (Collector_items L c1) \<union> fst ` set ops"
    using Cons.IH [OF wf1 _ room] Cons.prems(2) by auto
  have "Collector_run eq hash L c (op # ops) = Return c'" using c1 c'(1) by (simp add: op)
  moreover have "weight unat P (Collector_items L c') = weight unat P (Collector_items L c) + added unat P (op # ops)"
    if P: "\<forall>x y. eq x y \<longrightarrow> P x = P y" for P
    using mp [OF spec [OF c'(3)] P] add [OF P] by (simp add: op)
  moreover have "e_item ` set (Collector_items L c') \<subseteq> e_item ` set (Collector_items L c) \<union> fst ` set (op # ops)"
    using c'(4) Collector_add_origin [OF Cons.prems(1) key c1] by (auto simp: op)
  ultimately show ?case using c'(2) by (intro exI [of _ c'] conjI allI impI)
qed simp

lemma Collector_add_nonzero:
  assumes "Collector_wf eq hash L ok c" and "ok key" and "count \<noteq> 0"
    and "Collector_add eq hash L Written c key count = Return (c', r)"
    and bound: "weight unat (\<lambda>_. True) (Collector_items L c) + unat count < 2 ^ 64"
    and nz: "\<forall>e \<in> set (Collector_items L c). e_count e \<noteq> 0"
  shows "\<forall>e \<in> set (Collector_items L c'). e_count e \<noteq> 0"
proof -
  obtain m ev t where add: "HashCounter_add eq hash (c_map c) key count = (m, ev)"
    and c': "c' = \<lparr>c_map = m, c_temp_array = t\<rparr>"
    and t: "TempFdArray_items L t = TempFdArray_items L (c_temp_array c) @ opt_list ev"
    using Collector_add_Written [OF assms(1,2), of count] assms(4) by (metis Pair_inject outcome.inject(1))
  have sum: "e_count e + count \<noteq> 0" if "e \<in> set (HashCounter_iter (c_map c))" for e
  proof -
    have "unat (e_count e + count) = unat (e_count e) + unat count"
      using that bound by (intro weight_unat_add [of "Collector_items L c"]) (auto simp: Collector_items_def)
    with \<open>count \<noteq> 0\<close> show ?thesis by (metis add_is_0 unat_0 unat_eq_zero)
  qed
  have "e_count e \<noteq> 0" if "e \<in> set (HashCounter_iter m) \<union> set (opt_list ev)" for e
    using HashCounter_add_origin [OF _ add that] assms(1) nz sum \<open>count \<noteq> 0\<close>
    by (auto simp: Collector_wf_def Collector_items_def)
  with nz show ?thesis by (auto simp: c' t Collector_items_def)
qed

lemma Collector_run_total:
  assumes "Collector_wf eq hash L ok c" and "\<forall>(key, count, w) \<in> set ops. ok key \<and> w = Written"
    and "weight unat (\<lambda>_. True) (Collector_items L c) + added unat (\<lambda>_. True) ops < 2 ^ 64"
    and "Collector_run eq hash L c ops = Return c'"
    and P: "\<And>x y. eq x y \<Longrightarrow> P x = P y"
  shows "weight unat P (Collector_items L c') = weight unat P (Collector_items L c) + added unat P ops"
  using assms(1-4)
proof (induction ops arbitrary: c)
  case (Cons op ops)
  obtain key count where op: "op = (key, count, Written)" and key: "ok key"
    using Cons.prems(2) by (cases op) auto
  obtain c1 where c1: "Collector_add eq hash L Written c key count = Return (c1, Inr ())"
    and wf1: "Collector_wf eq hash L ok c1"
    using Collector_add_Written [OF Cons.prems(1) key, of count] by blast
  have bound: "weight unat (\<lambda>_. True) (Collector_items L c) + unat count < 2 ^ 64"
    using Cons.prems(3) by (simp add: op)
  note total = Collector_add_total [OF Cons.prems(1) key c1 bound]
  have "weight unat P (Collector_items L c') = weight unat P (Collector_items L c1) + added unat P ops"
  proof (rule Cons.IH [OF wf1])
    show "\<forall>(key, count, w) \<in> set ops. ok key \<and> w = Written" using Cons.prems(2) by simp
    show "weight unat (\<lambda>_. True) (Collector_items L c1) + added unat (\<lambda>_. True) ops < 2 ^ 64"
      using Cons.prems(3) total [of "\<lambda>_. True"] by (simp add: op)
    show "Collector_run eq hash L c1 ops = Return c'" using Cons.prems(4) c1 by (simp add: op)
  qed
  with total [OF P] show ?case by (simp add: op)
qed simp

end


context collector_laws
begin

lemma Collector_run_short:
  assumes "HashCounter_wf eq hash (c_map c)" and "\<forall>e \<in> set (HashCounter_iter (c_map c)). ok (e_item e)"
    and "TempFdArray_short L (c_temp_array c)" and "\<forall>e \<in> set (t_buffer (c_temp_array c)). ok (e_item e)"
    and "\<forall>(key, count, w) \<in> set ops. ok key" and "Collector_run eq hash L c ops = Return c'"
  shows "TempFdArray_short L (c_temp_array c')"
  using assms
proof (induction ops arbitrary: c)
  case (Cons op ops)
  obtain key count w where op: "op = (key, count, w)" and key: "ok key"
    using Cons.prems(5) by (cases op) auto
  obtain c1 r where c1: "Collector_add eq hash L w c key count = Return (c1, r)"
    and run: "Collector_run eq hash L c1 ops = Return c'"
    using Cons.prems(6) by (auto simp: op obind_Return_iff)
  obtain m ev where add: "HashCounter_add eq hash (c_map c) key count = (m, ev)" by fastforce
  have m: "HashCounter_wf eq hash m"
    using HashCounter_add_wf [OF Cons.prems(1), of key count] add by simp
  have ok: "ok (e_item e)" if "e \<in> set (HashCounter_iter m) \<union> set (opt_list ev)" for e
    using HashCounter_add_origin [OF Cons.prems(1) add that] Cons.prems(2) key by auto
  have "c_map c1 = m \<and> TempFdArray_short L (c_temp_array c1) \<and>
      (\<forall>e \<in> set (t_buffer (c_temp_array c1)). ok (e_item e))"
  proof (cases ev)
    case None
    with c1 add Cons.prems(3,4) show ?thesis by (auto simp: Collector_add_def)
  next
    case (Some e)
    with c1 add obtain t where "TempFdArray_push L w (c_temp_array c) e = Return (t, r)"
      and "c1 = c\<lparr>c_map := m, c_temp_array := t\<rparr>"
      by (auto simp: Collector_add_def obind_Return_iff)
    with TempFdArray_push_short [of "c_temp_array c" e w t r] Cons.prems(3,4) ok Some show ?thesis
      by simp
  qed
  with Cons.IH [of c1] m ok run Cons.prems(5) show ?case by auto
qed simp

end


section \<open>Properties\<close>

text \<open>A memory image of \<^verbatim>\<open>Entry<usize>\<close>, the entries the repository's own collector tests use.\<close>

definition usize_entry_layout :: "usize Entry mem_layout" where
  "usize_entry_layout =
     \<lparr>size_of = 16, to_bytes = (\<lambda>e. le_bytes 8 (e_item e) @ le_bytes 8 (e_count e)),
      from_bytes = (\<lambda>bs. \<lparr>e_item = le_word (take 8 bs), e_count = le_word (drop 8 bs)\<rparr>)\<rparr>"

lemma is_layout_usize_entry: "is_layout usize_entry_layout (\<lambda>e. True)"
  by (simp add: is_layout_def usize_entry_layout_def le_word_le_bytes)

interpretation usize_collector: collector_laws "(=)" hash usize_entry_layout "\<lambda>_. True"
  for hash :: "usize \<Rightarrow> u64"
  by (intro collector_laws.intro usize_key.hash_key_axioms)
     (use is_layout_usize_entry in \<open>simp add: is_layout_laws\<close>)

lemma collector_lawsI:
  assumes "equivp eq" and "\<forall>x y. eq x y \<longrightarrow> hash x = hash y" and "is_layout L (\<lambda>e. ok (e_item e))"
  shows "collector_laws eq hash L ok"
  using hash_keyI [OF assms(1,2)] assms(3) by (simp add: collector_laws_def is_layout_laws)

text \<open>
  C6. \<^verbatim>\<open>Collector\<close> is an exact counter. For any equality and hash that keep the contract of \<^verbatim>\<open>Eq\<close> and
  \<^verbatim>\<open>Hash\<close>, any memory image of the entries and any buffer length above zero: after any sequence of
  \<^verbatim>\<open>add\<close> calls on a new collector whose file writes succeed, none of which panics, \<^verbatim>\<open>try_iter\<close> succeeds
  and for every key the entries it yields add up to the counts added for that key (as \<^verbatim>\<open>isize\<close>, modulo
  \<open>2 ^ 64\<close>): evictions lose nothing.
\<close>

theorem collector_conserves:
  assumes "equivp eq" and "\<forall>x y. eq x y \<longrightarrow> hash x = hash y" and "is_layout L (\<lambda>e. ok (e_item e))"
    and "0 < n" and "ok d" and "\<forall>(key, count, w) \<in> set ops. ok key \<and> w = Written"
  shows "\<exists>c c' es. Collector_new n d None = Inr c \<and> Collector_run eq hash L c ops = Return c' \<and>
    Collector_try_iter L read_ok c' = Inr es \<and>
    (\<forall>k. key_count eq k es = added (\<lambda>n. n) (\<lambda>x. eq x k) ops)"
proof -
  have laws: "collector_laws eq hash L ok" using assms(1-3) by (rule collector_lawsI)
  obtain c where c: "Collector_new n d None = Inr c" "Collector_wf eq hash L ok c" "Collector_items L c = []"
    using collector_laws.Collector_new_wf [OF laws assms(4,5)] by blast
  obtain c' where c': "Collector_run eq hash L c ops = Return c'" "Collector_wf eq hash L ok c'"
    "\<forall>k. key_count eq k (Collector_items L c') = added (\<lambda>n. n) (\<lambda>x. eq x k) ops"
    using collector_laws.Collector_run_wf [OF laws c(2) assms(6)] c(3) by (auto simp: key_count_def)
  obtain es where "Collector_try_iter L read_ok c' = Inr es"
    "\<forall>f P. weight f P es = (weight f P (Collector_items L c') :: isize)"
    using collector_laws.Collector_try_iter_items [OF laws c'(2)] by blast
  with c(1) c'(1,3) show ?thesis by (auto simp: key_count_def)
qed

theorem collector_conserves_witness:
  "\<exists>c c' es. Collector_new 2 (0 :: usize) None = Inr c \<and>
     Collector_run (=) (\<lambda>_. 0) usize_entry_layout c
       [(1, 1, Written), (2, 1, Written), (3, 1, Written), (4, 1, Written), (5, 1, Written), (1, 3, Written)]
       = Return c' \<and>
     Collector_try_iter usize_entry_layout read_ok c' = Inr es \<and> key_count (=) 1 es = 4"
proof -
  let ?ops = "[(1, 1, Written), (2, 1, Written), (3, 1, Written), (4, 1, Written), (5, 1, Written),
     (1, 3, Written)] :: (usize \<times> isize \<times> write_res) list"
  have eq: "equivp ((=) :: usize \<Rightarrow> usize \<Rightarrow> bool)" by (rule identity_equivp)
  have lay: "is_layout usize_entry_layout (\<lambda>e. (\<lambda>_. True) (e_item e))"
    using is_layout_usize_entry by simp
  have "\<exists>c c' es. Collector_new 2 (0 :: usize) None = Inr c \<and>
      Collector_run (=) (\<lambda>_. 0) usize_entry_layout c ?ops = Return c' \<and>
      Collector_try_iter usize_entry_layout read_ok c' = Inr es \<and>
      (\<forall>k. key_count (=) k es = added (\<lambda>n. n) (\<lambda>x. x = k) ?ops)"
    by (rule collector_conserves [OF eq _ lay]) auto
  moreover have "added (\<lambda>n. n) (\<lambda>x. x = 1) ?ops = (4 :: isize)" by simp
  ultimately show ?thesis by metis
qed

text \<open>
  C28. A failed flush is permanent. Once a \<^verbatim>\<open>write_all\<close> of \<^verbatim>\<open>flush_buffer\<close> has failed (after a strict
  prefix of the buffer), every later \<^verbatim>\<open>try_iter\<close> of that collector fails, whatever is added afterwards
  and however many later writes succeed: \<^verbatim>\<open>flush_n\<close> was advanced before the write, so \<^verbatim>\<open>read_exact\<close>
  always asks for more bytes than the file has.
\<close>

theorem collector_failed_write_is_permanent:
  assumes "equivp eq" and "\<forall>x y. eq x y \<longrightarrow> hash x = hash y" and "is_layout L (\<lambda>e. ok (e_item e))"
    and "Collector_wf eq hash L ok c" and "ok key"
    and "m < length (t_buffer (c_temp_array c)) * size_of L"
    and "Collector_add eq hash L (WriteFailed m err) c key count = Return (c', Inl err')"
    and "\<forall>(key, count, w) \<in> set ops. ok key"
    and "Collector_run eq hash L c' ops = Return c''"
  shows "\<exists>e. Collector_try_iter L io c'' = Inl e"
proof -
  have laws: "collector_laws eq hash L ok" using assms(1-3) by (rule collector_lawsI)
  then have lay: "layout_laws L (\<lambda>e. ok (e_item e))" and hk: "hash_key eq hash"
    by (simp_all add: collector_laws_def)
  have hc: "HashCounter_wf eq hash (c_map c)" using assms(4) by (simp add: Collector_wf_def)
  obtain hc' ev t where add: "HashCounter_add eq hash (c_map c) key count = (hc', Some ev)"
    and push: "TempFdArray_push L (WriteFailed m err) (c_temp_array c) ev = Return (t, Inl err')"
    and c': "c_map c' = hc'" "c_temp_array c' = t"
    using assms(7) by (auto simp: Collector_add_def obind_Return_iff split: option.splits prod.splits)
  have "TempFdArray_short L t" and "\<forall>e \<in> set (t_buffer t). ok (e_item e)"
    using layout_laws.TempFdArray_push_failed [OF lay _ push] assms(4,6) by (simp_all add: Collector_wf_def)
  moreover have "HashCounter_wf eq hash hc'"
    using hash_key.HashCounter_add_wf [OF hk hc, of key count] add by simp
  moreover have "\<forall>e \<in> set (HashCounter_iter hc'). ok (e_item e)"
    using hash_key.HashCounter_add_origin [OF hk hc add] assms(4,5) by (fastforce simp: Collector_wf_def)
  ultimately have "TempFdArray_short L (c_temp_array c'')"
    using collector_laws.Collector_run_short [OF laws, of c' ops c''] assms(8,9) c' by simp
  then obtain e where "TempFdArray_try_iter L io (c_temp_array c'') = Inl e"
    using TempFdArray_short_try_iter by blast
  then show ?thesis by (simp add: Collector_try_iter_def)
qed

text \<open>A collector whose first bucket and whose one-entry buffer are full.\<close>

definition full_bucket :: "usize Bucket" where
  "full_bucket =
     \<lparr>b_length = 4,
      b_entries = [\<lparr>e_item = 1, e_count = 1\<rparr>, \<lparr>e_item = 2, e_count = 1\<rparr>, \<lparr>e_item = 3, e_count = 1\<rparr>,
                   \<lparr>e_item = 4, e_count = 1\<rparr>]\<rparr>"

definition full_collector :: "usize Collector" where
  "full_collector =
     \<lparr>c_map = \<lparr>hc_buckets = (replicate BUCKETS (Bucket_default 0))[0 := full_bucket]\<rparr>,
      c_temp_array = \<lparr>t_file = [], t_buffer = [\<lparr>e_item = 9, e_count = 1\<rparr>], t_buffer_index = 1, t_flush_n = 0\<rparr>\<rparr>"

lemma full_bucket_wf: "Bucket_wf (=) full_bucket"
  by (simp add: full_bucket_def Bucket_wf_def Bucket_live_def entries_distinct_def BUCKETS_ASSOCIATIVITY_def)

lemma full_collector_wf: "Collector_wf (=) (\<lambda>_. 0) usize_entry_layout (\<lambda>_. True) full_collector"
  using full_bucket_wf
  by (simp add: Collector_wf_def full_collector_def HashCounter_wf_def nth_list_update HashCounter_index_def
      TempFdArray_wf_def TempFdArray_dims_def)

lemma full_collector_add:
  "\<exists>c'. Collector_add (=) (\<lambda>_. 0) usize_entry_layout (WriteFailed 5 (OsError 28)) full_collector 5 1
     = Return (c', Inl (OsError 28))"
proof -
  have "Bucket_add (=) full_bucket 5 1 =
      (full_bucket\<lparr>b_entries := (b_entries full_bucket)[0 := \<lparr>e_item = 5, e_count = 1\<rparr>]\<rparr>,
       Some \<lparr>e_item = 1, e_count = 1\<rparr>)"
    by (simp add: Bucket_add_def full_bucket_def BUCKETS_ASSOCIATIVITY_def min_scan_def upt_rec)
  then show ?thesis
    by (simp add: Collector_add_def full_collector_def HashCounter_add_def BUCKETS_def
        TempFdArray_push_def TempFdArray_flush_buffer_def)
qed

theorem collector_failed_write_is_permanent_witness:
  "\<exists>c' e. Collector_add (=) (\<lambda>_. 0) usize_entry_layout (WriteFailed 5 (OsError 28)) full_collector 5 1
       = Return (c', Inl (OsError 28)) \<and>
     Collector_try_iter usize_entry_layout read_ok c' = Inl e"
proof -
  obtain c' where c': "Collector_add (=) (\<lambda>_. 0) usize_entry_layout (WriteFailed 5 (OsError 28))
      full_collector 5 1 = Return (c', Inl (OsError 28))"
    using full_collector_add by blast
  have "\<exists>e. Collector_try_iter usize_entry_layout read_ok c' = Inl e"
  proof (rule collector_failed_write_is_permanent [OF identity_equivp _ _ full_collector_wf _ _ c'])
    show "is_layout usize_entry_layout (\<lambda>e. True)" by (rule is_layout_usize_entry)
    show "5 < length (t_buffer (c_temp_array full_collector)) * size_of usize_entry_layout"
      by (simp add: full_collector_def usize_entry_layout_def)
    show "\<forall>(key, count, w) \<in> set []. True" by simp
    show "Collector_run (=) (\<lambda>_. 0) usize_entry_layout c' [] = Return c'" by simp
  qed simp_all
  with c' show ?thesis by blast
qed

end
