(* ===== verification/Frames.thy ===== *)
theory Frames
  imports Utf8 Collector
begin

unbundle bit_operations_syntax

text \<open>
  Backtraces, from \<^verbatim>\<open>src/src/frames.rs\<close>, \<^verbatim>\<open>src/src/backtrace/mod.rs\<close> and the constants of
  \<^verbatim>\<open>src/src/lib.rs\<close>: the raw sample (\<^verbatim>\<open>UnresolvedFrames\<close>), the resolved one (\<^verbatim>\<open>Frames\<close> of
  \<^verbatim>\<open>Symbol\<close>s), and the conversion. What comes from other crates is an argument: \<open>resolve\<close>
  (\<^verbatim>\<open>backtrace::resolve\<close>, the symbols it reports for an address), \<open>demangle\<close>
  (\<^verbatim>\<open>symbolic_demangle\<close>), \<open>enclosing\<close> (\<^verbatim>\<open>_Unwind_FindEnclosingFunction\<close>) and \<open>hasher\<close> (the standard
  library's \<^verbatim>\<open>DefaultHasher\<close>, whose algorithm is unspecified, as a function of the words written).
  A \<^verbatim>\<open>SystemTime\<close> is its distance from the Unix epoch in nanoseconds.
\<close>

section \<open>Configuration\<close>

text \<open>Cargo features and target: \<^verbatim>\<open>large-depth\<close>, \<^verbatim>\<open>huge-depth\<close>, \<^verbatim>\<open>frame-pointer\<close>, and macOS or iOS.\<close>

record config =
  large_depth :: bool
  huge_depth :: bool
  frame_pointer_feature :: bool
  target_macos :: bool

definition MAX_DEPTH :: "config \<Rightarrow> nat" where
  "MAX_DEPTH cfg = (if large_depth cfg then 1024 else if huge_depth cfg then 512 else 128)"

definition MAX_THREAD_NAME :: nat where
  "MAX_THREAD_NAME = 16"

definition default_config :: config where
  "default_config =
     \<lparr>large_depth = False, huge_depth = False, frame_pointer_feature = False, target_macos = False\<rparr>"

type_synonym SystemTime = int

section \<open>Raw samples\<close>

record Frame =
  ip :: usize

definition Frame_symbol_address :: "config \<Rightarrow> (usize \<Rightarrow> usize) \<Rightarrow> Frame \<Rightarrow> usize" where
  "Frame_symbol_address cfg enclosing frame =
     (if target_macos cfg then ip frame else enclosing (ip frame))"

record UnresolvedFrames =
  uf_frames :: "Frame list"
  uf_thread_name :: string
  uf_thread_name_length :: nat
  uf_thread_id :: u64
  uf_sample_timestamp :: SystemTime

definition UnresolvedFrames_default :: "SystemTime \<Rightarrow> UnresolvedFrames" where
  "UnresolvedFrames_default now =
     \<lparr>uf_frames = [], uf_thread_name = replicate MAX_THREAD_NAME (CHR 0x00), uf_thread_name_length = 0,
      uf_thread_id = 0, uf_sample_timestamp = now\<rparr>"

definition UnresolvedFrames_new ::
  "Frame list \<Rightarrow> string \<Rightarrow> u64 \<Rightarrow> SystemTime \<Rightarrow> UnresolvedFrames outcome" where
  "UnresolvedFrames_new frames tn thread_id sample_timestamp =
     (let thread_name_length = length tn
      in if thread_name_length \<le> MAX_THREAD_NAME
         then Return \<lparr>uf_frames = frames,
                uf_thread_name = tn @ replicate (MAX_THREAD_NAME - thread_name_length) (CHR 0x00),
                uf_thread_name_length = thread_name_length, uf_thread_id = thread_id,
                uf_sample_timestamp = sample_timestamp\<rparr>
         else Panic IndexOutOfBounds)"

definition UnresolvedFrames_eq ::
  "(Frame \<Rightarrow> usize) \<Rightarrow> UnresolvedFrames \<Rightarrow> UnresolvedFrames \<Rightarrow> bool" where
  "UnresolvedFrames_eq symbol_address a b =
     (let frames1 = uf_frames a; frames2 = uf_frames b
      in if uf_thread_id a \<noteq> uf_thread_id b \<or> length frames1 \<noteq> length frames2 then False
         else list_all (\<lambda>(s1, s2). symbol_address s1 = symbol_address s2) (zip frames1 frames2))"

definition UnresolvedFrames_hash ::
  "(Frame \<Rightarrow> usize) \<Rightarrow> (u64 list \<Rightarrow> u64) \<Rightarrow> UnresolvedFrames \<Rightarrow> u64" where
  "UnresolvedFrames_hash symbol_address hasher a =
     hasher (map symbol_address (uf_frames a) @ [uf_thread_id a])"

section \<open>Symbols and resolved backtraces\<close>

text \<open>The trait \<^verbatim>\<open>backtrace::Symbol\<close>: what the symbolizer says of one symbol.\<close>

record BtSymbol =
  bt_name :: "string option"
  bt_addr :: "usize option"
  bt_lineno :: "u32 option"
  bt_filename :: "string option"

record Symbol =
  sym_name :: "string option"
  sym_addr :: "usize option"
  sym_lineno :: "u32 option"
  sym_filename :: "string option"

definition Symbol_from :: "BtSymbol \<Rightarrow> Symbol" where
  "Symbol_from symbol =
     \<lparr>sym_name = bt_name symbol, sym_addr = bt_addr symbol, sym_lineno = bt_lineno symbol,
      sym_filename = bt_filename symbol\<rparr>"

definition Symbol_raw_name :: "Symbol \<Rightarrow> string" where
  "Symbol_raw_name s = (case sym_name s of Some n \<Rightarrow> n | None \<Rightarrow> ''Unknown'')"

definition Symbol_name :: "(string \<Rightarrow> string) \<Rightarrow> Symbol \<Rightarrow> string" where
  "Symbol_name demangle s = demangle (from_utf8_lossy (Symbol_raw_name s))"

definition Symbol_sys_name :: "Symbol \<Rightarrow> string" where
  "Symbol_sys_name s = from_utf8_lossy (Symbol_raw_name s)"

definition Symbol_filename :: "Symbol \<Rightarrow> string" where
  "Symbol_filename s = (case sym_filename s of Some f \<Rightarrow> from_utf8_lossy f | None \<Rightarrow> ''Unknown'')"

definition Symbol_lineno :: "Symbol \<Rightarrow> u32" where
  "Symbol_lineno s = (case sym_lineno s of Some n \<Rightarrow> n | None \<Rightarrow> 0)"

definition Symbol_eq :: "Symbol \<Rightarrow> Symbol \<Rightarrow> bool" where
  "Symbol_eq a b \<longleftrightarrow> Symbol_raw_name a = Symbol_raw_name b"

text \<open>\<^verbatim>\<open>Display\<close>, and \<^verbatim>\<open>Hash\<close>, which feeds the raw name to the hasher.\<close>

definition Symbol_display :: "(string \<Rightarrow> string) \<Rightarrow> Symbol \<Rightarrow> string" where
  "Symbol_display demangle s = Symbol_name demangle s"

definition Symbol_hash :: "(string \<Rightarrow> u64) \<Rightarrow> Symbol \<Rightarrow> u64" where
  "Symbol_hash hash_bytes s = hash_bytes (Symbol_raw_name s)"

record Frames =
  fr_frames :: "Symbol list list"
  fr_thread_name :: string
  fr_thread_id :: u64
  fr_sample_timestamp :: SystemTime

text \<open>The derived \<^verbatim>\<open>PartialEq\<close>: all four fields, the symbols by their own equality.\<close>

definition Frames_eq :: "Frames \<Rightarrow> Frames \<Rightarrow> bool" where
  "Frames_eq a b \<longleftrightarrow>
     list_all2 (list_all2 Symbol_eq) (fr_frames a) (fr_frames b) \<and>
     fr_thread_name a = fr_thread_name b \<and> fr_thread_id a = fr_thread_id b \<and>
     fr_sample_timestamp a = fr_sample_timestamp b"

definition Frames_thread_name_or_id :: "Frames \<Rightarrow> string" where
  "Frames_thread_name_or_id f =
     (if fr_thread_name f \<noteq> [] then fr_thread_name f else show_nat (unat (fr_thread_id f)))"

definition is_handler_symbol :: "(string \<Rightarrow> string) \<Rightarrow> Symbol \<Rightarrow> bool" where
  "is_handler_symbol demangle s \<longleftrightarrow>
     Symbol_name demangle s = ''perf_signal_handler'' \<or> Symbol_name demangle s = ''_perf_signal_handler''"

definition frame_symbols ::
  "(usize \<Rightarrow> Symbol option) \<Rightarrow> (usize \<Rightarrow> BtSymbol list) \<Rightarrow> Frame \<Rightarrow> Symbol list" where
  "frame_symbols perfmap resolve frame =
     (case perfmap (ip frame) of
        Some s \<Rightarrow> [s]
      | None \<Rightarrow> map Symbol_from (resolve (ip frame)))"

function resolve_frames ::
  "(usize \<Rightarrow> Symbol option) \<Rightarrow> (usize \<Rightarrow> BtSymbol list) \<Rightarrow> (string \<Rightarrow> string) \<Rightarrow> Frame list
     \<Rightarrow> Symbol list list" where
  "resolve_frames perfmap resolve demangle [] = []"
| "resolve_frames perfmap resolve demangle (frame # rest) =
     (let symbols = frame_symbols perfmap resolve frame
      in if list_ex (is_handler_symbol demangle) symbols
         then resolve_frames perfmap resolve demangle (tl rest)
         else if symbols \<noteq> [] then symbols # resolve_frames perfmap resolve demangle rest
         else resolve_frames perfmap resolve demangle rest)"
  by pat_completeness auto
termination
  by (relation "measure (\<lambda>(p, r, d, fs). length fs)") auto

text \<open>
  The slice \<^verbatim>\<open>thread_name[0..thread_name_length]\<close> is in range for every sample that \<^verbatim>\<open>new\<close> or \<^verbatim>\<open>default\<close>
  makes, so it is a \<open>take\<close> here.
\<close>

definition Frames_from ::
  "(usize \<Rightarrow> Symbol option) \<Rightarrow> (usize \<Rightarrow> BtSymbol list) \<Rightarrow> (string \<Rightarrow> string) \<Rightarrow> UnresolvedFrames
     \<Rightarrow> Frames" where
  "Frames_from perfmap resolve demangle frames =
     \<lparr>fr_frames = resolve_frames perfmap resolve demangle (uf_frames frames),
      fr_thread_name = from_utf8_lossy (take (uf_thread_name_length frames) (uf_thread_name frames)),
      fr_thread_id = uf_thread_id frames, fr_sample_timestamp = uf_sample_timestamp frames\<rparr>"

definition Frames_debug :: "(string \<Rightarrow> string) \<Rightarrow> Frames \<Rightarrow> string" where
  "Frames_debug demangle f =
     concat (map (\<lambda>frame. ''FRAME: '' @ concat (map (\<lambda>s. Symbol_name demangle s @ '' -> '') frame))
       (fr_frames f)) @ ''THREAD: '' @
     (if fr_thread_name f \<noteq> [] then fr_thread_name f
      else ''ThreadId('' @ show_nat (unat (fr_thread_id f)) @ '')'')"

section \<open>Equality and hashing\<close>

lemma UnresolvedFrames_eq_iff:
  "UnresolvedFrames_eq sa a b \<longleftrightarrow>
     uf_thread_id a = uf_thread_id b \<and> map sa (uf_frames a) = map sa (uf_frames b)"
proof (cases "length (uf_frames a) = length (uf_frames b)")
  case True
  then show ?thesis by (simp add: UnresolvedFrames_eq_def zip_all_map_eq)
next
  case False
  then show ?thesis by (auto simp: UnresolvedFrames_eq_def dest: map_eq_imp_length_eq)
qed

interpretation uf_key: hash_key "UnresolvedFrames_eq sa" "UnresolvedFrames_hash sa hasher"
  for sa :: "Frame \<Rightarrow> usize" and hasher :: "u64 list \<Rightarrow> u64"
  by unfold_locales (auto simp: UnresolvedFrames_eq_iff UnresolvedFrames_hash_def)

lemma Frames_eq_iff:
  "Frames_eq a b \<longleftrightarrow>
     map (map Symbol_raw_name) (fr_frames a) = map (map Symbol_raw_name) (fr_frames b) \<and>
     fr_thread_name a = fr_thread_name b \<and> fr_thread_id a = fr_thread_id b \<and>
     fr_sample_timestamp a = fr_sample_timestamp b"
proof -
  have inner: "list_all2 Symbol_eq = (\<lambda>xs ys. map Symbol_raw_name xs = map Symbol_raw_name ys)"
    by (intro ext) (simp add: Symbol_eq_def [abs_def] list_all2_map_eq)
  show ?thesis by (simp add: Frames_eq_def inner list_all2_map_eq)
qed

interpretation symbol_key: hash_key Symbol_eq "Symbol_hash hash_bytes" for hash_bytes
  by unfold_locales (auto simp: Symbol_eq_def Symbol_hash_def intro!: equivpI reflpI sympI transpI)

interpretation frames_key: key_eq Frames_eq
  by unfold_locales (auto simp: Frames_eq_iff)

section \<open>Resolution\<close>

lemma resolve_frames_plain:
  assumes "\<forall>f \<in> set fs. \<not> list_ex (is_handler_symbol demangle) (frame_symbols perfmap resolve f)"
  shows "resolve_frames perfmap resolve demangle (fs @ rest) =
    filter (\<lambda>symbols. symbols \<noteq> []) (map (frame_symbols perfmap resolve) fs)
      @ resolve_frames perfmap resolve demangle rest"
  using assms by (induction fs) (auto simp: Let_def)

lemma resolve_frames_set:
  "symbols \<in> set (resolve_frames perfmap resolve demangle fs) \<Longrightarrow>
     symbols \<noteq> [] \<and> \<not> list_ex (is_handler_symbol demangle) symbols \<and>
     symbols \<in> frame_symbols perfmap resolve ` set fs"
proof (induction perfmap resolve demangle fs rule: resolve_frames.induct)
  case (2 perfmap resolve demangle frame rest)
  have tl: "set (tl rest) \<subseteq> set rest" by (cases rest) auto
  show ?case
  proof (cases "list_ex (is_handler_symbol demangle) (frame_symbols perfmap resolve frame)")
    case True
    with "2.IH"(1) [OF refl True] "2.prems" tl show ?thesis by (auto simp: Let_def)
  next
    case False
    with "2.IH"(2,3) [OF refl False] "2.prems" show ?thesis
      by (auto simp: Let_def split: if_splits)
  qed
qed simp

lemma resolve_frames_length: "length (resolve_frames perfmap resolve demangle fs) \<le> length fs"
  by (induction perfmap resolve demangle fs rule: resolve_frames.induct) (auto simp: Let_def le_diff_conv)

section \<open>A memory image of a sample\<close>

text \<open>
  The compiler chooses the memory image of \<^verbatim>\<open>Entry<UnresolvedFrames>\<close>; this is one, with the fields in
  order and the inline frames of the \<^verbatim>\<open>SmallVec\<close> padded to \<^verbatim>\<open>MAX_DEPTH\<close>. It serves as an instance.
\<close>

definition frame_layout :: "Frame mem_layout" where
  "frame_layout = \<lparr>size_of = 8, to_bytes = (\<lambda>f. le_bytes 8 (ip f)), from_bytes = (\<lambda>bs. \<lparr>ip = le_word bs\<rparr>)\<rparr>"

definition uf_ok :: "nat \<Rightarrow> UnresolvedFrames \<Rightarrow> bool" where
  "uf_ok depth uf \<longleftrightarrow>
     length (uf_frames uf) \<le> depth \<and> length (uf_thread_name uf) = MAX_THREAD_NAME \<and>
     uf_thread_name_length uf < 2 ^ 64 \<and>
     - (2 ^ 63) \<le> uf_sample_timestamp uf \<and> uf_sample_timestamp uf < 2 ^ 63"

definition char_bytes :: "string \<Rightarrow> u8 list" where
  "char_bytes s = map (\<lambda>c. word_of_nat (of_char c)) s"

definition bytes_chars :: "u8 list \<Rightarrow> string" where
  "bytes_chars bs = map (\<lambda>b. char_of (unat b)) bs"

definition uf_entry_layout :: "nat \<Rightarrow> UnresolvedFrames Entry mem_layout" where
  "uf_entry_layout depth =
     \<lparr>size_of = 8 * depth + 56,
      to_bytes = (\<lambda>e. let uf = e_item e in
         le_bytes 8 (e_count e) @ le_bytes 8 (uf_thread_id uf) @
         le_bytes 8 (word_of_nat (uf_thread_name_length uf) :: u64) @
         le_bytes 8 (word_of_int (uf_sample_timestamp uf) :: u64) @
         char_bytes (uf_thread_name uf) @
         le_bytes 8 (word_of_nat (length (uf_frames uf)) :: u64) @
         concat (map (to_bytes frame_layout)
           (uf_frames uf @ replicate (depth - length (uf_frames uf)) \<lparr>ip = 0\<rparr>))),
      from_bytes = (\<lambda>bs. \<lparr>
         e_item = \<lparr>uf_frames = raw_parts frame_layout (drop 56 bs) (unat (le_word (take 8 (drop 48 bs)) :: u64)),
                   uf_thread_name = bytes_chars (take 16 (drop 32 bs)),
                   uf_thread_name_length = unat (le_word (take 8 (drop 16 bs)) :: u64),
                   uf_thread_id = le_word (take 8 (drop 8 bs)),
                   uf_sample_timestamp = sint (le_word (take 8 (drop 24 bs)) :: u64)\<rparr>,
         e_count = le_word (take 8 bs)\<rparr>)\<rparr>"

lemma length_char_bytes [simp]: "length (char_bytes s) = length s"
  by (simp add: char_bytes_def)

lemma bytes_chars_char_bytes: "bytes_chars (char_bytes s) = s"
proof -
  have "char_of (unat (word_of_nat (of_char c) :: u8)) = c" for c
    by (simp add: unat_of_nat take_bit_nat_eq_self)
  then show ?thesis by (simp add: bytes_chars_def char_bytes_def comp_def)
qed

lemma is_layout_frame: "is_layout frame_layout (\<lambda>_. True)"
  by (simp add: is_layout_def frame_layout_def le_word_le_bytes)

interpretation frame_mem: layout_laws frame_layout "\<lambda>_. True"
  using is_layout_frame by (simp add: is_layout_laws)

lemma raw_parts_frames:
  "raw_parts frame_layout (concat (map (to_bytes frame_layout) (xs @ ys))) (length xs) = xs"
proof -
  have "raw_parts frame_layout (concat (map (to_bytes frame_layout) xs) @
      concat (map (to_bytes frame_layout) ys)) (length xs + 0) = xs"
    by (subst raw_parts_append) (simp_all add: frame_mem.length_concat_to_bytes frame_mem.raw_parts_concat)
  then show ?thesis by simp
qed

lemma sint_word_of_int_small:
  "- (2 ^ 63) \<le> i \<Longrightarrow> i < 2 ^ 63 \<Longrightarrow> sint (word_of_int i :: u64) = i"
  by (simp add: sint_sbintrunc' signed_take_bit_int_eq_self)

lemma is_layout_uf_entry:
  assumes "depth < 2 ^ 64"
  shows "is_layout (uf_entry_layout depth) (\<lambda>e. uf_ok depth (e_item e))"
  unfolding is_layout_def
proof (intro conjI allI impI)
  fix e :: "UnresolvedFrames Entry"
  assume ok: "uf_ok depth (e_item e)"
  let ?uf = "e_item e"
  let ?fs = "uf_frames ?uf @ replicate (depth - length (uf_frames ?uf)) \<lparr>ip = 0\<rparr>"
  let ?tail = "concat (map (to_bytes frame_layout) ?fs)"
  have len: "length (uf_thread_name ?uf) = 16" "length (uf_frames ?uf) \<le> depth"
    using ok by (simp_all add: uf_ok_def MAX_THREAD_NAME_def)
  have tail: "length ?tail = 8 * depth"
    using len frame_mem.length_concat_to_bytes [of ?fs] by (simp add: frame_layout_def)
  show "length (to_bytes (uf_entry_layout depth) e) = size_of (uf_entry_layout depth)"
    using len tail by (simp add: uf_entry_layout_def Let_def)
  have count: "unat (word_of_nat (length (uf_frames ?uf)) :: u64) = length (uf_frames ?uf)"
    using len assms by (intro unat_of_nat_small) simp
  have name_len: "unat (word_of_nat (uf_thread_name_length ?uf) :: u64) = uf_thread_name_length ?uf"
    using ok by (intro unat_of_nat_small) (simp add: uf_ok_def)
  have time: "sint (word_of_int (uf_sample_timestamp ?uf) :: u64) = uf_sample_timestamp ?uf"
    using ok by (intro sint_word_of_int_small) (simp_all add: uf_ok_def)
  show "from_bytes (uf_entry_layout depth) (to_bytes (uf_entry_layout depth) e) = e"
    using len count name_len time raw_parts_frames [of "uf_frames ?uf"]
    by (cases e, cases ?uf)
       (simp add: uf_entry_layout_def le_word_le_bytes bytes_chars_char_bytes
          del: concat_append map_append)
qed (simp add: uf_entry_layout_def)

interpretation uf_collector: collector_laws "UnresolvedFrames_eq sa" "UnresolvedFrames_hash sa hasher"
    "uf_entry_layout (MAX_DEPTH cfg)" "uf_ok (MAX_DEPTH cfg)"
  for sa :: "Frame \<Rightarrow> usize" and hasher :: "u64 list \<Rightarrow> u64" and cfg :: config
  by (intro collector_laws.intro uf_key.hash_key_axioms)
     (use is_layout_uf_entry [of "MAX_DEPTH cfg"] in \<open>simp add: is_layout_laws MAX_DEPTH_def\<close>)

section \<open>Properties\<close>

text \<open>
  \<^verbatim>\<open>PartialEq\<close>, \<^verbatim>\<open>Eq\<close> and \<^verbatim>\<open>Hash\<close> of \<^verbatim>\<open>UnresolvedFrames\<close> fit together, whatever the unwinder's
  symbol addresses and the hasher are: the equality is an equivalence, it holds exactly for samples of
  the same thread whose frames have the same symbol addresses in order (depth included, name and time
  stamp not), and equal samples have equal hashes.
\<close>

lemma unresolved_frames_eq_hash:
  "equivp (UnresolvedFrames_eq sa) \<and>
   (UnresolvedFrames_eq sa a b \<longleftrightarrow>
      uf_thread_id a = uf_thread_id b \<and> map sa (uf_frames a) = map sa (uf_frames b)) \<and>
   (UnresolvedFrames_eq sa a b \<longrightarrow> UnresolvedFrames_hash sa hasher a = UnresolvedFrames_hash sa hasher b)"
proof -
  have "equivp (UnresolvedFrames_eq sa)"
    by (intro equivpI reflpI sympI transpI) (simp_all add: UnresolvedFrames_eq_iff)
  then show ?thesis using uf_key.hash_cong UnresolvedFrames_eq_iff by blast
qed

lemma unresolved_frames_eq_hash_witness:
  "let a = \<lparr>uf_frames = [\<lparr>ip = 0x1010\<rparr>], uf_thread_name = [], uf_thread_name_length = 0, uf_thread_id = 7,
            uf_sample_timestamp = 1\<rparr>;
       b = a\<lparr>uf_frames := [\<lparr>ip = 0x1020\<rparr>], uf_sample_timestamp := 2\<rparr>;
       sa = \<lambda>f. ip f AND 0xFF00
   in UnresolvedFrames_eq sa a b \<and> UnresolvedFrames_hash sa sum_list a = UnresolvedFrames_hash sa sum_list b"
proof -
  let ?a = "\<lparr>uf_frames = [\<lparr>ip = 0x1010\<rparr>], uf_thread_name = [], uf_thread_name_length = 0, uf_thread_id = 7,
            uf_sample_timestamp = 1\<rparr>"
  let ?b = "?a\<lparr>uf_frames := [\<lparr>ip = 0x1020\<rparr>], uf_sample_timestamp := 2\<rparr>"
  let ?sa = "\<lambda>f. ip f AND 0xFF00"
  have eq: "UnresolvedFrames_eq ?sa ?a ?b" by (simp add: UnresolvedFrames_eq_def)
  then have "UnresolvedFrames_hash ?sa sum_list ?a = UnresolvedFrames_hash ?sa sum_list ?b"
    using unresolved_frames_eq_hash [of ?sa ?a ?b sum_list] by blast
  with eq show ?thesis unfolding Let_def by blast
qed

text \<open>
  C34. \<^verbatim>\<open>Frames::from\<close> removes the profiler's own frames. For any symbolizer, perf map and demangler: if
  the handler's symbol occurs in one frame of the backtrace only, that frame and the one after it (the
  signal trampoline) are left out, every other frame that has a symbol is kept, in order, and frames
  without symbols are dropped.
\<close>

theorem frames_from_elides_handler:
  assumes "uf_frames uf = before @ handler # trampoline # after"
    and "list_ex (is_handler_symbol demangle) (frame_symbols perfmap resolve handler)"
    and "\<forall>f \<in> set (before @ after).
           \<not> list_ex (is_handler_symbol demangle) (frame_symbols perfmap resolve f)"
  shows "fr_frames (Frames_from perfmap resolve demangle uf) =
    filter (\<lambda>symbols. symbols \<noteq> []) (map (frame_symbols perfmap resolve) (before @ after))"
  using assms resolve_frames_plain [of before demangle perfmap resolve]
    resolve_frames_plain [of after demangle perfmap resolve "[]"]
  by (simp add: Frames_from_def ball_Un)

definition demo_symbol :: "string \<Rightarrow> BtSymbol" where
  "demo_symbol n = \<lparr>bt_name = Some n, bt_addr = None, bt_lineno = None, bt_filename = None\<rparr>"

definition demo_resolve :: "usize \<Rightarrow> BtSymbol list" where
  "demo_resolve a =
     (if a = 1 then [demo_symbol ''perf_signal_handler''] else if a = 2 then [demo_symbol ''restore_rt'']
      else if a = 3 then [demo_symbol ''work''] else if a = 4 then [demo_symbol ''main''] else [])"

definition demo_sample :: "Frame list \<Rightarrow> SystemTime \<Rightarrow> UnresolvedFrames" where
  "demo_sample fs now =
     \<lparr>uf_frames = fs, uf_thread_name = ''main'' @ replicate 12 (CHR 0x00), uf_thread_name_length = 4,
      uf_thread_id = 7, uf_sample_timestamp = now\<rparr>"

lemma from_utf8_lossy_names:
  "from_utf8_lossy ''perf_signal_handler'' = ''perf_signal_handler''"
  "from_utf8_lossy ''restore_rt'' = ''restore_rt''"
  "from_utf8_lossy ''work'' = ''work''"
  "from_utf8_lossy ''main'' = ''main''"
  by (simp_all add: from_utf8_lossy_ascii byte_in_def)

lemmas demo_simps = demo_symbol_def demo_resolve_def demo_sample_def frame_symbols_def Symbol_from_def
  is_handler_symbol_def Symbol_name_def Symbol_raw_name_def from_utf8_lossy_names

theorem frames_from_elides_handler_witness:
  "map (map (Symbol_name (\<lambda>s. s))) (fr_frames (Frames_from (\<lambda>_. None) demo_resolve (\<lambda>s. s)
     (demo_sample [\<lparr>ip = 9\<rparr>, \<lparr>ip = 1\<rparr>, \<lparr>ip = 2\<rparr>, \<lparr>ip = 3\<rparr>, \<lparr>ip = 4\<rparr>] 0))) = [[''work''], [''main'']]"
proof -
  have "fr_frames (Frames_from (\<lambda>_. None) demo_resolve (\<lambda>s. s)
      (demo_sample [\<lparr>ip = 9\<rparr>, \<lparr>ip = 1\<rparr>, \<lparr>ip = 2\<rparr>, \<lparr>ip = 3\<rparr>, \<lparr>ip = 4\<rparr>] 0)) =
    filter (\<lambda>symbols. symbols \<noteq> [])
      (map (frame_symbols (\<lambda>_. None) demo_resolve) ([\<lparr>ip = 9\<rparr>] @ [\<lparr>ip = 3\<rparr>, \<lparr>ip = 4\<rparr>]))"
    by (rule frames_from_elides_handler [where handler = "\<lparr>ip = 1\<rparr>" and trampoline = "\<lparr>ip = 2\<rparr>"])
       (simp_all add: demo_simps)
  then show ?thesis by (simp add: demo_simps)
qed

text \<open>
  No frame of a resolved backtrace is empty or names the signal handler, every frame is the
  symbols of a frame of the raw backtrace, and resolving never makes a backtrace longer.
\<close>

lemma frames_from_frames:
  "(\<forall>symbols \<in> set (fr_frames (Frames_from perfmap resolve demangle uf)).
      symbols \<noteq> [] \<and> \<not> list_ex (is_handler_symbol demangle) symbols \<and>
      symbols \<in> frame_symbols perfmap resolve ` set (uf_frames uf)) \<and>
   length (fr_frames (Frames_from perfmap resolve demangle uf)) \<le> length (uf_frames uf)"
  using resolve_frames_set resolve_frames_length by (simp add: Frames_from_def)

lemma frames_from_frames_witness:
  "[] \<notin> set (fr_frames (Frames_from (\<lambda>_. None) demo_resolve (\<lambda>s. s) (demo_sample [\<lparr>ip = 9\<rparr>, \<lparr>ip = 3\<rparr>] 0)))"
  using frames_from_frames [of "\<lambda>_. None" demo_resolve "\<lambda>s. s" "demo_sample [\<lparr>ip = 9\<rparr>, \<lparr>ip = 3\<rparr>] 0"] by blast

text \<open>
  The thread name survives the fixed-size buffer: a sample made by \<^verbatim>\<open>UnresolvedFrames::new\<close> from a
  name of at most \<^verbatim>\<open>MAX_THREAD_NAME\<close> bytes resolves to that name (decoded lossily); a longer name makes
  \<^verbatim>\<open>new\<close> panic on the slice bound.
\<close>

lemma thread_name_round_trip:
  "(length tn \<le> MAX_THREAD_NAME \<longrightarrow>
      (\<exists>uf. UnresolvedFrames_new frames tn tid now = Return uf \<and>
            fr_thread_name (Frames_from perfmap resolve demangle uf) = from_utf8_lossy tn \<and>
            length (uf_thread_name uf) = MAX_THREAD_NAME)) \<and>
   (MAX_THREAD_NAME < length tn \<longrightarrow> UnresolvedFrames_new frames tn tid now = Panic IndexOutOfBounds)"
  by (auto simp: UnresolvedFrames_new_def Frames_from_def Let_def)

lemma thread_name_round_trip_witness:
  "\<exists>uf. UnresolvedFrames_new [] ''main'' 7 0 = Return uf \<and>
     fr_thread_name (Frames_from (\<lambda>_. None) demo_resolve (\<lambda>s. s) uf) = ''main''"
  using thread_name_round_trip [of "''main''" "[]" 7 0 "\<lambda>_. None" demo_resolve "\<lambda>s. s"]
  by (auto simp: MAX_THREAD_NAME_def from_utf8_lossy_names)

text \<open>
  The two stages of counting disagree on what a stack is: two samples of one thread with the same
  frames, taken at different times, are equal as \<^verbatim>\<open>UnresolvedFrames\<close> but resolve to \<^verbatim>\<open>Frames\<close> that are
  not equal, because the derived equality of \<^verbatim>\<open>Frames\<close> compares the time stamps.
\<close>

lemma frames_eq_separates_times:
  assumes "t1 \<noteq> t2"
  shows "UnresolvedFrames_eq sa (uf\<lparr>uf_sample_timestamp := t1\<rparr>) (uf\<lparr>uf_sample_timestamp := t2\<rparr>) \<and>
    \<not> Frames_eq (Frames_from perfmap resolve demangle (uf\<lparr>uf_sample_timestamp := t1\<rparr>))
                (Frames_from perfmap resolve demangle (uf\<lparr>uf_sample_timestamp := t2\<rparr>))"
  using assms by (simp add: UnresolvedFrames_eq_iff Frames_eq_iff Frames_from_def)

lemma frames_eq_separates_times_witness:
  "\<not> Frames_eq
     (Frames_from (\<lambda>_. None) demo_resolve (\<lambda>s. s) ((demo_sample [\<lparr>ip = 3\<rparr>] 0)\<lparr>uf_sample_timestamp := 1\<rparr>))
     (Frames_from (\<lambda>_. None) demo_resolve (\<lambda>s. s) ((demo_sample [\<lparr>ip = 3\<rparr>] 0)\<lparr>uf_sample_timestamp := 2\<rparr>))"
  using frames_eq_separates_times [of 1 2 ip "demo_sample [\<lparr>ip = 3\<rparr>] 0" "\<lambda>_. None" demo_resolve "\<lambda>s. s"]
  by simp

end
