(* ===== verification/Timer.thy ===== *)
theory Timer
  imports Frames "HOL-Library.Signed_Division"
begin

text \<open>
  The sampling timer of \<^verbatim>\<open>src/src/timer.rs\<close>: the interval computed from a frequency, the \<^verbatim>\<open>setitimer\<close>
  calls that arm and disarm it, and the timing data of a report. The kernel is an argument: its state
  has an abstract type and \<open>setitimer\<close> is a function on it. The locale \<open>itimer_os\<close> states what
  \<^verbatim>\<open>setitimer(2)\<close> documents, through an observer of the armed value; \<open>sim_setitimer\<close> is an instance.
  Intervals are integers: \<^verbatim>\<open>1e6 as i64\<close> divided by a 32-bit value does not leave \<^verbatim>\<open>i64\<close>.
\<close>

section \<open>Timers\<close>

record Timeval =
  tv_sec :: int
  tv_usec :: int

record Itimerval =
  it_interval :: Timeval
  it_value :: Timeval

definition ITIMER_REAL :: int where
  "ITIMER_REAL = 0"

definition ITIMER_PROF :: int where
  "ITIMER_PROF = 2"

datatype ClockType = Cpu | Wall

fun clock_itimer :: "ClockType \<Rightarrow> int" where
  "clock_itimer Cpu = ITIMER_PROF"
| "clock_itimer Wall = ITIMER_REAL"

type_synonym 'os setitimer_fn = "'os \<Rightarrow> int \<Rightarrow> Itimerval \<Rightarrow> 'os"

record Timer =
  tm_frequency :: i32
  tm_clock_type :: ClockType
  tm_start_time :: SystemTime
  tm_start_instant :: nat

definition Timer_with_clock_type ::
  "'os setitimer_fn \<Rightarrow> 'os \<Rightarrow> i32 \<Rightarrow> ClockType \<Rightarrow> SystemTime \<Rightarrow> nat \<Rightarrow> ('os \<times> Timer) outcome" where
  "Timer_with_clock_type setitimer os frequency clock_type now instant =
     (if sint frequency = 0 then Panic DivideByZero
      else let interval = 1000000 sdiv sint frequency;
               it_interval = \<lparr>tv_sec = interval sdiv 1000000, tv_usec = interval smod 1000000\<rparr>;
               it_value = it_interval;
               os' = setitimer os (clock_itimer clock_type)
                       \<lparr>it_interval = it_interval, it_value = it_value\<rparr>
           in Return (os', \<lparr>tm_frequency = frequency, tm_clock_type = clock_type,
                           tm_start_time = now, tm_start_instant = instant\<rparr>))"

definition Timer_new ::
  "'os setitimer_fn \<Rightarrow> 'os \<Rightarrow> i32 \<Rightarrow> SystemTime \<Rightarrow> nat \<Rightarrow> ('os \<times> Timer) outcome" where
  "Timer_new setitimer os frequency now instant =
     Timer_with_clock_type setitimer os frequency Cpu now instant"

definition Timer_drop :: "'os setitimer_fn \<Rightarrow> 'os \<Rightarrow> Timer \<Rightarrow> 'os" where
  "Timer_drop setitimer os t =
     (let it_interval = \<lparr>tv_sec = 0, tv_usec = 0\<rparr>;
          it_value = it_interval
      in setitimer os (clock_itimer (tm_clock_type t))
           \<lparr>it_interval = it_interval, it_value = it_value\<rparr>)"

text \<open>Timing data of a report; the duration in nanoseconds.\<close>

record ReportTiming =
  rt_frequency :: i32
  rt_start_time :: SystemTime
  rt_duration :: nat
  rt_clock_type :: ClockType

definition ReportTiming_default :: ReportTiming where
  "ReportTiming_default =
     \<lparr>rt_frequency = 1, rt_start_time = 0, rt_duration = 0, rt_clock_type = Cpu\<rparr>"

definition Timer_timing :: "Timer \<Rightarrow> nat \<Rightarrow> ReportTiming" where
  "Timer_timing t instant =
     \<lparr>rt_frequency = tm_frequency t, rt_start_time = tm_start_time t,
      rt_duration = instant - tm_start_instant t, rt_clock_type = tm_clock_type t\<rparr>"

section \<open>What the kernel promises\<close>

definition timeval_valid :: "Timeval \<Rightarrow> bool" where
  "timeval_valid v \<longleftrightarrow> 0 \<le> tv_sec v \<and> 0 \<le> tv_usec v \<and> tv_usec v < 1000000"

definition timeval_micros :: "Timeval \<Rightarrow> int" where
  "timeval_micros v = tv_sec v * 1000000 + tv_usec v"

text \<open>
  \<open>period os which\<close> is the interval in microseconds at which timer \<open>which\<close> fires, 0 when it is disarmed.
  A value out of range is refused and changes nothing (the code does not look at the result).
\<close>

locale itimer_os =
  fixes setitimer :: "'os \<Rightarrow> int \<Rightarrow> Itimerval \<Rightarrow> 'os" and period :: "'os \<Rightarrow> int \<Rightarrow> int"
  assumes set_valid: "timeval_valid v \<Longrightarrow> which \<in> {ITIMER_REAL, ITIMER_PROF} \<Longrightarrow>
      period (setitimer os which \<lparr>it_interval = v, it_value = v\<rparr>) which = timeval_micros v"
    and set_invalid: "\<not> timeval_valid v \<Longrightarrow>
      period (setitimer os which \<lparr>it_interval = v, it_value = v\<rparr>) w = period os w"
    and set_other: "w \<noteq> which \<Longrightarrow>
      period (setitimer os which \<lparr>it_interval = v, it_value = v\<rparr>) w = period os w"

text \<open>A simulated kernel: the armed value of each timer.\<close>

definition sim_setitimer :: "(int \<Rightarrow> Itimerval) setitimer_fn" where
  "sim_setitimer os which v =
     (if timeval_valid (it_interval v) \<and> timeval_valid (it_value v) then os(which := v) else os)"

definition sim_period :: "(int \<Rightarrow> Itimerval) \<Rightarrow> int \<Rightarrow> int" where
  "sim_period os which = timeval_micros (it_interval (os which))"

definition sim_idle :: "int \<Rightarrow> Itimerval" where
  "sim_idle = (\<lambda>_. \<lparr>it_interval = \<lparr>tv_sec = 0, tv_usec = 0\<rparr>, it_value = \<lparr>tv_sec = 0, tv_usec = 0\<rparr>\<rparr>)"

interpretation sim_itimer: itimer_os sim_setitimer sim_period
  by unfold_locales (auto simp: sim_setitimer_def sim_period_def)

section \<open>Intervals\<close>

definition freq_interval :: "i32 \<Rightarrow> Timeval" where
  "freq_interval f =
     \<lparr>tv_sec = (1000000 sdiv sint f) sdiv 1000000, tv_usec = (1000000 sdiv sint f) smod 1000000\<rparr>"

lemma sdiv_nonneg: "0 \<le> a \<Longrightarrow> 0 < b \<Longrightarrow> (a :: int) sdiv b = a div b"
  by (cases "a = 0") (simp_all add: signed_divide_int_def)

lemma smod_nonneg: "0 \<le> a \<Longrightarrow> 0 < b \<Longrightarrow> (a :: int) smod b = a mod b"
  by (cases "a = 0") (simp_all add: signed_modulo_int_def)

lemma freq_interval_pos:
  assumes "0 < sint f"
  shows "timeval_valid (freq_interval f) \<and> timeval_micros (freq_interval f) = 1000000 div sint f"
proof -
  have "0 \<le> 1000000 div sint f" using assms by (simp add: pos_imp_zdiv_nonneg_iff)
  then show ?thesis
    using assms
    by (simp add: freq_interval_def timeval_valid_def timeval_micros_def sdiv_nonneg smod_nonneg)
qed

lemma sdiv_smod_neg:
  assumes "0 < q" and "0 < b"
  shows "(- q :: int) sdiv b = - (q div b)" and "(- q) smod b = - (q mod b)"
  using assms sdiv_nonneg [of q b] smod_nonneg [of q b] by simp_all

lemma freq_interval_neg:
  assumes "sint f < 0" and "- 1000000 \<le> sint f"
  shows "\<not> timeval_valid (freq_interval f)"
proof -
  define q where "q = 1000000 div (- sint f)"
  have q: "1 \<le> q" using assms pos_imp_zdiv_pos_iff [of "- sint f" 1000000] by (simp add: q_def)
  have "1000000 sdiv sint f = - q"
    using assms(1) by (simp add: signed_divide_int_def q_def sgn_if)
  then have "freq_interval f = \<lparr>tv_sec = (- q) sdiv 1000000, tv_usec = (- q) smod 1000000\<rparr>"
    unfolding freq_interval_def by (simp only:)
  moreover have "(- q) sdiv 1000000 = - (q div 1000000)" "(- q) smod 1000000 = - (q mod 1000000)"
    using q by (intro sdiv_smod_neg; linarith)+
  ultimately have "tv_sec (freq_interval f) = - (q div 1000000)"
    "tv_usec (freq_interval f) = - (q mod 1000000)" by (simp_all only: Timeval.simps)
  moreover have "q div 1000000 > 0 \<or> q mod 1000000 > 0"
    using q div_mult_mod_eq [of q 1000000] by linarith
  ultimately show ?thesis by (auto simp: timeval_valid_def)
qed

lemma Timer_with_clock_type_eq:
  "sint f \<noteq> 0 \<Longrightarrow> Timer_with_clock_type setitimer os f ct now inst =
     Return (setitimer os (clock_itimer ct) \<lparr>it_interval = freq_interval f, it_value = freq_interval f\<rparr>,
       \<lparr>tm_frequency = f, tm_clock_type = ct, tm_start_time = now, tm_start_instant = inst\<rparr>)"
  by (simp add: Timer_with_clock_type_def freq_interval_def Let_def)

lemma clock_itimer_in: "clock_itimer ct \<in> {ITIMER_REAL, ITIMER_PROF}"
  by (cases ct) auto

context itimer_os
begin

lemma Timer_arms:
  assumes "0 < sint f"
  shows "\<exists>os' t. Timer_with_clock_type setitimer os f ct now inst = Return (os', t) \<and>
    period os' (clock_itimer ct) = 1000000 div sint f \<and>
    (\<forall>w. w \<noteq> clock_itimer ct \<longrightarrow> period os' w = period os w)"
  using assms freq_interval_pos [OF assms] set_valid [OF _ clock_itimer_in, of _ os ct]
  by (simp add: Timer_with_clock_type_eq set_other)

lemma Timer_drop_disarms:
  "period (Timer_drop setitimer os t) (clock_itimer (tm_clock_type t)) = 0 \<and>
   (\<forall>w. w \<noteq> clock_itimer (tm_clock_type t) \<longrightarrow> period (Timer_drop setitimer os t) w = period os w)"
proof -
  have "timeval_valid \<lparr>tv_sec = 0, tv_usec = 0\<rparr>" by (simp add: timeval_valid_def)
  from set_valid [OF this clock_itimer_in] show ?thesis
    by (simp add: Timer_drop_def timeval_micros_def set_other Let_def)
qed

end

section \<open>Properties\<close>

text \<open>Within the range of \<^verbatim>\<open>setitimer\<close>: the timer of the clock type, at the requested rate up to rounding.\<close>

lemma timer_in_range:
  assumes "itimer_os setitimer period" and "1 \<le> sint f" and "sint f \<le> 1000000"
  shows "\<exists>os' t. Timer_with_clock_type setitimer os f ct now inst = Return (os', t) \<and>
    0 < period os' (clock_itimer ct) \<and>
    period os' (clock_itimer ct) * sint f \<le> 1000000 \<and>
    1000000 < (period os' (clock_itimer ct) + 1) * sint f \<and>
    period (Timer_drop setitimer os' t) (clock_itimer ct) = 0 \<and>
    (\<forall>w. w \<noteq> clock_itimer ct \<longrightarrow> period os' w = period os w \<and>
                                   period (Timer_drop setitimer os' t) w = period os w)"
proof -
  have f: "0 < sint f" using assms(2) by simp
  obtain os' t where t: "Timer_with_clock_type setitimer os f ct now inst = Return (os', t)"
    and p: "period os' (clock_itimer ct) = 1000000 div sint f"
    and other: "\<forall>w. w \<noteq> clock_itimer ct \<longrightarrow> period os' w = period os w"
    using itimer_os.Timer_arms [OF assms(1) f] by blast
  have "tm_clock_type t = ct"
    using t f by (auto simp: Timer_with_clock_type_eq)
  with itimer_os.Timer_drop_disarms [OF assms(1), of os' t] other
  have drop: "period (Timer_drop setitimer os' t) (clock_itimer ct) = 0"
    "\<forall>w. w \<noteq> clock_itimer ct \<longrightarrow> period (Timer_drop setitimer os' t) w = period os w" by auto
  have "0 < 1000000 div sint f" using assms(2,3) by (simp add: pos_imp_zdiv_pos_iff)
  moreover have "1000000 div sint f * sint f \<le> 1000000"
    using f by (metis div_mult_mod_eq le_add_same_cancel1 pos_mod_sign)
  moreover have "1000000 < (1000000 div sint f + 1) * sint f"
    using f by (metis add.commute distrib_right div_mult_mod_eq mult_1 pos_mod_bound add_less_cancel_left)
  ultimately show ?thesis using t p other drop by (intro exI [of _ os'] exI [of _ t]) simp
qed



end
