(* ===== verification/Profiler.thy ===== *)
theory Profiler
  imports Timer "HOL-Library.Sublist"
begin

text \<open>
  The CPU profiler of \<^verbatim>\<open>src/src/profiler.rs\<close>: the global profiler behind its lock, the guard and its
  builder, and the signal handler. \<open>world\<close> is everything the module shares: the lazily created
  profiler, its lock, the counter of missed samples, the thread's \<^verbatim>\<open>errno\<close> and the kernel. The
  kernel's \<^verbatim>\<open>setitimer\<close> and \<^verbatim>\<open>sigaction\<close> are arguments; \<open>platform\<close> collects what the build fixes
  (features, the unwinder's symbol addresses, the hasher, the memory image of an entry), \<open>signal_env\<close> what
  one delivery of the signal sees. A call that panics still returns the world it leaves behind.
\<close>

section \<open>Signals\<close>

text \<open>The part of \<^verbatim>\<open>nix::sys::signal\<close> that the module uses.\<close>

datatype Signal = SIGPROF | SIGALRM

datatype handler_fn = PerfSignalHandler | OtherHandler u64

datatype SigHandler = SigDfl | SigIgn | Handler handler_fn | SigActionFn handler_fn

datatype SaFlag = SA_SIGINFO | SA_RESTART | SA_ONSTACK | SA_OTHER nat

record SigAction =
  sa_handler :: SigHandler
  sa_flags :: "SaFlag set"
  sa_mask :: "Signal set"

type_synonym 'os sigaction_fn = "'os \<Rightarrow> Signal \<Rightarrow> SigAction \<Rightarrow> 'os \<times> (int + SigAction)"

fun clock_signal :: "ClockType \<Rightarrow> Signal" where
  "clock_signal Cpu = SIGPROF"
| "clock_signal Wall = SIGALRM"

section \<open>State\<close>

record platform =
  pl_cfg :: config
  pl_symbol_address :: "Frame \<Rightarrow> usize"
  pl_hasher :: "u64 list \<Rightarrow> u64"
  pl_layout :: "UnresolvedFrames Entry mem_layout"
  pl_buffer_length :: nat

record Profiler =
  p_data :: "UnresolvedFrames Collector"
  p_sample_counter :: i32
  p_old_sigaction :: "SigAction option"
  p_running :: bool
  p_clock_type :: ClockType
  p_thread_blocklist :: "string list"
  p_on_stack :: bool
  p_blocklist_segments :: "(usize \<times> usize) list"

record ProfilerGuardBuilder =
  b_frequency :: i32
  b_clock_type :: ClockType
  b_thread_blocklist :: "string list"
  b_on_stack :: bool
  b_blocklist_segments :: "(usize \<times> usize) list"

record ProfilerGuard =
  g_timer :: "Timer option"

record 'os world =
  w_profiler :: "(Error + Profiler) option"
  w_locked :: bool
  w_missed :: u64
  w_errno :: int
  w_os :: 'os

section \<open>The builder\<close>

definition ProfilerGuardBuilder_default :: ProfilerGuardBuilder where
  "ProfilerGuardBuilder_default =
     \<lparr>b_frequency = 99, b_clock_type = Cpu, b_thread_blocklist = [], b_on_stack = False,
      b_blocklist_segments = []\<rparr>"

definition ProfilerGuardBuilder_frequency :: "i32 \<Rightarrow> ProfilerGuardBuilder \<Rightarrow> ProfilerGuardBuilder" where
  "ProfilerGuardBuilder_frequency frequency b = b\<lparr>b_frequency := frequency\<rparr>"

definition ProfilerGuardBuilder_clock_type :: "ClockType \<Rightarrow> ProfilerGuardBuilder \<Rightarrow> ProfilerGuardBuilder" where
  "ProfilerGuardBuilder_clock_type clock_type b = b\<lparr>b_clock_type := clock_type\<rparr>"

definition ProfilerGuardBuilder_thread_blocklist ::
  "string list \<Rightarrow> ProfilerGuardBuilder \<Rightarrow> ProfilerGuardBuilder" where
  "ProfilerGuardBuilder_thread_blocklist blocklist b = b\<lparr>b_thread_blocklist := blocklist\<rparr>"

definition ProfilerGuardBuilder_on_stack :: "bool \<Rightarrow> ProfilerGuardBuilder \<Rightarrow> ProfilerGuardBuilder" where
  "ProfilerGuardBuilder_on_stack on_stack b = b\<lparr>b_on_stack := on_stack\<rparr>"

text \<open>
  The loaded libraries, as \<^verbatim>\<open>findshlibs\<close> lists them: the name (\<^verbatim>\<open>None\<close> when it is not UTF-8) and each
  segment's actual address and length. \<open>contains\<close> is \<^verbatim>\<open>str::contains\<close>.
\<close>

record shared_library =
  lib_name :: "string option"
  lib_segments :: "(usize \<times> usize) list"

definition contains :: "string \<Rightarrow> string \<Rightarrow> bool" where
  "contains hay needle = list_ex (\<lambda>i. take (length needle) (drop i hay) = needle) [0..<Suc (length hay)]"

definition ProfilerGuardBuilder_blocklist ::
  "shared_library list \<Rightarrow> string list \<Rightarrow> ProfilerGuardBuilder \<Rightarrow> ProfilerGuardBuilder" where
  "ProfilerGuardBuilder_blocklist shlibs blocklist b =
     (let in_blocklist = (\<lambda>lib. case lib_name lib of
            Some name \<Rightarrow> fold (\<lambda>blocked_name r. if contains name blocked_name then True else r) blocklist False
          | None \<Rightarrow> False);
          segments = concat (map (\<lambda>lib. if in_blocklist lib
            then map (\<lambda>(start, len). (start, start + len)) (lib_segments lib) else []) shlibs)
      in b\<lparr>b_blocklist_segments := segments\<rparr>)"

section \<open>Thread names\<close>

function fallback_base :: "u64 \<Rightarrow> nat \<Rightarrow> nat \<Rightarrow> nat \<times> nat" where
  "fallback_base current_thread base len =
     (if unat current_thread > base \<and> len < MAX_THREAD_NAME
      then fallback_base current_thread (base * 10) (len + 1)
      else (base, len))"
  by pat_completeness auto
termination
  by (relation "measure (\<lambda>(t, base, len). MAX_THREAD_NAME - len)") auto

declare fallback_base.simps [simp del]

function fallback_digits :: "u64 \<Rightarrow> nat \<Rightarrow> nat \<Rightarrow> nat \<Rightarrow> string \<Rightarrow> string outcome" where
  "fallback_digits current_thread base len index name =
     (if index < len \<and> base > 1
      then let base = base div 10
           in if index < length name
              then fallback_digits current_thread base len (index + 1)
                     (name[index := char_of (48 + (unat current_thread div base) mod 10)])
              else Panic IndexOutOfBounds
      else Return name)"
  by pat_completeness auto
termination
  by (relation "measure (\<lambda>(t, base, len, index, name). len - index)") auto

declare fallback_digits.simps [simp del]

definition write_thread_name_fallback :: "u64 \<Rightarrow> string \<Rightarrow> string outcome" where
  "write_thread_name_fallback current_thread name =
     (let (base, len) = fallback_base current_thread 1 0
      in fallback_digits current_thread base len 0 name)"

text \<open>
  \<^verbatim>\<open>pthread_getname_np\<close> is given by its return value and the buffer it leaves, and is absent on the
  targets that have only the fallback.
\<close>

type_synonym getname_fn = "(u64 \<Rightarrow> string \<Rightarrow> int \<times> string) option"

definition write_thread_name :: "getname_fn \<Rightarrow> u64 \<Rightarrow> string \<Rightarrow> string outcome" where
  "write_thread_name getname current_thread name =
     (case getname of
        Some pthread_getname_np \<Rightarrow>
          (let (ret, name) = pthread_getname_np current_thread name
           in if ret \<noteq> 0 then write_thread_name_fallback current_thread name
              else if name = [] then Panic IndexOutOfBounds
              else if hd name = CHR 0x00 then write_thread_name_fallback current_thread name
              else Return name)
      | None \<Rightarrow> write_thread_name_fallback current_thread name)"

text \<open>\<^verbatim>\<open>CStr::from_ptr(name).to_bytes()\<close>: up to the first NUL, which has to be inside the buffer.\<close>

definition cstr_to_bytes :: "string \<Rightarrow> string outcome" where
  "cstr_to_bytes name =
     (if CHR 0x00 \<in> set name then Return (takeWhile (\<lambda>c. c \<noteq> CHR 0x00) name) else Panic OutOfBoundsRead)"

section \<open>Profiler operations\<close>

definition Profiler_new :: "platform \<Rightarrow> io_error option \<Rightarrow> SystemTime \<Rightarrow> Profiler Result" where
  "Profiler_new pl create_err now =
     (case Collector_new (pl_buffer_length pl) (UnresolvedFrames_default now) create_err of
        Inl e \<Rightarrow> Inl (IoError e)
      | Inr data \<Rightarrow> Inr \<lparr>p_data = data, p_sample_counter = 0, p_old_sigaction = None, p_running = False,
                        p_clock_type = Cpu, p_thread_blocklist = [], p_on_stack = False,
                        p_blocklist_segments = []\<rparr>)"

definition windows :: "nat \<Rightarrow> 'a list \<Rightarrow> 'a list list" where
  "windows n xs = map (\<lambda>i. take n (drop i xs)) [0..<Suc (length xs) - n]"

definition is_thread_blocklisted :: "Profiler \<Rightarrow> string \<Rightarrow> bool" where
  "is_thread_blocklisted p thread_name =
     list_ex (\<lambda>blocked. blocked \<noteq> [] \<and>
       list_ex (\<lambda>window. window = blocked) (windows (length blocked) thread_name)) (p_thread_blocklist p)"

definition is_blocklisted :: "Profiler \<Rightarrow> usize \<Rightarrow> bool" where
  "is_blocklisted p addr = list_ex (\<lambda>libs. fst libs < addr \<and> addr < snd libs) (p_blocklist_segments p)"

definition perf_sigaction :: "config \<Rightarrow> bool \<Rightarrow> SigAction" where
  "perf_sigaction cfg on_stack =
     \<lparr>sa_handler = SigActionFn PerfSignalHandler,
      sa_flags = (if frame_pointer_feature cfg \<and> on_stack
                  then {SA_SIGINFO, SA_RESTART} \<union> {SA_ONSTACK} else {SA_SIGINFO, SA_RESTART}),
      sa_mask = {}\<rparr>"

definition ignore_sigaction :: SigAction where
  "ignore_sigaction = \<lparr>sa_handler = SigIgn, sa_flags = {}, sa_mask = {}\<rparr>"

definition register_signal_handler ::
  "'os sigaction_fn \<Rightarrow> platform \<Rightarrow> 'os \<Rightarrow> Profiler \<Rightarrow> 'os \<times> Profiler \<times> unit Result" where
  "register_signal_handler sigaction pl os p =
     (case sigaction os (clock_signal (p_clock_type p)) (perf_sigaction (pl_cfg pl) (p_on_stack p)) of
        (os', Inl e) \<Rightarrow> (os', p, Inl (NixError e))
      | (os', Inr old_action) \<Rightarrow> (os', p\<lparr>p_old_sigaction := Some old_action\<rparr>, Inr ()))"

definition unregister_signal_handler ::
  "'os sigaction_fn \<Rightarrow> 'os \<Rightarrow> Profiler \<Rightarrow> 'os \<times> Profiler \<times> unit Result" where
  "unregister_signal_handler sigaction os p =
     (let sig = clock_signal (p_clock_type p); p' = p\<lparr>p_old_sigaction := None\<rparr>
      in case p_old_sigaction p of
           Some old_action \<Rightarrow>
             (case sigaction os sig (if sa_handler old_action = SigDfl then ignore_sigaction else old_action) of
                (os', Inl e) \<Rightarrow> (os', p', Inl (NixError e))
              | (os', Inr _) \<Rightarrow> (os', p', Inr ()))
         | None \<Rightarrow> (os, p', Inr ()))"

text \<open>\<^verbatim>\<open>start\<close> resets the global counter of missed samples, so it takes and returns it.\<close>

definition Profiler_start ::
  "'os sigaction_fn \<Rightarrow> platform \<Rightarrow> ClockType \<Rightarrow> string list \<Rightarrow> 'os \<Rightarrow> u64 \<Rightarrow> Profiler
     \<Rightarrow> 'os \<times> u64 \<times> Profiler \<times> unit Result" where
  "Profiler_start sigaction pl clock_type thread_blocklist os missed p =
     (if p_running p then (os, missed, p, Inl Running)
      else let p = p\<lparr>p_clock_type := clock_type, p_thread_blocklist := thread_blocklist\<rparr>
           in case register_signal_handler sigaction pl os p of
                (os', p', Inl e) \<Rightarrow> (os', missed, p', Inl e)
              | (os', p', Inr _) \<Rightarrow> (os', 0, p'\<lparr>p_running := True\<rparr>, Inr ()))"

definition Profiler_init :: "platform \<Rightarrow> io_error option \<Rightarrow> SystemTime \<Rightarrow> Profiler \<Rightarrow> Profiler \<times> unit Result" where
  "Profiler_init pl create_err now p =
     (let p = p\<lparr>p_sample_counter := 0\<rparr>
      in case Collector_new (pl_buffer_length pl) (UnresolvedFrames_default now) create_err of
           Inl e \<Rightarrow> (p, Inl (IoError e))
         | Inr data \<Rightarrow> (p\<lparr>p_data := data, p_running := False\<rparr>, Inr ()))"

definition Profiler_stop ::
  "'os sigaction_fn \<Rightarrow> platform \<Rightarrow> io_error option \<Rightarrow> SystemTime \<Rightarrow> 'os \<Rightarrow> Profiler
     \<Rightarrow> 'os \<times> Profiler \<times> unit Result" where
  "Profiler_stop sigaction pl create_err now os p =
     (if p_running p
      then (case unregister_signal_handler sigaction os p of
              (os', p', Inl e) \<Rightarrow> (os', p', Inl e)
            | (os', p', Inr _) \<Rightarrow>
                (case Profiler_init pl create_err now p' of
                   (p'', Inl e) \<Rightarrow> (os', p'', Inl e)
                 | (p'', Inr _) \<Rightarrow> (os', p'', Inr ())))
      else (os, p, Inl NotRunning))"

definition uf_collector_add ::
  "platform \<Rightarrow> write_res \<Rightarrow> UnresolvedFrames Collector \<Rightarrow> UnresolvedFrames \<Rightarrow> isize
     \<Rightarrow> (UnresolvedFrames Collector \<times> (io_error + unit)) outcome" where
  "uf_collector_add pl =
     Collector_add (UnresolvedFrames_eq (pl_symbol_address pl))
       (UnresolvedFrames_hash (pl_symbol_address pl) (pl_hasher pl)) (pl_layout pl)"

definition Profiler_sample ::
  "platform \<Rightarrow> write_res \<Rightarrow> Profiler \<Rightarrow> Frame list \<Rightarrow> string \<Rightarrow> u64 \<Rightarrow> SystemTime \<Rightarrow> Profiler outcome" where
  "Profiler_sample pl w p backtrace thread_name thread_id sample_timestamp =
     obind (UnresolvedFrames_new backtrace thread_name thread_id sample_timestamp) (\<lambda>frames.
       let p = p\<lparr>p_sample_counter := p_sample_counter p + 1\<rparr>
       in obind (uf_collector_add pl w (p_data p) frames 1) (\<lambda>(data, _). Return (p\<lparr>p_data := data\<rparr>)))"

section \<open>The signal handler\<close>

text \<open>
  One delivery of the signal: the program counter of the context (\<^verbatim>\<open>None\<close> for a null context), the
  frames the unwinder offers in order, the time, the thread and its name, what \<^verbatim>\<open>errno\<close> the calls leave,
  and what the file system does should it be needed.
\<close>

record signal_env =
  se_pc :: "usize option"
  se_frames :: "Frame list"
  se_now :: SystemTime
  se_thread :: u64
  se_getname :: getname_fn
  se_errno :: int
  se_create :: "io_error option"
  se_write :: write_res

fun trace_loop :: "config \<Rightarrow> (usize \<Rightarrow> bool) \<Rightarrow> Frame list \<Rightarrow> Frame list \<Rightarrow> nat \<Rightarrow> Frame list" where
  "trace_loop cfg blocked [] bt index = bt"
| "trace_loop cfg blocked (frame # rest) bt index =
     (if frame_pointer_feature cfg \<and> blocked (ip frame) then bt
      else if index < MAX_DEPTH cfg then trace_loop cfg blocked rest (bt @ [frame]) (index + 1)
      else bt)"

definition handle_signal :: "platform \<Rightarrow> signal_env \<Rightarrow> Profiler \<Rightarrow> Profiler outcome" where
  "handle_signal pl env p =
     (if (case se_pc env of Some addr \<Rightarrow> is_blocklisted p addr | None \<Rightarrow> False) then Return p
      else let bt = trace_loop (pl_cfg pl) (is_blocklisted p) (se_frames env) [] 0
           in obind (write_thread_name (se_getname env) (se_thread env)
                       (replicate MAX_THREAD_NAME (CHR 0x00))) (\<lambda>name.
              obind (cstr_to_bytes name) (\<lambda>name_bytes.
                if is_thread_blocklisted p name_bytes then Return p
                else Profiler_sample pl (se_write env) p bt name_bytes (se_thread env) (se_now env))))"

definition force_profiler :: "platform \<Rightarrow> io_error option \<Rightarrow> SystemTime \<Rightarrow> 'os world \<Rightarrow> 'os world" where
  "force_profiler pl create_err now w =
     (case w_profiler w of
        None \<Rightarrow> w\<lparr>w_profiler := Some (Profiler_new pl create_err now)\<rparr>
      | Some _ \<Rightarrow> w)"

definition ErrnoProtector_new :: "'os world \<Rightarrow> int" where
  "ErrnoProtector_new w = w_errno w"

definition ErrnoProtector_drop :: "int \<Rightarrow> 'os world \<Rightarrow> 'os world" where
  "ErrnoProtector_drop saved w = w\<lparr>w_errno := saved\<rparr>"

definition perf_signal_handler :: "platform \<Rightarrow> signal_env \<Rightarrow> 'os world \<Rightarrow> 'os world outcome" where
  "perf_signal_handler pl env w =
     (let errno = ErrnoProtector_new w;
          w = (force_profiler pl (se_create env) (se_now env) w)\<lparr>w_errno := se_errno env\<rparr>
      in if \<not> w_locked w
         then (case w_profiler w of
                 Some (Inr p) \<Rightarrow> obind (handle_signal pl env p) (\<lambda>p'.
                   Return (ErrnoProtector_drop errno (w\<lparr>w_profiler := Some (Inr p')\<rparr>)))
               | _ \<Rightarrow> Return (ErrnoProtector_drop errno w))
         else Return (ErrnoProtector_drop errno (w\<lparr>w_missed := w_missed w + 1\<rparr>)))"

section \<open>Guards\<close>

text \<open>
  What one call of the API sees: whether a temporary file can be created, the time and the monotonic
  clock.
\<close>

record call_env =
  ce_create :: "io_error option"
  ce_now :: SystemTime
  ce_instant :: nat

definition trigger_lazy :: "platform \<Rightarrow> call_env \<Rightarrow> 'os world \<Rightarrow> 'os world" where
  "trigger_lazy pl ce w = force_profiler pl (ce_create ce) (ce_now ce) w"

definition ProfilerGuardBuilder_build ::
  "'os setitimer_fn \<Rightarrow> 'os sigaction_fn \<Rightarrow> platform \<Rightarrow> call_env \<Rightarrow> ProfilerGuardBuilder \<Rightarrow> 'os world
     \<Rightarrow> 'os world \<times> ProfilerGuard Result outcome" where
  "ProfilerGuardBuilder_build setitimer sigaction pl ce b w =
     (let w = trigger_lazy pl ce w
      in case w_profiler w of
           Some (Inr p) \<Rightarrow>
             (let p = p\<lparr>p_on_stack := if frame_pointer_feature (pl_cfg pl) then b_on_stack b else p_on_stack p,
                        p_blocklist_segments := b_blocklist_segments b\<rparr>
              in case Profiler_start sigaction pl (b_clock_type b) (b_thread_blocklist b)
                        (w_os w) (w_missed w) p of
                   (os, missed, p, Inl err) \<Rightarrow>
                     (w\<lparr>w_profiler := Some (Inr p), w_missed := missed, w_os := os\<rparr>, Return (Inl err))
                 | (os, missed, p, Inr _) \<Rightarrow>
                     (let w = w\<lparr>w_profiler := Some (Inr p), w_missed := missed, w_os := os\<rparr>
                      in case Timer_with_clock_type setitimer os (b_frequency b) (b_clock_type b)
                                (ce_now ce) (ce_instant ce) of
                           Panic e \<Rightarrow> (w, Panic e)
                         | Return (os, timer) \<Rightarrow>
                             (w\<lparr>w_os := os\<rparr>, Return (Inr \<lparr>g_timer = Some timer\<rparr>))))
         | _ \<Rightarrow> (w, Return (Inl CreatingError)))"

definition ProfilerGuard_new ::
  "'os setitimer_fn \<Rightarrow> 'os sigaction_fn \<Rightarrow> platform \<Rightarrow> call_env \<Rightarrow> i32 \<Rightarrow> 'os world
     \<Rightarrow> 'os world \<times> ProfilerGuard Result outcome" where
  "ProfilerGuard_new setitimer sigaction pl ce frequency =
     ProfilerGuardBuilder_build setitimer sigaction pl ce
       (ProfilerGuardBuilder_frequency frequency ProfilerGuardBuilder_default)"

definition ProfilerGuard_with_clock_type ::
  "'os setitimer_fn \<Rightarrow> 'os sigaction_fn \<Rightarrow> platform \<Rightarrow> call_env \<Rightarrow> i32 \<Rightarrow> ClockType \<Rightarrow> 'os world
     \<Rightarrow> 'os world \<times> ProfilerGuard Result outcome" where
  "ProfilerGuard_with_clock_type setitimer sigaction pl ce frequency clock_type =
     ProfilerGuardBuilder_build setitimer sigaction pl ce
       (ProfilerGuardBuilder_clock_type clock_type
         (ProfilerGuardBuilder_frequency frequency ProfilerGuardBuilder_default))"

definition ProfilerGuard_missed_samples :: "'os world \<Rightarrow> u64" where
  "ProfilerGuard_missed_samples w = w_missed w"

text \<open>Dropping a guard: the result is what \<^verbatim>\<open>stop\<close> returned, which the code only logs.\<close>

definition ProfilerGuard_drop ::
  "'os setitimer_fn \<Rightarrow> 'os sigaction_fn \<Rightarrow> platform \<Rightarrow> call_env \<Rightarrow> ProfilerGuard \<Rightarrow> 'os world
     \<Rightarrow> 'os world \<times> unit Result" where
  "ProfilerGuard_drop setitimer sigaction pl ce g w =
     (let w = (case g_timer g of Some t \<Rightarrow> w\<lparr>w_os := Timer_drop setitimer (w_os w) t\<rparr> | None \<Rightarrow> w);
          w = force_profiler pl (ce_create ce) (ce_now ce) w
      in case w_profiler w of
           Some (Inr p) \<Rightarrow>
             (case Profiler_stop sigaction pl (ce_create ce) (ce_now ce) (w_os w) p of
                (os, p, r) \<Rightarrow> (w\<lparr>w_profiler := Some (Inr p), w_os := os\<rparr>, r))
         | _ \<Rightarrow> (w, Inr ()))"

section \<open>Thread names\<close>

primrec pad_digits :: "nat \<Rightarrow> nat \<Rightarrow> string" where
  "pad_digits 0 t = []"
| "pad_digits (Suc w) t = char_of (48 + t div 10 ^ w mod 10) # pad_digits w t"

lemma length_pad_digits [simp]: "length (pad_digits w t) = w"
  by (induction w) auto

lemma pad_digits_snoc: "pad_digits (Suc w) t = pad_digits w (t div 10) @ [char_of (48 + t mod 10)]"
  by (induction w) (simp_all add: div_mult2_eq [symmetric] ac_simps)

lemma pad_digits_no_NUL: "CHR 0x00 \<notin> set (pad_digits w t)"
proof -
  have "char_of (48 + d mod 10) \<noteq> CHR 0x00" for d :: nat
  proof
    assume "char_of (48 + d mod 10) = CHR 0x00"
    then have "(of_char (char_of (48 + d mod 10)) :: nat) = 0" by simp
    moreover have "48 + d mod 10 < 256" using mod_less_divisor [of 10 d] by linarith
    ultimately show False by simp
  qed
  then show ?thesis by (induction w) (simp, metis insert_iff list.simps(15) pad_digits.simps(2))
qed

lemma pad_digits_show: "10 ^ w \<le> t \<Longrightarrow> t < 10 ^ Suc w \<Longrightarrow> pad_digits (Suc w) t = show_nat t"
proof (induction w arbitrary: t)
  case 0
  then show ?case by (subst show_nat.simps) (simp add: digit_char_def)
next
  case (Suc w)
  have "10 \<le> t" using Suc.prems(1) by (simp add: le_trans [OF _ Suc.prems(1)])
  moreover have "10 ^ w \<le> t div 10" "t div 10 < 10 ^ Suc w"
    using Suc.prems by (simp_all add: less_eq_div_iff_mult_less_eq less_mult_imp_div_less mult.commute)
  ultimately show ?case
    using Suc.IH [of "t div 10"]
    by (simp only: pad_digits_snoc [of "Suc w"]) (subst (2) show_nat.simps, simp add: digit_char_def)
qed

lemma pad_digits_power: "pad_digits w (10 ^ w) = replicate w (CHR 0x30)"
proof -
  have "pad_digits w (10 ^ (w + j)) = replicate w (CHR 0x30)" for j
  proof (induction w arbitrary: j)
    case (Suc w)
    have "(10 :: nat) ^ (Suc w + j) div 10 ^ w mod 10 = 0"
      by (simp add: power_add)
    moreover have "(10 :: nat) ^ (Suc w + j) = 10 ^ (w + Suc j)" by simp
    moreover have "char_of (48 :: nat) = CHR 0x30" by code_simp
    ultimately show ?case using Suc [of "Suc j"] by simp
  qed simp
  from this [of 0] show ?thesis by simp
qed

lemma fallback_base_spec:
  assumes "len \<le> MAX_THREAD_NAME"
  shows "\<exists>k. fallback_base t (10 ^ len) len = (10 ^ k, k) \<and> len \<le> k \<and> k \<le> MAX_THREAD_NAME \<and>
    (k = MAX_THREAD_NAME \<or> unat t \<le> 10 ^ k) \<and> (len < k \<longrightarrow> 10 ^ (k - 1) < unat t)"
  using assms
proof (induction "MAX_THREAD_NAME - len" arbitrary: len)
  case 0
  then show ?case by (subst fallback_base.simps) auto
next
  case (Suc n)
  show ?case
  proof (cases "10 ^ len < unat t")
    case True
    have room: "len < MAX_THREAD_NAME" using Suc.hyps(2) by simp
    from Suc obtain k where k: "fallback_base t (10 ^ Suc len) (Suc len) = (10 ^ k, k)" "Suc len \<le> k"
      "k \<le> MAX_THREAD_NAME" "k = MAX_THREAD_NAME \<or> unat t \<le> 10 ^ k"
      "Suc len < k \<longrightarrow> 10 ^ (k - 1) < unat t"
      by (metis Suc_diff_Suc Suc_leI diff_Suc_1 zero_less_Suc zero_less_diff)
    have "10 ^ (k - 1) < unat t"
      using k(2,5) True by (cases "k = Suc len") auto
    moreover have "fallback_base t (10 ^ len) len = (10 ^ k, k)"
      using True k(1) room by (subst fallback_base.simps) (simp add: mult.commute)
    ultimately show ?thesis using k by (intro exI [of _ k]) simp
  next
    case False
    then show ?thesis using Suc.prems by (subst fallback_base.simps) auto
  qed
qed

lemma fallback_digits_spec:
  assumes "index \<le> len" and "len \<le> length name"
  shows "fallback_digits t (10 ^ (len - index)) len index name =
    Return (take index name @ pad_digits (len - index) (unat t) @ drop len name)"
  using assms
proof (induction "len - index" arbitrary: index name)
  case 0
  then show ?case by (subst fallback_digits.simps) simp
next
  case (Suc n)
  have lt: "index < len" "index < length name" and n: "n = len - Suc index" using Suc by auto
  have pow: "(10 :: nat) ^ (len - index) = 10 * 10 ^ (len - Suc index)" "1 < (10 :: nat) * 10 ^ (len - Suc index)"
    using lt one_le_power [of "10 :: nat" "len - Suc index"]
    by (simp flip: power_Suc add: Suc_diff_Suc, linarith)
  let ?c = "char_of (48 + unat t div 10 ^ n mod 10)"
  have "fallback_digits t (10 ^ (len - index)) len index name =
      fallback_digits t (10 ^ (len - Suc index)) len (Suc index) (name[index := ?c])"
    using lt pow by (subst fallback_digits.simps) (simp add: Let_def n)
  also have "\<dots> = Return (take (Suc index) (name[index := ?c]) @ pad_digits (len - Suc index) (unat t)
      @ drop len (name[index := ?c]))"
    using Suc.hyps(1) [OF n, of "name[index := ?c]"] lt Suc.prems by simp
  also have "take (Suc index) (name[index := ?c]) = take index name @ [?c]"
    using lt by (simp add: take_Suc_conv_app_nth)
  finally show ?case using lt by (simp flip: Suc.hyps(2) n)
qed

lemma fallback_bytes:
  obtains k where "k \<le> MAX_THREAD_NAME"
    and "k = MAX_THREAD_NAME \<or> unat t \<le> 10 ^ k" and "0 < k \<longrightarrow> 10 ^ (k - 1) < unat t"
    and "write_thread_name_fallback t (replicate MAX_THREAD_NAME (CHR 0x00)) =
      Return (pad_digits k (unat t) @ replicate (MAX_THREAD_NAME - k) (CHR 0x00))"
proof -
  obtain k where spec: "fallback_base t (10 ^ 0) 0 = (10 ^ k, k) \<and> 0 \<le> k \<and> k \<le> MAX_THREAD_NAME \<and>
      (k = MAX_THREAD_NAME \<or> unat t \<le> 10 ^ k) \<and> (0 < k \<longrightarrow> 10 ^ (k - 1) < unat t)"
    using fallback_base_spec [OF le0, of t] by (rule exE)
  have k: "fallback_base t 1 0 = (10 ^ k, k)" "k \<le> MAX_THREAD_NAME"
    "k = MAX_THREAD_NAME \<or> unat t \<le> 10 ^ k" "0 < k \<longrightarrow> 10 ^ (k - 1) < unat t"
    using spec unfolding power_0 by blast+
  have "write_thread_name_fallback t (replicate MAX_THREAD_NAME (CHR 0x00)) =
      Return (pad_digits k (unat t) @ replicate (MAX_THREAD_NAME - k) (CHR 0x00))"
    using fallback_digits_spec [of 0 k "replicate MAX_THREAD_NAME (CHR 0x00)" t] k(1,2)
    unfolding write_thread_name_fallback_def by (simp only: Let_def prod.case) simp
  then show ?thesis by (rule that [OF k(2-4)])
qed

lemma cstr_pad_digits:
  "cstr_to_bytes (pad_digits k t @ replicate n (CHR 0x00)) =
     (if n = 0 then Panic OutOfBoundsRead else Return (pad_digits k t))"
proof -
  have "\<forall>c \<in> set (pad_digits k t). c \<noteq> CHR 0x00" using pad_digits_no_NUL [of k t] by auto
  moreover have "takeWhile (\<lambda>c. c \<noteq> CHR 0x00) (replicate n (CHR 0x00)) = []" by (cases n) simp_all
  ultimately show ?thesis by (auto simp: cstr_to_bytes_def)
qed

text \<open>
  C36. The name made up for a nameless thread. A thread id between 2 and \<open>10 ^ 15\<close> that is not a power of
  ten is named by its decimal digits; a power of ten up to \<open>10 ^ 15\<close> loses its leading 1 (1000 becomes
  \<^verbatim>\<open>000\<close>, 1 the empty name); and an id above \<open>10 ^ 15\<close> fills the whole buffer, so that the C string read from
  it has no end inside the buffer.
\<close>

theorem thread_name_fallback:
  "(1 < unat t \<and> unat t < 10 ^ 15 \<and> (\<forall>k. unat t \<noteq> 10 ^ k) \<longrightarrow>
      obind (write_thread_name_fallback t (replicate MAX_THREAD_NAME (CHR 0x00))) cstr_to_bytes
        = Return (show_nat (unat t))) \<and>
   (\<forall>k. k \<le> 15 \<and> unat t = 10 ^ k \<longrightarrow>
      obind (write_thread_name_fallback t (replicate MAX_THREAD_NAME (CHR 0x00))) cstr_to_bytes
        = Return (replicate k (CHR 0x30))) \<and>
   (10 ^ 15 < unat t \<longrightarrow>
      obind (write_thread_name_fallback t (replicate MAX_THREAD_NAME (CHR 0x00))) cstr_to_bytes
        = Panic OutOfBoundsRead)"
proof -
  obtain k where k: "k \<le> 16" "k = 16 \<or> unat t \<le> 10 ^ k" "0 < k \<longrightarrow> 10 ^ (k - 1) < unat t"
    and res: "obind (write_thread_name_fallback t (replicate MAX_THREAD_NAME (CHR 0x00))) cstr_to_bytes =
      (if k = 16 then Panic OutOfBoundsRead else Return (pad_digits k (unat t)))"
    by (rule fallback_bytes [of t]) (auto simp: MAX_THREAD_NAME_def cstr_pad_digits)
  have small: "k \<le> j" if "unat t \<le> 10 ^ j" for j
  proof (rule ccontr)
    assume "\<not> k \<le> j"
    then have "(10 :: nat) ^ j \<le> 10 ^ (k - 1)" and "0 < k" by (auto intro: power_increasing)
    with k(3) that show False by linarith
  qed
  show ?thesis
  proof (intro conjI impI allI)
    assume t: "1 < unat t \<and> unat t < 10 ^ 15 \<and> (\<forall>k. unat t \<noteq> 10 ^ k)"
    then have "k \<noteq> 16" using small [of 15] by simp
    moreover have "0 < k" using t k(2) \<open>k \<noteq> 16\<close> by (cases k) auto
    then obtain j where "k = Suc j" by (cases k) auto
    ultimately show "obind (write_thread_name_fallback t (replicate MAX_THREAD_NAME (CHR 0x00))) cstr_to_bytes
        = Return (show_nat (unat t))"
      using res k(2,3) t pad_digits_show [of j "unat t"] by (metis diff_Suc_1 le_neq_implies_less less_imp_le zero_less_Suc)
  next
    fix j
    assume j: "j \<le> 15 \<and> unat t = 10 ^ j"
    then have "k \<le> j" using small by simp
    moreover have "k \<noteq> 16" using \<open>k \<le> j\<close> j by linarith
    then have "(10 :: nat) ^ j \<le> 10 ^ k" using k(2) j by metis
    then have "j \<le> k" by (simp add: power_increasing_iff)
    ultimately show "obind (write_thread_name_fallback t (replicate MAX_THREAD_NAME (CHR 0x00))) cstr_to_bytes
        = Return (replicate j (CHR 0x30))"
      using res j pad_digits_power [of j] by simp
  next
    assume big: "10 ^ 15 < unat t"
    have "k = 16"
    proof (rule ccontr)
      assume "k \<noteq> 16"
      then have "k \<le> 15" and "unat t \<le> 10 ^ k" using k(1,2) by linarith+
      moreover have "(10 :: nat) ^ k \<le> 10 ^ 15" using \<open>k \<le> 15\<close> by (intro power_increasing) auto
      ultimately show False using big by linarith
    qed
    with res show "obind (write_thread_name_fallback t (replicate MAX_THREAD_NAME (CHR 0x00))) cstr_to_bytes
        = Panic OutOfBoundsRead" by simp
  qed
qed

theorem thread_name_fallback_witness:
  "obind (write_thread_name_fallback 1234 (replicate MAX_THREAD_NAME (CHR 0x00))) cstr_to_bytes
     = Return (show_nat 1234) \<and>
   obind (write_thread_name_fallback 1000 (replicate MAX_THREAD_NAME (CHR 0x00))) cstr_to_bytes = Return ''000''"
proof -
  have not_power: "(1234 :: nat) \<noteq> 10 ^ k" for k
  proof
    assume "(1234 :: nat) = 10 ^ k"
    moreover have "k \<noteq> 0" using calculation by (cases k) simp_all
    then have "10 dvd (10 :: nat) ^ k" by (simp add: dvd_power)
    ultimately have "10 dvd (1234 :: nat)" by metis
    then show False by simp
  qed
  show ?thesis
    using thread_name_fallback [of 1234] thread_name_fallback [of 1000] not_power
      spec [OF conjunct1 [OF conjunct2 [OF thread_name_fallback [of 1000]]], of 3]
    by (simp add: numeral_3_eq_3)
qed

section \<open>Blocklists\<close>

lemma list_ex_windows: "list_ex (\<lambda>w. w = b) (windows (length b) xs) \<longleftrightarrow> sublist b xs"
proof
  assume "list_ex (\<lambda>w. w = b) (windows (length b) xs)"
  then have "b \<in> set (windows (length b) xs)" by (simp add: list_ex_iff)
  then obtain i where "take (length b) (drop i xs) = b" by (metis (no_types, lifting) windows_def imageE list.set_map)
  then have "xs = take i xs @ b @ drop (length b) (drop i xs)"
    by (metis append_take_drop_id)
  then show "sublist b xs" by (metis sublist_appendI)
next
  assume "sublist b xs"
  then obtain ps ss where xs: "xs = ps @ b @ ss" by (auto simp: sublist_def)
  then have "take (length b) (drop (length ps) xs) = b" "length ps < Suc (length xs) - length b" by auto
  then show "list_ex (\<lambda>w. w = b) (windows (length b) xs)"
    by (force simp: windows_def list_ex_iff)
qed

lemma contains_iff: "contains hay needle \<longleftrightarrow> sublist needle hay"
proof
  assume "contains hay needle"
  then obtain i where "take (length needle) (drop i hay) = needle" by (auto simp: contains_def list_ex_iff)
  then have "hay = take i hay @ needle @ drop (length needle) (drop i hay)"
    by (metis append_take_drop_id)
  then show "sublist needle hay" by (metis sublist_appendI)
next
  assume "sublist needle hay"
  then obtain ps ss where "hay = ps @ needle @ ss" by (auto simp: sublist_def)
  then have "take (length needle) (drop (length ps) hay) = needle" "length ps < Suc (length hay)" by auto
  then show "contains hay needle" unfolding contains_def list_ex_iff by (metis atLeast_upt lessThan_iff)
qed

lemma fold_any: "fold (\<lambda>x r. if P x then True else r) xs r \<longleftrightarrow> r \<or> (\<exists>x \<in> set xs. P x)"
  by (induction xs arbitrary: r) auto

lemma blocklist_segments:
  "set (b_blocklist_segments (ProfilerGuardBuilder_blocklist shlibs blocked b)) =
     {(start, start + len) | start len lib name. lib \<in> set shlibs \<and> lib_name lib = Some name \<and>
        (\<exists>n \<in> set blocked. sublist n name) \<and> (start, len) \<in> set (lib_segments lib)}"
  (is "?L = ?R")
proof
  show "?L \<subseteq> ?R"
    by (auto simp: ProfilerGuardBuilder_blocklist_def Let_def fold_any contains_iff split: option.splits if_splits)
       blast
  show "?R \<subseteq> ?L"
  proof
    fix x
    assume "x \<in> ?R"
    then obtain start len lib name where "x = (start, start + len)" "lib \<in> set shlibs"
      "lib_name lib = Some name" "\<exists>n \<in> set blocked. sublist n name" "(start, len) \<in> set (lib_segments lib)"
      by blast
    then show "x \<in> ?L"
      by (auto simp: ProfilerGuardBuilder_blocklist_def Let_def fold_any contains_iff intro!: bexI [of _ lib] rev_image_eqI)
  qed
qed

text \<open>
  C35. What the two blocklists exclude. A thread is excluded exactly when its name contains one of the
  non-empty substrings given to \<^verbatim>\<open>thread_blocklist\<close>; an address is excluded exactly when it lies strictly
  inside a segment of a loaded library whose name contains one of the strings given to \<^verbatim>\<open>blocklist\<close>.
  So the first address of a blocked segment is not excluded.
\<close>

theorem blocklists_exclude:
  "(is_thread_blocklisted (p\<lparr>p_thread_blocklist := b_thread_blocklist
        (ProfilerGuardBuilder_thread_blocklist names b)\<rparr>) thread_name \<longleftrightarrow>
      (\<exists>n \<in> set names. n \<noteq> [] \<and> sublist n thread_name)) \<and>
   (is_blocklisted (p\<lparr>p_blocklist_segments := b_blocklist_segments
        (ProfilerGuardBuilder_blocklist shlibs blocked b)\<rparr>) addr \<longleftrightarrow>
      (\<exists>lib \<in> set shlibs. \<exists>name. lib_name lib = Some name \<and> (\<exists>n \<in> set blocked. sublist n name) \<and>
         (\<exists>(start, len) \<in> set (lib_segments lib). start < addr \<and> addr < start + len)))"
proof (rule conjI)
  show "is_thread_blocklisted (p\<lparr>p_thread_blocklist := b_thread_blocklist
        (ProfilerGuardBuilder_thread_blocklist names b)\<rparr>) thread_name \<longleftrightarrow>
      (\<exists>n \<in> set names. n \<noteq> [] \<and> sublist n thread_name)"
    by (simp add: is_thread_blocklisted_def ProfilerGuardBuilder_thread_blocklist_def list_ex_windows)
       (auto simp: list_ex_iff)
  show "is_blocklisted (p\<lparr>p_blocklist_segments := b_blocklist_segments
        (ProfilerGuardBuilder_blocklist shlibs blocked b)\<rparr>) addr \<longleftrightarrow>
      (\<exists>lib \<in> set shlibs. \<exists>name. lib_name lib = Some name \<and> (\<exists>n \<in> set blocked. sublist n name) \<and>
         (\<exists>(start, len) \<in> set (lib_segments lib). start < addr \<and> addr < start + len))"
    by (simp add: is_blocklisted_def list_ex_iff blocklist_segments) blast
qed

section \<open>One delivery of the signal\<close>

text \<open>
  What the module relies on of the platform: a memory image of the entries, and a spill buffer that is
  not empty. In the handler: the name found for the thread, and the sample that follows from it.
\<close>

definition platform_ok :: "platform \<Rightarrow> bool" where
  "platform_ok pl \<longleftrightarrow>
     is_layout (pl_layout pl) (\<lambda>e. uf_ok (MAX_DEPTH (pl_cfg pl)) (e_item e)) \<and> 0 < pl_buffer_length pl"

abbreviation pl_eq :: "platform \<Rightarrow> UnresolvedFrames \<Rightarrow> UnresolvedFrames \<Rightarrow> bool" where
  "pl_eq pl \<equiv> UnresolvedFrames_eq (pl_symbol_address pl)"

abbreviation pl_hash :: "platform \<Rightarrow> UnresolvedFrames \<Rightarrow> u64" where
  "pl_hash pl \<equiv> UnresolvedFrames_hash (pl_symbol_address pl) (pl_hasher pl)"

abbreviation pl_ok :: "platform \<Rightarrow> UnresolvedFrames \<Rightarrow> bool" where
  "pl_ok pl \<equiv> uf_ok (MAX_DEPTH (pl_cfg pl))"

definition data_wf :: "platform \<Rightarrow> UnresolvedFrames Collector \<Rightarrow> bool" where
  "data_wf pl = Collector_wf (pl_eq pl) (pl_hash pl) (pl_layout pl) (pl_ok pl)"

definition env_name :: "signal_env \<Rightarrow> string outcome" where
  "env_name env =
     obind (write_thread_name (se_getname env) (se_thread env) (replicate MAX_THREAD_NAME (CHR 0x00))) cstr_to_bytes"

definition env_frames :: "platform \<Rightarrow> Profiler \<Rightarrow> signal_env \<Rightarrow> Frame list" where
  "env_frames pl p env = take (MAX_DEPTH (pl_cfg pl))
     (if frame_pointer_feature (pl_cfg pl)
      then takeWhile (\<lambda>f. \<not> is_blocklisted p (ip f)) (se_frames env) else se_frames env)"

definition env_sample :: "platform \<Rightarrow> Profiler \<Rightarrow> signal_env \<Rightarrow> string \<Rightarrow> UnresolvedFrames" where
  "env_sample pl p env name =
     \<lparr>uf_frames = env_frames pl p env,
      uf_thread_name = name @ replicate (MAX_THREAD_NAME - length name) (CHR 0x00),
      uf_thread_name_length = length name, uf_thread_id = se_thread env, uf_sample_timestamp = se_now env\<rparr>"

definition env_blocked :: "Profiler \<Rightarrow> signal_env \<Rightarrow> string \<Rightarrow> bool" where
  "env_blocked p env name \<longleftrightarrow>
     (\<exists>addr. se_pc env = Some addr \<and> is_blocklisted p addr) \<or> is_thread_blocklisted p name"

text \<open>An ordinary delivery: the thread has a name that fits, the clock is in range and writes succeed.\<close>

definition env_ok :: "signal_env \<Rightarrow> string \<Rightarrow> bool" where
  "env_ok env name \<longleftrightarrow>
     env_name env = Return name \<and> length name \<le> MAX_THREAD_NAME \<and> se_write env = Written \<and>
     - (2 ^ 63) \<le> se_now env \<and> se_now env < 2 ^ 63"

lemma platform_collector: "platform_ok pl \<Longrightarrow>
    collector_laws (pl_eq pl) (pl_hash pl) (pl_layout pl) (pl_ok pl)"
  by (rule collector_lawsI)
     (auto simp: platform_ok_def UnresolvedFrames_eq_iff UnresolvedFrames_hash_def
       intro!: equivpI reflpI sympI transpI)

lemma trace_loop_eq:
  "index \<le> MAX_DEPTH cfg \<Longrightarrow> trace_loop cfg blocked frames bt index = bt @ take (MAX_DEPTH cfg - index)
     (if frame_pointer_feature cfg then takeWhile (\<lambda>f. \<not> blocked (ip f)) frames else frames)"
proof (induction cfg blocked frames bt index rule: trace_loop.induct)
  case (2 cfg blocked frame rest bt index)
  show ?case
  proof (cases "index < MAX_DEPTH cfg")
    case True
    then have "MAX_DEPTH cfg - index = Suc (MAX_DEPTH cfg - Suc index)" by simp
    with 2 True show ?thesis by auto
  qed (use 2 in simp)
qed simp

lemma env_sample_ok: "env_ok env name \<Longrightarrow> pl_ok pl (env_sample pl p env name)"
  by (simp add: env_ok_def env_sample_def uf_ok_def env_frames_def MAX_THREAD_NAME_def)

lemma handle_signal_eq:
  assumes "env_ok env name"
  shows "handle_signal pl env p =
    (if env_blocked p env name then Return p
     else obind (uf_collector_add pl Written (p_data p) (env_sample pl p env name) 1) (\<lambda>(data, _).
       Return (p\<lparr>p_sample_counter := p_sample_counter p + 1, p_data := data\<rparr>)))"
proof -
  have name: "env_name env = Return name" "length name \<le> MAX_THREAD_NAME" "se_write env = Written"
    using assms by (simp_all add: env_ok_def)
  then obtain buf where "write_thread_name (se_getname env) (se_thread env)
      (replicate MAX_THREAD_NAME (CHR 0x00)) = Return buf" "cstr_to_bytes buf = Return name"
    by (auto simp: env_name_def obind_Return_iff)
  then show ?thesis
    using name trace_loop_eq [of 0 "pl_cfg pl" "is_blocklisted p" "se_frames env" "[]"]
    by (simp add: handle_signal_def env_blocked_def Profiler_sample_def UnresolvedFrames_new_def
        env_sample_def env_frames_def Let_def split: option.splits)
qed

lemma handle_signal_spec:
  assumes "platform_ok pl" and "data_wf pl (p_data p)" and "env_ok env name" and "\<not> env_blocked p env name"
  obtains data where "handle_signal pl env p =
      Return (p\<lparr>p_sample_counter := p_sample_counter p + 1, p_data := data\<rparr>)"
    and "uf_collector_add pl Written (p_data p) (env_sample pl p env name) 1 = Return (data, Inr ())"
    and "data_wf pl data"
proof -
  note wf = assms(2) [unfolded data_wf_def]
  obtain data where "uf_collector_add pl Written (p_data p) (env_sample pl p env name) 1
      = Return (data, Inr ())" "data_wf pl data"
    using collector_laws.Collector_add_Written
      [OF platform_collector [OF assms(1)] wf env_sample_ok [OF assms(3)], where count = 1]
    unfolding uf_collector_add_def data_wf_def by metis
  with that [of data] show ?thesis using assms(3,4) by (simp add: handle_signal_eq)
qed

section \<open>Runs of the handler\<close>

text \<open>
  A run is a list of deliveries, each with whether the lock is held by another thread (or by the
  interrupted one) when it arrives. \<open>recorded\<close> are the samples it should leave behind.
\<close>

primrec signals_run :: "platform \<Rightarrow> 'os world \<Rightarrow> (signal_env \<times> bool) list \<Rightarrow> 'os world outcome" where
  "signals_run pl w [] = Return w"
| "signals_run pl w (d # ds) =
     obind (perf_signal_handler pl (fst d) (w\<lparr>w_locked := snd d\<rparr>)) (\<lambda>w'. signals_run pl w' ds)"

definition the_name :: "signal_env \<Rightarrow> string" where
  "the_name env = (case env_name env of Return name \<Rightarrow> name | Panic _ \<Rightarrow> [])"

definition recorded :: "platform \<Rightarrow> Profiler \<Rightarrow> (signal_env \<times> bool) list \<Rightarrow> UnresolvedFrames list" where
  "recorded pl p ds = map (\<lambda>(env, locked). env_sample pl p env (the_name env))
     (filter (\<lambda>(env, locked). \<not> locked \<and> \<not> env_blocked p env (the_name env)) ds)"

lemma recorded_Cons:
  "recorded pl p (d # ds) =
     (if snd d \<or> env_blocked p (fst d) (the_name (fst d)) then []
      else [env_sample pl p (fst d) (the_name (fst d))]) @ recorded pl p ds"
  by (cases d) (auto simp: recorded_def)

lemma env_ok_the_name: "env_ok env name \<Longrightarrow> the_name env = name"
  by (simp add: env_ok_def the_name_def)

lemma same_filters [simp]:
  "is_blocklisted (p\<lparr>p_sample_counter := n, p_data := d\<rparr>) = is_blocklisted p"
  "is_thread_blocklisted (p\<lparr>p_sample_counter := n, p_data := d\<rparr>) = is_thread_blocklisted p"
  by (simp_all add: is_blocklisted_def is_thread_blocklisted_def fun_eq_iff)

lemma env_sample_update [simp]:
  "env_sample pl (p\<lparr>p_sample_counter := n, p_data := d\<rparr>) = env_sample pl p"
  "env_blocked (p\<lparr>p_sample_counter := n, p_data := d\<rparr>) = env_blocked p"
  "recorded pl (p\<lparr>p_sample_counter := n, p_data := d\<rparr>) = recorded pl p"
  by (simp_all add: env_sample_def env_blocked_def env_frames_def recorded_def fun_eq_iff)

lemma perf_signal_handler_locked:
  "w_locked w \<Longrightarrow> w_profiler w = Some r \<Longrightarrow>
     perf_signal_handler pl env w = Return (w\<lparr>w_missed := w_missed w + 1\<rparr>)"
  by (simp add: perf_signal_handler_def force_profiler_def ErrnoProtector_new_def ErrnoProtector_drop_def)

lemma perf_signal_handler_free:
  "\<not> w_locked w \<Longrightarrow> w_profiler w = Some (Inr p) \<Longrightarrow> handle_signal pl env p = Return p' \<Longrightarrow>
     perf_signal_handler pl env w = Return (w\<lparr>w_profiler := Some (Inr p')\<rparr>)"
  by (simp add: perf_signal_handler_def force_profiler_def ErrnoProtector_new_def ErrnoProtector_drop_def)

text \<open>
  A run adds its samples to the collector, one at a time and in order, and changes nothing else but the counters and the lock.
\<close>

definition sample_op :: "UnresolvedFrames \<Rightarrow> UnresolvedFrames \<times> isize \<times> write_res" where
  "sample_op s = (s, 1, Written)"

lemma signals_run_collector:
  assumes "platform_ok pl" and "w_profiler w = Some (Inr p)" and "data_wf pl (p_data p)"
    and "\<forall>d \<in> set ds. \<exists>name. env_ok (fst d) name"
  shows "\<exists>w' data. signals_run pl w ds = Return w' \<and>
    w_profiler w' = Some (Inr (p\<lparr>p_sample_counter := p_sample_counter p + of_nat (length (recorded pl p ds)), p_data := data\<rparr>)) \<and>
    Collector_run (pl_eq pl) (pl_hash pl) (pl_layout pl) (p_data p) (map sample_op (recorded pl p ds)) = Return data \<and>
    w_missed w' = w_missed w + of_nat (length (filter snd ds)) \<and> w_errno w' = w_errno w \<and> w_os w' = w_os w"
  using assms(2-4)
proof (induction ds arbitrary: w p)
  case Nil
  then show ?case by (intro exI [of _ w] exI [of _ "p_data p"]) (simp add: recorded_def)
next
  case (Cons d ds)
  obtain env locked where d: "d = (env, locked)" by (cases d)
  obtain name where ok: "env_ok env name" using Cons.prems(3) d by auto
  have name: "the_name env = name" using ok by (rule env_ok_the_name)
  have rest: "\<forall>d \<in> set ds. \<exists>name. env_ok (fst d) name" using Cons.prems(3) by simp
  consider (missed) "locked" | (blocked) "\<not> locked" "env_blocked p env name"
    | (sampled) "\<not> locked" "\<not> env_blocked p env name" by blast
  then show ?case
  proof cases
    case missed
    then have "perf_signal_handler pl env (w\<lparr>w_locked := locked\<rparr>) =
        Return (w\<lparr>w_locked := locked, w_missed := w_missed w + 1\<rparr>)"
      using Cons.prems(1) by (simp add: perf_signal_handler_locked)
    with missed Cons.IH [of "w\<lparr>w_locked := locked, w_missed := w_missed w + 1\<rparr>" p] Cons.prems rest
    show ?thesis by (simp add: d recorded_Cons add.assoc)
  next
    case blocked
    then have "handle_signal pl env p = Return p" using ok by (simp add: handle_signal_eq)
    then have "perf_signal_handler pl env (w\<lparr>w_locked := locked\<rparr>) = Return (w\<lparr>w_locked := locked\<rparr>)"
      using blocked Cons.prems(1) perf_signal_handler_free [of "w\<lparr>w_locked := locked\<rparr>" p pl env p]
      by (cases w) simp
    with blocked Cons.IH [of "w\<lparr>w_locked := locked\<rparr>" p] Cons.prems rest name show ?thesis
      by (simp add: d recorded_Cons)
  next
    case sampled
    obtain data where h: "handle_signal pl env p =
        Return (p\<lparr>p_sample_counter := p_sample_counter p + 1, p_data := data\<rparr>)"
      and add: "uf_collector_add pl Written (p_data p) (env_sample pl p env name) 1 = Return (data, Inr ())"
      and wf: "data_wf pl data"
      by (rule handle_signal_spec [OF assms(1) Cons.prems(2) ok sampled(2)])
    let ?p = "p\<lparr>p_sample_counter := p_sample_counter p + 1, p_data := data\<rparr>"
    let ?w = "w\<lparr>w_locked := locked, w_profiler := Some (Inr ?p)\<rparr>"
    have "perf_signal_handler pl env (w\<lparr>w_locked := locked\<rparr>) = Return ?w"
      using sampled(1) Cons.prems(1) h perf_signal_handler_free [of "w\<lparr>w_locked := locked\<rparr>" p pl env ?p] by simp
    with sampled name add Cons.IH [of ?w ?p] wf rest show ?thesis
      by (simp add: d recorded_Cons sample_op_def uf_collector_add_def add.assoc)
  qed
qed

definition items_weight :: "platform \<Rightarrow> (UnresolvedFrames \<Rightarrow> bool) \<Rightarrow> Profiler \<Rightarrow> nat" where
  "items_weight pl P p = weight unat P (Collector_items (pl_layout pl) (p_data p))"

lemma added_samples: "added unat P (map sample_op ss) = length (filter P ss)"
  by (induction ss) (simp_all add: sample_op_def)

lemma recorded_ok: "\<forall>d \<in> set ds. \<exists>name. env_ok (fst d) name \<Longrightarrow> s \<in> set (recorded pl p ds) \<Longrightarrow> pl_ok pl s"
  unfolding recorded_def using env_ok_the_name env_sample_ok by fastforce

lemma signals_run_spec:
  assumes "platform_ok pl" and "w_profiler w = Some (Inr p)" and "data_wf pl (p_data p)"
    and "\<forall>d \<in> set ds. \<exists>name. env_ok (fst d) name"
    and "items_weight pl (\<lambda>_. True) p + length ds < 2 ^ 64"
  shows "\<exists>w' n data. signals_run pl w ds = Return w' \<and>
    w_profiler w' = Some (Inr (p\<lparr>p_sample_counter := n, p_data := data\<rparr>)) \<and> data_wf pl data \<and>
    w_missed w' = w_missed w + of_nat (length (filter snd ds)) \<and> w_errno w' = w_errno w \<and> w_os w' = w_os w \<and>
    n = p_sample_counter p + of_nat (length (recorded pl p ds)) \<and>
    (\<forall>P. (\<forall>x y. pl_eq pl x y \<longrightarrow> P x = P y) \<longrightarrow>
       items_weight pl P (p\<lparr>p_sample_counter := n, p_data := data\<rparr>) =
       items_weight pl P p + length (filter P (recorded pl p ds))) \<and>
    e_item ` set (Collector_items (pl_layout pl) data) \<subseteq>
      e_item ` set (Collector_items (pl_layout pl) (p_data p)) \<union> set (recorded pl p ds)"
proof -
  let ?ops = "map sample_op (recorded pl p ds)"
  have ok: "\<forall>(key, count, wr) \<in> set ?ops. pl_ok pl key \<and> wr = Written"
    using recorded_ok [OF assms(4)] by (auto simp: sample_op_def)
  have "length (recorded pl p ds) \<le> length ds" by (simp add: recorded_def)
  then have "weight unat (\<lambda>_. True) (Collector_items (pl_layout pl) (p_data p)) + added unat (\<lambda>_. True) ?ops < 2 ^ 64"
    using assms(5) by (simp add: added_samples items_weight_def)
  from collector_laws.Collector_run_counts [OF platform_collector [OF assms(1)] assms(3) [unfolded data_wf_def] ok this]
    signals_run_collector [OF assms(1-4)]
  obtain w' data where w': "signals_run pl w ds = Return w'"
    "w_profiler w' = Some (Inr (p\<lparr>p_sample_counter := p_sample_counter p + of_nat (length (recorded pl p ds)), p_data := data\<rparr>))"
    "w_missed w' = w_missed w + of_nat (length (filter snd ds))" "w_errno w' = w_errno w" "w_os w' = w_os w"
    and data: "data_wf pl data" "\<forall>P. (\<forall>x y. pl_eq pl x y \<longrightarrow> P x = P y) \<longrightarrow>
       weight unat P (Collector_items (pl_layout pl) data) =
       weight unat P (Collector_items (pl_layout pl) (p_data p)) + added unat P ?ops"
    "e_item ` set (Collector_items (pl_layout pl) data) \<subseteq>
       e_item ` set (Collector_items (pl_layout pl) (p_data p)) \<union> fst ` set ?ops"
    unfolding data_wf_def by auto
  have "fst ` set ?ops = set (recorded pl p ds)" by (force simp: sample_op_def)
  with w' data show ?thesis
    by (intro exI [of _ w'] exI [of _ "p_sample_counter p + of_nat (length (recorded pl p ds))"] exI [of _ data])
      (simp add: items_weight_def added_samples)
qed

section \<open>Properties\<close>

text \<open>An instance of the platform, and a delivery of the signal to a thread called \<^verbatim>\<open>main\<close>.\<close>

definition sim_platform :: "config \<Rightarrow> platform" where
  "sim_platform cfg =
     \<lparr>pl_cfg = cfg, pl_symbol_address = ip, pl_hasher = sum_list,
      pl_layout = uf_entry_layout (MAX_DEPTH cfg), pl_buffer_length = 2\<rparr>"

lemma sim_platform_ok: "platform_ok (sim_platform cfg)"
  using is_layout_uf_entry [of "MAX_DEPTH cfg"] by (simp add: platform_ok_def sim_platform_def MAX_DEPTH_def)

definition demo_env :: "Frame list \<Rightarrow> signal_env" where
  "demo_env fs =
     \<lparr>se_pc = None, se_frames = fs, se_now = 5, se_thread = 7,
      se_getname = Some (\<lambda>_ _. (0, ''main'' @ replicate 12 (CHR 0x00))), se_errno = 11, se_create = None,
      se_write = Written\<rparr>"

lemma demo_env_ok: "env_ok (demo_env fs) ''main''"
  by (simp add: env_ok_def demo_env_def env_name_def write_thread_name_def cstr_to_bytes_def
      MAX_THREAD_NAME_def numeral_eq_Suc)

lemma Profiler_new_ok:
  assumes "platform_ok pl" and "- (2 ^ 63) \<le> now" and "now < 2 ^ 63"
  obtains p where "Profiler_new pl None now = Inr p" and "data_wf pl (p_data p)"
    and "Collector_items (pl_layout pl) (p_data p) = []"
    and "p = \<lparr>p_data = p_data p, p_sample_counter = 0, p_old_sigaction = None, p_running = False,
      p_clock_type = Cpu, p_thread_blocklist = [], p_on_stack = False, p_blocklist_segments = []\<rparr>"
proof -
  have "pl_ok pl (UnresolvedFrames_default now)"
    using assms by (simp add: uf_ok_def UnresolvedFrames_default_def)
  then obtain c where "Collector_new (pl_buffer_length pl) (UnresolvedFrames_default now) None = Inr c"
    "data_wf pl c" "Collector_items (pl_layout pl) c = []"
    using collector_laws.Collector_new_wf [OF platform_collector [OF assms(1)],
        of "pl_buffer_length pl" "UnresolvedFrames_default now"] assms(1)
    unfolding platform_ok_def data_wf_def by metis
  then show ?thesis
    by (intro that [of "\<lparr>p_data = c, p_sample_counter = 0, p_old_sigaction = None, p_running = False,
          p_clock_type = Cpu, p_thread_blocklist = [], p_on_stack = False, p_blocklist_segments = []\<rparr>"])
       (simp_all add: Profiler_new_def)
qed

text \<open>
  C5. Every delivery of the signal is accounted for. Given a memory image of the entries, a profiler whose
  collector is well formed, a thread name that ends inside its buffer and working file writes,
  \<^verbatim>\<open>perf_signal_handler\<close> returns and changes exactly one thing: with the lock taken, the counter of missed
  samples goes up by one; otherwise, for a blocked address or thread nothing changes, and else the
  count of the sample's stack goes up by one, of all other stacks by none. The sample has at
  most \<^verbatim>\<open>MAX_DEPTH\<close> frames, the collector stays well formed, and \<^verbatim>\<open>errno\<close> and the kernel are as before.
\<close>

theorem signal_handler_accounts:
  assumes "platform_ok pl" and "w_profiler w = Some (Inr p)" and "data_wf pl (p_data p)"
    and "env_ok env name"
  shows "\<exists>p'. perf_signal_handler pl env w =
      Return (if w_locked w then w\<lparr>w_missed := w_missed w + 1\<rparr> else w\<lparr>w_profiler := Some (Inr p')\<rparr>) \<and>
    data_wf pl (p_data p') \<and>
    p' = p\<lparr>p_sample_counter := p_sample_counter p', p_data := p_data p'\<rparr> \<and>
    (if env_blocked p env name then p' = p
     else p_sample_counter p' = p_sample_counter p + 1 \<and>
       (\<forall>k. key_count (pl_eq pl) k (Collector_items (pl_layout pl) (p_data p')) =
            key_count (pl_eq pl) k (Collector_items (pl_layout pl) (p_data p)) +
              (if pl_eq pl (env_sample pl p env name) k then 1 else 0))) \<and>
    length (uf_frames (env_sample pl p env name)) \<le> MAX_DEPTH (pl_cfg pl)"
proof (cases "env_blocked p env name")
  case True
  then have "handle_signal pl env p = Return p" using assms(4) by (simp add: handle_signal_eq)
  with True assms show ?thesis
    by (intro exI [of _ p])
       (simp add: perf_signal_handler_locked perf_signal_handler_free env_sample_def env_frames_def)
next
  case False
  obtain data where h: "handle_signal pl env p =
      Return (p\<lparr>p_sample_counter := p_sample_counter p + 1, p_data := data\<rparr>)"
    and add: "uf_collector_add pl Written (p_data p) (env_sample pl p env name) 1 = Return (data, Inr ())"
    and wf: "data_wf pl data"
    by (rule handle_signal_spec [OF assms(1,3,4) False])
  have "key_count (pl_eq pl) k (Collector_items (pl_layout pl) data) =
      key_count (pl_eq pl) k (Collector_items (pl_layout pl) (p_data p)) +
        (if pl_eq pl (env_sample pl p env name) k then 1 else 0)" for k
    unfolding key_count_def
    by (rule collector_laws.Collector_add_weight [OF platform_collector [OF assms(1)]
          assms(3) [unfolded data_wf_def] env_sample_ok [OF assms(4)] add [unfolded uf_collector_add_def]])
       (auto simp: UnresolvedFrames_eq_iff)
  with False h wf assms show ?thesis
    by (intro exI [of _ "p\<lparr>p_sample_counter := p_sample_counter p + 1, p_data := data\<rparr>"])
       (simp add: perf_signal_handler_locked perf_signal_handler_free env_sample_def env_frames_def)
qed

theorem signal_handler_accounts_witness:
  "\<exists>p p'. Profiler_new (sim_platform default_config) None 0 = Inr p \<and>
     perf_signal_handler (sim_platform default_config) (demo_env [\<lparr>ip = 3\<rparr>, \<lparr>ip = 4\<rparr>])
       \<lparr>w_profiler = Some (Inr p), w_locked = False, w_missed = 0, w_errno = 2, w_os = ()\<rparr> =
     Return \<lparr>w_profiler = Some (Inr p'), w_locked = False, w_missed = 0, w_errno = 2, w_os = ()\<rparr> \<and>
     p_sample_counter p' = 1"
proof -
  let ?pl = "sim_platform default_config" and ?env = "demo_env [\<lparr>ip = 3\<rparr>, \<lparr>ip = 4\<rparr>]"
  obtain p where p: "Profiler_new ?pl None 0 = Inr p" "data_wf ?pl (p_data p)" and
    p0: "p = \<lparr>p_data = p_data p, p_sample_counter = 0, p_old_sigaction = None, p_running = False,
      p_clock_type = Cpu, p_thread_blocklist = [], p_on_stack = False, p_blocklist_segments = []\<rparr>"
    using Profiler_new_ok [OF sim_platform_ok, of 0 default_config] by auto
  have "p_sample_counter p = 0" by (subst p0) simp
  moreover have "\<not> env_blocked p ?env ''main''"
    by (subst p0) (simp add: env_blocked_def demo_env_def is_thread_blocklisted_def)
  ultimately show ?thesis
    using p(1) signal_handler_accounts [OF sim_platform_ok _ p(2) demo_env_ok,
        of "\<lparr>w_profiler = Some (Inr p), w_locked = False, w_missed = 0, w_errno = 2, w_os = ()\<rparr>" "[\<lparr>ip = 3\<rparr>, \<lparr>ip = 4\<rparr>]"]
    by auto
qed

end
