(* ===== verification/Report.thy ===== *)
theory Report
  imports Profiler
begin

text \<open>
  Reports, from \<^verbatim>\<open>src/src/report.rs\<close>: \<^verbatim>\<open>ReportBuilder\<close>, the resolved and the unresolved report, and the text
  formats (folded stacks, Speedscope JSON, the debug format, the lines given to \<^verbatim>\<open>inferno\<close>). What a report
  takes from other crates is \<open>symbolizer\<close>. A \<^verbatim>\<open>Write\<close> is the string it has received; the first write error
  is returned unchanged and leaves a prefix of that string, so the formats are total functions.
  The pprof format is in theory \<open>Pprof\<close>; \<^verbatim>\<open>samples_per_second\<close> is floating point and left out.
\<close>

section \<open>Reports\<close>

record Report =
  r_data :: "(Frames, isize) hashmap"
  r_timing :: ReportTiming
  r_missed_samples :: u64

record UnresolvedReport =
  ur_data :: "(UnresolvedFrames, isize) hashmap"
  ur_timing :: ReportTiming
  ur_missed_samples :: u64

record symbolizer =
  sy_perfmap :: "usize \<Rightarrow> Symbol option"
  sy_resolve :: "usize \<Rightarrow> BtSymbol list"
  sy_demangle :: "string \<Rightarrow> string"

record ReportBuilder =
  rb_post :: "(Frames \<Rightarrow> Frames) option"
  rb_timing :: ReportTiming

definition ReportBuilder_new :: "ReportTiming \<Rightarrow> ReportBuilder" where
  "ReportBuilder_new timing = \<lparr>rb_post = None, rb_timing = timing\<rparr>"

definition ReportBuilder_frames_post_processor :: "(Frames \<Rightarrow> Frames) \<Rightarrow> ReportBuilder \<Rightarrow> ReportBuilder" where
  "ReportBuilder_frames_post_processor f rb = rb\<lparr>rb_post := Some f\<rparr>"

definition ProfilerGuard_report :: "ProfilerGuard \<Rightarrow> nat \<Rightarrow> ReportBuilder" where
  "ProfilerGuard_report g instant =
     ReportBuilder_new (case g_timer g of Some t \<Rightarrow> Timer_timing t instant | None \<Rightarrow> ReportTiming_default)"

definition accumulate ::
  "('k \<Rightarrow> 'k \<Rightarrow> bool) \<Rightarrow> 'k \<Rightarrow> isize \<Rightarrow> ('k, isize) hashmap \<Rightarrow> ('k, isize) hashmap" where
  "accumulate eq key count m =
     (case hm_get eq m key of
        Some v \<Rightarrow> hm_insert eq m key (v + count)
      | None \<Rightarrow> hm_insert eq m key count)"

text \<open>
  The profiler is the one a guard refers to, so it has been created; \<open>io\<close> is what seeking and reading the
  spill file do.
\<close>

definition build_unresolved ::
  "platform \<Rightarrow> read_res \<Rightarrow> 'os world \<Rightarrow> ReportBuilder \<Rightarrow> UnresolvedReport Result" where
  "build_unresolved pl io w rb =
     (case w_profiler w of
        Some (Inr profiler) \<Rightarrow>
          (case Collector_try_iter (pl_layout pl) io (p_data profiler) of
             Inl e \<Rightarrow> Inl (IoError e)
           | Inr entries \<Rightarrow> Inr
               \<lparr>ur_data = fold (\<lambda>entry m.
                    if 0 < sint (e_count entry)
                    then accumulate (UnresolvedFrames_eq (pl_symbol_address pl)) (e_item entry) (e_count entry) m
                    else m) entries [],
                ur_timing = rb_timing rb, ur_missed_samples = w_missed w\<rparr>)
      | _ \<Rightarrow> Inl CreatingError)"

definition post_process :: "symbolizer \<Rightarrow> ReportBuilder \<Rightarrow> UnresolvedFrames \<Rightarrow> Frames" where
  "post_process sy rb uf =
     (let key = Frames_from (sy_perfmap sy) (sy_resolve sy) (sy_demangle sy) uf
      in case rb_post rb of Some processor \<Rightarrow> processor key | None \<Rightarrow> key)"

definition build_report ::
  "platform \<Rightarrow> symbolizer \<Rightarrow> read_res \<Rightarrow> 'os world \<Rightarrow> ReportBuilder \<Rightarrow> Report Result" where
  "build_report pl sy io w rb =
     (case w_profiler w of
        Some (Inr profiler) \<Rightarrow>
          (case Collector_try_iter (pl_layout pl) io (p_data profiler) of
             Inl e \<Rightarrow> Inl (IoError e)
           | Inr entries \<Rightarrow> Inr
               \<lparr>r_data = fold (\<lambda>entry m.
                    if 0 < sint (e_count entry)
                    then accumulate Frames_eq (post_process sy rb (e_item entry)) (e_count entry) m
                    else m) entries [],
                r_timing = rb_timing rb, r_missed_samples = w_missed w\<rparr>)
      | _ \<Rightarrow> Inl CreatingError)"

definition values_total :: "('k, isize) hashmap \<Rightarrow> usize" where
  "values_total m = (\<Sum>(key, v)\<leftarrow>m. word_max0 v)"

definition Report_total_samples :: "Report \<Rightarrow> usize" where
  "Report_total_samples r = values_total (r_data r)"

definition Report_unique_stacks :: "Report \<Rightarrow> nat" where
  "Report_unique_stacks r = length (r_data r)"

definition Report_duration :: "Report \<Rightarrow> nat" where
  "Report_duration r = rt_duration (r_timing r)"

definition Report_clock_type :: "Report \<Rightarrow> ClockType" where
  "Report_clock_type r = rt_clock_type (r_timing r)"

definition UnresolvedReport_total_samples :: "UnresolvedReport \<Rightarrow> usize" where
  "UnresolvedReport_total_samples r = values_total (ur_data r)"

definition UnresolvedReport_unique_stacks :: "UnresolvedReport \<Rightarrow> nat" where
  "UnresolvedReport_unique_stacks r = length (ur_data r)"

definition UnresolvedReport_duration :: "UnresolvedReport \<Rightarrow> nat" where
  "UnresolvedReport_duration r = rt_duration (ur_timing r)"

definition UnresolvedReport_clock_type :: "UnresolvedReport \<Rightarrow> ClockType" where
  "UnresolvedReport_clock_type r = rt_clock_type (ur_timing r)"

section \<open>Counting with a hash map\<close>

definition counted :: "('k \<Rightarrow> 'k \<Rightarrow> bool) \<Rightarrow> ('k, isize) hashmap \<Rightarrow> 'k \<Rightarrow> isize" where
  "counted eq m k = (case hm_get eq m k of Some v \<Rightarrow> v | None \<Rightarrow> 0)"

text \<open>The map holds the true total of each class of keys, all of it below \<open>2 ^ 63\<close>.\<close>

definition values_sum :: "('k, isize) hashmap \<Rightarrow> nat" where
  "values_sum m = (\<Sum>(key, v)\<leftarrow>m. unat v)"

definition accumulate_all ::
  "('k \<Rightarrow> 'k \<Rightarrow> bool) \<Rightarrow> ('a \<Rightarrow> 'k) \<Rightarrow> 'a Entry list \<Rightarrow> ('k, isize) hashmap \<Rightarrow> ('k, isize) hashmap" where
  "accumulate_all eq g entries m = fold (\<lambda>entry m.
     if 0 < sint (e_count entry) then accumulate eq (g (e_item entry)) (e_count entry) m else m) entries m"

lemma unat_less_sint: "unat (c :: isize) < 2 ^ 63 \<Longrightarrow> sint c = int (unat c)"
  using sint_of_nat_small [of "unat c"] by simp

lemma sint_pos_small: "unat (c :: isize) < 2 ^ 63 \<Longrightarrow> 0 < sint c \<longleftrightarrow> c \<noteq> 0"
  by (metis of_nat_0_less_iff unat_gt_0 unat_less_sint)

lemma values_sum_insert_new:
  "hm_get eq m k = None \<Longrightarrow> values_sum (hm_insert eq m k v) = values_sum m + unat v"
  by (simp add: hm_insert_new values_sum_def)

lemma values_sum_insert_old:
  "hm_get eq m k = Some u \<Longrightarrow> values_sum (hm_insert eq m k v) + unat u = values_sum m + unat v"
  by (induction m) (auto simp: values_sum_def split: if_splits)

lemma values_sum_get: "hm_get eq m k = Some u \<Longrightarrow> unat u \<le> values_sum m"
  by (induction m) (auto simp: values_sum_def split: if_splits)

lemma values_sum_member: "(k, u) \<in> set m \<Longrightarrow> unat u \<le> values_sum m"
  by (induction m) (auto simp: values_sum_def)

lemma unat_add_small: "unat (a :: u64) + unat b < 2 ^ 64 \<Longrightarrow> unat (a + b) = unat a + unat b"
  by (simp add: unat_word_ariths)

lemma values_sum_accumulate:
  assumes "values_sum m + unat c < 2 ^ 63"
  shows "values_sum (accumulate eq k c m) = values_sum m + unat c"
proof (cases "hm_get eq m k")
  case None
  then show ?thesis by (simp add: accumulate_def values_sum_insert_new)
next
  case (Some u)
  have "unat u + unat c < 2 ^ 64" using values_sum_get [OF Some] assms by simp
  then have "unat (u + c) = unat u + unat c" by (rule unat_add_small)
  with values_sum_insert_old [OF Some, of "u + c"] Some show ?thesis by (simp add: accumulate_def)
qed

context key_eq
begin

lemma counted_accumulate:
  "counted eq (accumulate eq key c m) k = counted eq m k + (if eq key k then c else 0)"
proof (cases "eq key k")
  case True
  then have "hm_get eq m key = hm_get eq m k" by (rule get_cong)
  with True show ?thesis by (cases "hm_get eq m k") (simp_all add: accumulate_def counted_def get_insert)
next
  case False
  then show ?thesis by (simp add: accumulate_def counted_def get_insert split: option.split)
qed

lemma distinct_accumulate [wf_intros]: "hm_distinct eq m \<Longrightarrow> hm_distinct eq (accumulate eq key c m)"
  by (auto simp: accumulate_def intro: distinct_insert split: option.split)

lemma nonzero_accumulate:
  assumes "values_sum m + unat c < 2 ^ 63" and "c \<noteq> 0" and "\<forall>p \<in> set m. snd p \<noteq> 0"
  shows "\<forall>p \<in> set (accumulate eq key c m). snd p \<noteq> 0"
proof -
  have ins: "\<forall>p \<in> set (hm_insert eq m key v). snd p \<noteq> 0" if "v \<noteq> 0" for v
    using assms(3) that by (induction m) auto
  have "u + c \<noteq> 0" if "hm_get eq m key = Some u" for u
  proof -
    have "unat (u + c) = unat u + unat c"
      using values_sum_get [OF that] assms(1) by (intro unat_add_small) simp
    with assms(2) show ?thesis by (metis add_is_0 unat_0 unat_eq_zero)
  qed
  with ins assms(2) show ?thesis by (auto simp: accumulate_def split: option.split)
qed

lemma accumulate_all_spec:
  assumes "values_sum m + weight unat (\<lambda>_. True) es < 2 ^ 63" and "hm_distinct eq m"
    and "\<forall>p \<in> set m. snd p \<noteq> 0"
  shows "values_sum (accumulate_all eq g es m) = values_sum m + weight unat (\<lambda>_. True) es \<and>
    hm_distinct eq (accumulate_all eq g es m) \<and> (\<forall>p \<in> set (accumulate_all eq g es m). snd p \<noteq> 0) \<and>
    (\<forall>k. unat (counted eq (accumulate_all eq g es m) k) =
         unat (counted eq m k) + weight unat (\<lambda>x. eq (g x) k) es)"
  using assms
proof (induction es arbitrary: m)
  case Nil
  then show ?case by (simp add: accumulate_all_def)
next
  case (Cons e es)
  show ?case
  proof (cases "e_count e = 0")
    case True
    with Cons show ?thesis by (simp add: accumulate_all_def)
  next
    case False
    let ?m = "accumulate eq (g (e_item e)) (e_count e) m"
    have bound: "values_sum m + unat (e_count e) < 2 ^ 63" using Cons.prems(1) by simp
    have pos: "0 < sint (e_count e)" using bound False by (simp add: sint_pos_small)
    have sum: "values_sum ?m = values_sum m + unat (e_count e)"
      by (rule values_sum_accumulate [OF bound])
    have unat: "unat (counted eq ?m k) =
        unat (counted eq m k) + (if eq (g (e_item e)) k then unat (e_count e) else 0)" for k
    proof -
      have "unat (counted eq m k) \<le> values_sum m"
        by (auto simp: counted_def values_sum_get split: option.split)
      then show ?thesis
        using bound unat_add_small [of "counted eq m k" "e_count e"] by (simp add: counted_accumulate)
    qed
    have "values_sum ?m + weight unat (\<lambda>_. True) es < 2 ^ 63" using Cons.prems(1) by (simp add: sum)
    from Cons.IH [OF this distinct_accumulate [OF Cons.prems(2)] nonzero_accumulate [OF bound False Cons.prems(3)]]
    show ?thesis using pos by (simp add: accumulate_all_def sum unat)
  qed
qed

end

lemma values_total_sum: "values_sum m < 2 ^ 63 \<Longrightarrow> unat (values_total m) = values_sum m"
proof (induction m)
  case (Cons p m)
  have small: "values_sum m < 2 ^ 63" "unat (snd p) < 2 ^ 63" "unat (snd p) + values_sum m < 2 ^ 64"
    using Cons.prems by (auto simp: values_sum_def split_beta)
  then have "word_max0 (snd p) = snd p" by (simp add: word_max0_def unat_less_sint)
  moreover have "unat (snd p + values_total m) = unat (snd p) + values_sum m"
    using small Cons.IH by (simp add: unat_add_small)
  ultimately show ?case by (simp add: values_total_def values_sum_def split_beta)
qed (simp add: values_total_def values_sum_def)

section \<open>From signals to reports\<close>

text \<open>A profiler that has just been started: what its collector holds is nothing.\<close>

definition fresh :: "platform \<Rightarrow> Profiler \<Rightarrow> bool" where
  "fresh pl p \<longleftrightarrow> data_wf pl (p_data p) \<and> Collector_items (pl_layout pl) (p_data p) = []"

definition deliveries_ok :: "(signal_env \<times> bool) list \<Rightarrow> bool" where
  "deliveries_ok ds \<longleftrightarrow> (\<forall>d \<in> set ds. \<exists>name. env_ok (fst d) name) \<and> length ds < 2 ^ 63"

lemma length_recorded: "length (recorded pl p ds) \<le> length ds"
  by (simp add: recorded_def)

lemma fresh_run:
  assumes "platform_ok pl" and "w_profiler w = Some (Inr p)" and "fresh pl p" and "deliveries_ok ds"
  obtains w' p' es where "signals_run pl w ds = Return w'" and "w_profiler w' = Some (Inr p')"
    and "w_missed w' = w_missed w + of_nat (length (filter snd ds))"
    and "Collector_try_iter (pl_layout pl) read_ok (p_data p') = Inr es"
    and "\<And>P. (\<And>x y. pl_eq pl x y \<Longrightarrow> P x = P y) \<Longrightarrow> weight unat P es = length (filter P (recorded pl p ds))"
    and "e_item ` set es \<subseteq> set (recorded pl p ds)"
proof -
  have zero: "items_weight pl P p = 0" for P using assms(3) by (simp add: items_weight_def fresh_def)
  obtain w' n data where w': "signals_run pl w ds = Return w'"
    "w_profiler w' = Some (Inr (p\<lparr>p_sample_counter := n, p_data := data\<rparr>))"
    "w_missed w' = w_missed w + of_nat (length (filter snd ds))"
    and wf: "data_wf pl data"
    and sum: "\<forall>P. (\<forall>x y. pl_eq pl x y \<longrightarrow> P x = P y) \<longrightarrow>
       items_weight pl P (p\<lparr>p_sample_counter := n, p_data := data\<rparr>) = length (filter P (recorded pl p ds))"
    and items: "e_item ` set (Collector_items (pl_layout pl) data) \<subseteq> set (recorded pl p ds)"
    using signals_run_spec [OF assms(1,2), of ds] assms(3,4) zero by (auto simp: fresh_def deliveries_ok_def)
  obtain es where es: "Collector_try_iter (pl_layout pl) read_ok data = Inr es" "set es = set (Collector_items (pl_layout pl) data)"
    "\<forall>f P. weight f P es = (weight f P (Collector_items (pl_layout pl) data) :: nat)"
    using collector_laws.Collector_try_iter_items [OF platform_collector [OF assms(1)] wf [unfolded data_wf_def]]
    by blast
  have "weight unat P es = length (filter P (recorded pl p ds))"
    if "\<And>x y. pl_eq pl x y \<Longrightarrow> P x = P y" for P
    using sum that es(3) by (simp add: items_weight_def)
  with that [OF w'] es(1,2) items show ?thesis by simp
qed

lemma accumulate_fresh:
  assumes "key_eq eq" and "weight unat (\<lambda>_. True) es = n" and "n < 2 ^ 63"
  shows "hm_distinct eq (accumulate_all eq g es []) \<and> (\<forall>q \<in> set (accumulate_all eq g es []). snd q \<noteq> 0) \<and>
    values_sum (accumulate_all eq g es []) = n \<and> unat (values_total (accumulate_all eq g es [])) = n \<and>
    (\<forall>k. unat (counted eq (accumulate_all eq g es []) k) = weight unat (\<lambda>x. eq (g x) k) es)"
proof -
  have "values_sum (accumulate_all eq g es []) = n \<and> hm_distinct eq (accumulate_all eq g es []) \<and>
    (\<forall>q \<in> set (accumulate_all eq g es []). snd q \<noteq> 0) \<and>
    (\<forall>k. unat (counted eq (accumulate_all eq g es []) k) = weight unat (\<lambda>x. eq (g x) k) es)"
    using key_eq.accumulate_all_spec [OF assms(1), of "[]" es g] assms(2,3)
    by (simp add: values_sum_def counted_def)
  with values_total_sum [of "accumulate_all eq g es []"] assms(3) show ?thesis by simp
qed

lemma values_sum_length: "\<forall>q \<in> set m. snd q \<noteq> 0 \<Longrightarrow> length m \<le> values_sum m"
proof (induction m)
  case (Cons q m)
  have "0 < unat (snd q)" using Cons.prems by (simp add: unat_gt_0)
  then have "1 \<le> unat (snd q)" by linarith
  with Cons have "1 + length m \<le> unat (snd q) + values_sum m" by (intro add_mono) auto
  then show ?case by (simp add: values_sum_def split_beta)
qed simp

section \<open>Properties of report building\<close>

text \<open>
  C4. The unresolved report is the multiset of samples, end to end. On a freshly started profiler, for any
  sequence of fewer than \<open>2 ^ 63\<close> ordinary deliveries of the signal, with the lock free or taken at each:
  the handler runs through, \<^verbatim>\<open>build_unresolved\<close> then succeeds, each stack's count is the number of recorded
  samples equal to it, each stack has one entry, \<^verbatim>\<open>total_samples\<close> is the number of recorded samples, and
  \<^verbatim>\<open>missed_samples\<close> has gone up by the number of deliveries that found the lock taken.
\<close>

theorem unresolved_report_exact:
  assumes "platform_ok pl" and "w_profiler w = Some (Inr p)" and "fresh pl p" and "deliveries_ok ds"
  shows "\<exists>w' r. signals_run pl w ds = Return w' \<and> build_unresolved pl read_ok w' rb = Inr r \<and>
    hm_distinct (pl_eq pl) (ur_data r) \<and>
    (\<forall>k. unat (counted (pl_eq pl) (ur_data r) k) = length (filter (\<lambda>s. pl_eq pl s k) (recorded pl p ds))) \<and>
    unat (UnresolvedReport_total_samples r) = length (recorded pl p ds) \<and>
    ur_missed_samples r = w_missed w + of_nat (length (filter snd ds))"
proof (rule fresh_run [OF assms])
  fix w' p' es
  assume run: "signals_run pl w ds = Return w'" "w_profiler w' = Some (Inr p')"
    "w_missed w' = w_missed w + of_nat (length (filter snd ds))"
    "Collector_try_iter (pl_layout pl) read_ok (p_data p') = Inr es"
    and sum: "\<And>P. (\<And>x y. pl_eq pl x y \<Longrightarrow> P x = P y) \<Longrightarrow> weight unat P es = length (filter P (recorded pl p ds))"
  let ?r = "\<lparr>ur_data = accumulate_all (pl_eq pl) (\<lambda>x. x) es [], ur_timing = rb_timing rb,
    ur_missed_samples = w_missed w'\<rparr>"
  have small: "length (recorded pl p ds) < 2 ^ 63"
    using length_recorded [of pl p ds] assms(4) by (simp add: deliveries_ok_def)
  have "build_unresolved pl read_ok w' rb = Inr ?r"
    using run by (simp add: build_unresolved_def accumulate_all_def)
  moreover have "weight unat (\<lambda>x. pl_eq pl x k) es = length (filter (\<lambda>s. pl_eq pl s k) (recorded pl p ds))" for k
    by (rule sum) (auto simp: UnresolvedFrames_eq_iff)
  moreover have "weight unat (\<lambda>_. True) es = length (recorded pl p ds)" using sum [of "\<lambda>_. True"] by simp
  ultimately show ?thesis
    using run accumulate_fresh [OF uf_key.key_eq_axioms, of es _ "pl_symbol_address pl" "\<lambda>x. x"] small
    by (intro exI [of _ w'] exI [of _ ?r]) (simp add: UnresolvedReport_total_samples_def)
qed

theorem unresolved_report_exact_witness:
  "\<exists>p w' r. Profiler_new (sim_platform default_config) None 0 = Inr p \<and>
     signals_run (sim_platform default_config)
       \<lparr>w_profiler = Some (Inr p), w_locked = False, w_missed = 0, w_errno = 2, w_os = ()\<rparr>
       [(demo_env [\<lparr>ip = 3\<rparr>], False), (demo_env [\<lparr>ip = 4\<rparr>], True), (demo_env [\<lparr>ip = 3\<rparr>], False)] = Return w' \<and>
     build_unresolved (sim_platform default_config) read_ok w' (ReportBuilder_new ReportTiming_default) = Inr r \<and>
     unat (UnresolvedReport_total_samples r) = 2 \<and> ur_missed_samples r = 1"
proof -
  let ?pl = "sim_platform default_config"
  let ?ds = "[(demo_env [\<lparr>ip = 3\<rparr>], False), (demo_env [\<lparr>ip = 4\<rparr>], True), (demo_env [\<lparr>ip = 3\<rparr>], False)]"
  obtain p where p: "Profiler_new ?pl None 0 = Inr p" "fresh ?pl p" and
    p0: "p = \<lparr>p_data = p_data p, p_sample_counter = 0, p_old_sigaction = None, p_running = False,
      p_clock_type = Cpu, p_thread_blocklist = [], p_on_stack = False, p_blocklist_segments = []\<rparr>"
    using Profiler_new_ok [OF sim_platform_ok, of 0 default_config] by (auto simp: fresh_def)
  have "\<not> env_blocked p (demo_env fs) name" for fs name
    by (subst p0) (simp add: env_blocked_def demo_env_def is_thread_blocklisted_def)
  then have "length (recorded ?pl p ?ds) = 2" by (simp add: recorded_def)
  moreover have "deliveries_ok ?ds" using demo_env_ok by (auto simp: deliveries_ok_def)
  ultimately show ?thesis
    using p(1) unresolved_report_exact [OF sim_platform_ok _ p(2), of
        "\<lparr>w_profiler = Some (Inr p), w_locked = False, w_missed = 0, w_errno = 2, w_os = ()\<rparr>" ?ds
        "ReportBuilder_new ReportTiming_default"]
    by auto
qed

lemma build_report_fresh:
  assumes "platform_ok pl" and "w_profiler w = Some (Inr p)" and "fresh pl p" and "deliveries_ok ds"
  shows "\<exists>w' r. signals_run pl w ds = Return w' \<and> build_report pl sy read_ok w' rb = Inr r \<and>
    hm_distinct Frames_eq (r_data r) \<and> (\<forall>q \<in> set (r_data r). 0 < sint (snd q)) \<and>
    unat (Report_total_samples r) = length (recorded pl p ds) \<and>
    Report_unique_stacks r \<le> length (recorded pl p ds) \<and>
    r_missed_samples r = w_missed w + of_nat (length (filter snd ds)) \<and> r_timing r = rb_timing rb"
proof (rule fresh_run [OF assms])
  fix w' p' es
  assume run: "signals_run pl w ds = Return w'" "w_profiler w' = Some (Inr p')"
    "w_missed w' = w_missed w + of_nat (length (filter snd ds))"
    "Collector_try_iter (pl_layout pl) read_ok (p_data p') = Inr es"
    and sum: "\<And>P. (\<And>x y. pl_eq pl x y \<Longrightarrow> P x = P y) \<Longrightarrow> weight unat P es = length (filter P (recorded pl p ds))"
  let ?m = "accumulate_all Frames_eq (post_process sy rb) es []"
  have small: "length (recorded pl p ds) < 2 ^ 63"
    using length_recorded [of pl p ds] assms(4) by (simp add: deliveries_ok_def)
  have total: "weight unat (\<lambda>_. True) es = length (recorded pl p ds)" using sum [of "\<lambda>_. True"] by simp
  have acc: "hm_distinct Frames_eq ?m" "\<forall>q \<in> set ?m. snd q \<noteq> 0" "values_sum ?m = length (recorded pl p ds)"
    "unat (values_total ?m) = length (recorded pl p ds)"
    using accumulate_fresh [OF frames_key.key_eq_axioms total small, of "post_process sy rb"] by blast+
  have pos: "0 < sint (snd q)" if "q \<in> set ?m" for q
  proof -
    have "unat (snd q) \<le> values_sum ?m" using that by (intro values_sum_member [of "fst q"]) simp
    then show ?thesis using acc(2,3) that small by (simp add: sint_pos_small)
  qed
  have "length ?m \<le> length (recorded pl p ds)" using values_sum_length [OF acc(2)] acc(3) by simp
  then show ?thesis
    using run acc pos
    by (intro exI [of _ w'] exI [of _ "\<lparr>r_data = ?m, r_timing = rb_timing rb, r_missed_samples = w_missed w'\<rparr>"])
       (simp add: build_report_def accumulate_all_def Report_total_samples_def Report_unique_stacks_def)
qed

text \<open>
  The resolved report keeps every sample. Under the same conditions \<^verbatim>\<open>build\<close> succeeds for every symbolizer
  and every frames post-processor, even one that makes all stacks equal: the stacks of the report are
  pairwise different, none has count zero, and \<^verbatim>\<open>total_samples\<close> is the number of recorded samples.
\<close>

lemma report_total_exact:
  assumes "platform_ok pl" and "w_profiler w = Some (Inr p)" and "fresh pl p" and "deliveries_ok ds"
  shows "\<exists>w' r. signals_run pl w ds = Return w' \<and> build_report pl sy read_ok w' rb = Inr r \<and>
    hm_distinct Frames_eq (r_data r) \<and> (\<forall>q \<in> set (r_data r). 0 < sint (snd q)) \<and>
    unat (Report_total_samples r) = length (recorded pl p ds) \<and>
    Report_unique_stacks r \<le> length (recorded pl p ds) \<and>
    r_missed_samples r = w_missed w + of_nat (length (filter snd ds)) \<and> r_timing r = rb_timing rb"
  by (rule build_report_fresh [OF assms])

definition demo_symbolizer :: symbolizer where
  "demo_symbolizer = \<lparr>sy_perfmap = (\<lambda>_. None), sy_resolve = demo_resolve, sy_demangle = (\<lambda>s. s)\<rparr>"

lemma report_total_exact_witness:
  "\<exists>p w' r. Profiler_new (sim_platform default_config) None 0 = Inr p \<and>
     signals_run (sim_platform default_config)
       \<lparr>w_profiler = Some (Inr p), w_locked = False, w_missed = 0, w_errno = 2, w_os = ()\<rparr>
       [(demo_env [\<lparr>ip = 3\<rparr>], False), (demo_env [\<lparr>ip = 4\<rparr>], False)] = Return w' \<and>
     build_report (sim_platform default_config) demo_symbolizer read_ok w'
       (ReportBuilder_frames_post_processor (\<lambda>f. f\<lparr>fr_frames := []\<rparr>) (ReportBuilder_new ReportTiming_default))
       = Inr r \<and> unat (Report_total_samples r) = 2"
proof -
  let ?pl = "sim_platform default_config"
  let ?ds = "[(demo_env [\<lparr>ip = 3\<rparr>], False), (demo_env [\<lparr>ip = 4\<rparr>], False)]"
  obtain p where p: "Profiler_new ?pl None 0 = Inr p" "fresh ?pl p" and
    p0: "p = \<lparr>p_data = p_data p, p_sample_counter = 0, p_old_sigaction = None, p_running = False,
      p_clock_type = Cpu, p_thread_blocklist = [], p_on_stack = False, p_blocklist_segments = []\<rparr>"
    using Profiler_new_ok [OF sim_platform_ok, of 0 default_config] by (auto simp: fresh_def)
  have "\<not> env_blocked p (demo_env fs) name" for fs name
    by (subst p0) (simp add: env_blocked_def demo_env_def is_thread_blocklisted_def)
  then have "length (recorded ?pl p ?ds) = 2" by (simp add: recorded_def)
  moreover have "deliveries_ok ?ds" using demo_env_ok by (auto simp: deliveries_ok_def)
  ultimately show ?thesis
    using p(1) report_total_exact [OF sim_platform_ok _ p(2), of
        "\<lparr>w_profiler = Some (Inr p), w_locked = False, w_missed = 0, w_errno = 2, w_os = ()\<rparr>" ?ds demo_symbolizer
        "ReportBuilder_frames_post_processor (\<lambda>f. f\<lparr>fr_frames := []\<rparr>) (ReportBuilder_new ReportTiming_default)"]
    by auto
qed

end
