(* ===== verification/Report_Formats.thy ===== *)
theory Report_Formats
  imports Report
begin

text \<open>
  The text formats of a report (\<^verbatim>\<open>src/src/report.rs\<close>): folded stacks, Speedscope JSON, \<^verbatim>\<open>Debug\<close>, and the
  lines handed to \<^verbatim>\<open>inferno\<close>. Each is the list of chunks the code writes, in order; \<open>write_chunks\<close> passes them
  to a \<^verbatim>\<open>Write\<close> that may fail at any chunk after taking some of its bytes. The reference for Speedscope is a
  serialiser of JSON values, \<open>show_json\<close>, and for folded stacks a reader, \<open>parse_folded\<close>. Strings are UTF-8 bytes;
  all characters the formats treat specially are ASCII, so working on bytes and on characters agrees.
\<close>

section \<open>Writers\<close>

primrec write_chunks ::
  "(nat \<Rightarrow> (nat \<times> io_error) option) \<Rightarrow> nat \<Rightarrow> string \<Rightarrow> string list \<Rightarrow> string \<times> (io_error + unit)" where
  "write_chunks fault i out [] = (out, Inr ())"
| "write_chunks fault i out (c # cs) =
     (case fault i of
        Some (n, e) \<Rightarrow> (out @ take n c, Inl e)
      | None \<Rightarrow> write_chunks fault (i + 1) (out @ c) cs)"

lemma write_chunks_ok: "write_chunks (\<lambda>_. None) i out cs = (out @ concat cs, Inr ())"
  by (induction cs arbitrary: i out) auto

lemma write_chunks_prefix: "\<exists>s t. fst (write_chunks fault i out cs) = out @ s \<and> concat cs = s @ t"
proof (induction cs arbitrary: i out)
  case (Cons c cs)
  show ?case
  proof (cases "fault i")
    case None
    with Cons [of "i + 1" "out @ c"] show ?thesis by auto
  next
    case (Some p)
    have "c @ concat cs = take (fst p) c @ drop (fst p) c @ concat cs" by (simp flip: append_assoc)
    with Some show ?thesis
      by (intro exI [of _ "take (fst p) c"] exI [of _ "drop (fst p) c @ concat cs"]) (simp add: split_beta)
  qed
qed simp

section \<open>Folded stacks\<close>

abbreviation newline :: string where
  "newline \<equiv> [CHR 0x0A]"

definition stack_symbols :: "Frames \<Rightarrow> Symbol list" where
  "stack_symbols key = concat (map rev (rev (fr_frames key)))"

definition folded_chunks :: "symbolizer \<Rightarrow> Report \<Rightarrow> string list" where
  "folded_chunks sy r = concat (map (\<lambda>(key, v).
     if sint v \<le> 0 then []
     else [Frames_thread_name_or_id key]
          @ map (\<lambda>symbol. '';'' @ Symbol_name (sy_demangle sy) symbol) (stack_symbols key)
          @ ['' '' @ show_int (sint v) @ newline]) (r_data r))"

definition write_folded ::
  "symbolizer \<Rightarrow> (nat \<Rightarrow> (nat \<times> io_error) option) \<Rightarrow> string \<Rightarrow> Report \<Rightarrow> string \<times> (io_error + unit)" where
  "write_folded sy fault out r = write_chunks fault 0 out (folded_chunks sy r)"

section \<open>Speedscope\<close>

type_synonym frame_table = "(string, nat) hashmap \<times> string list"

definition get_frame_idx :: "frame_table \<Rightarrow> string \<Rightarrow> frame_table \<times> nat" where
  "get_frame_idx t frame_name =
     (case t of (frame_indices, frame_names) \<Rightarrow>
        (case hm_get (=) frame_indices frame_name of
           Some idx \<Rightarrow> (t, idx)
         | None \<Rightarrow>
             (let idx = length frame_names
              in ((hm_insert (=) frame_indices frame_name idx, frame_names @ [frame_name]), idx))))"

fun index_names :: "frame_table \<Rightarrow> string list \<Rightarrow> frame_table \<times> nat list" where
  "index_names t [] = (t, [])"
| "index_names t (n # ns) =
     (let (t, i) = get_frame_idx t n; (t, is) = index_names t ns in (t, i # is))"

definition stack_names :: "symbolizer \<Rightarrow> Frames \<Rightarrow> string list" where
  "stack_names sy key =
     Frames_thread_name_or_id key # map (Symbol_name (sy_demangle sy)) (stack_symbols key)"

record speedscope =
  ss_table :: frame_table
  ss_samples :: "nat list list"
  ss_weights :: "usize list"
  ss_total_weight :: usize

definition speedscope_step :: "symbolizer \<Rightarrow> Frames \<times> isize \<Rightarrow> speedscope \<Rightarrow> speedscope" where
  "speedscope_step sy e s =
     (case e of (key, v) \<Rightarrow>
        if sint v \<le> 0 then s
        else let (t, sample) = index_names (ss_table s) (stack_names sy key)
             in \<lparr>ss_table = t, ss_samples = ss_samples s @ [sample], ss_weights = ss_weights s @ [v],
                 ss_total_weight = ss_total_weight s + v\<rparr>)"

definition speedscope_data :: "symbolizer \<Rightarrow> Report \<Rightarrow> speedscope" where
  "speedscope_data sy r = fold (speedscope_step sy) (r_data r)
     \<lparr>ss_table = ([], []), ss_samples = [], ss_weights = [], ss_total_weight = 0\<rparr>"

definition escape_char :: "char \<Rightarrow> string" where
  "escape_char c =
     (if c = CHR 0x22 then [CHR 0x5C, CHR 0x22]
      else if c = CHR 0x5C then [CHR 0x5C, CHR 0x5C]
      else if c = CHR 0x0A then [CHR 0x5C, CHR ''n'']
      else if c = CHR 0x0D then [CHR 0x5C, CHR ''r'']
      else if c = CHR 0x09 then [CHR 0x5C, CHR ''t'']
      else if (of_char c :: nat) < 0x20 then [CHR 0x5C, CHR ''u''] @ show_hex4 (of_char c)
      else [c])"

definition escape_json :: "string \<Rightarrow> string" where
  "escape_json s = concat (map escape_char s)"

definition comma_chunks :: "('a \<Rightarrow> string list) \<Rightarrow> 'a list \<Rightarrow> string list" where
  "comma_chunks f xs =
     concat (map (\<lambda>(i, x). (if i > 0 then ['','']  else []) @ f x) (List.enumerate 0 xs))"

abbreviation dquote :: string where
  "dquote \<equiv> [CHR 0x22]"

definition speedscope_header :: "string \<Rightarrow> usize \<Rightarrow> string" where
  "speedscope_header name total_weight =
     ''{'' @ dquote @ ''$schema'' @ dquote @ '':'' @ dquote
       @ ''https://www.speedscope.app/file-format-schema.json'' @ dquote @ '',''
     @ dquote @ ''version'' @ dquote @ '':'' @ dquote @ ''0.0.1'' @ dquote @ '',''
     @ dquote @ ''exporter'' @ dquote @ '':'' @ dquote @ ''rpprof'' @ dquote @ '',''
     @ dquote @ ''name'' @ dquote @ '':'' @ dquote @ escape_json name @ dquote @ '',''
     @ dquote @ ''activeProfileIndex'' @ dquote @ '':0,''
     @ dquote @ ''profiles'' @ dquote @ '':[{'' @ dquote @ ''type'' @ dquote @ '':'' @ dquote @ ''sampled'' @ dquote @ '',''
     @ dquote @ ''name'' @ dquote @ '':'' @ dquote @ escape_json name @ dquote @ '',''
     @ dquote @ ''unit'' @ dquote @ '':'' @ dquote @ ''count'' @ dquote @ '',''
     @ dquote @ ''startValue'' @ dquote @ '':0,''
     @ dquote @ ''endValue'' @ dquote @ '':'' @ show_nat (unat total_weight) @ '',''
     @ dquote @ ''samples'' @ dquote @ '':[''"

definition speedscope_chunks :: "symbolizer \<Rightarrow> Report \<Rightarrow> string \<Rightarrow> string list" where
  "speedscope_chunks sy r name =
     (let d = speedscope_data sy r
      in [speedscope_header name (ss_total_weight d)]
         @ comma_chunks (\<lambda>sample. [''[''] @ comma_chunks (\<lambda>idx. [show_nat idx]) sample @ ['']'']) (ss_samples d)
         @ [''],'' @ dquote @ ''weights'' @ dquote @ '':['']
         @ comma_chunks (\<lambda>weight. [show_nat (unat weight)]) (ss_weights d)
         @ ['']}],'' @ dquote @ ''shared'' @ dquote @ '':{'' @ dquote @ ''frames'' @ dquote @ '':['']
         @ comma_chunks (\<lambda>fname. [''{'' @ dquote @ ''name'' @ dquote @ '':'' @ dquote @ escape_json fname @ dquote @ ''}''])
             (snd (ss_table d))
         @ ['']}}''])"

definition write_speedscope ::
  "symbolizer \<Rightarrow> (nat \<Rightarrow> (nat \<times> io_error) option) \<Rightarrow> string \<Rightarrow> Report \<Rightarrow> string \<Rightarrow> string \<times> (io_error + unit)" where
  "write_speedscope sy fault out r name = write_chunks fault 0 out (speedscope_chunks sy r name)"

section \<open>Debug and flamegraph\<close>

definition Report_debug :: "symbolizer \<Rightarrow> Report \<Rightarrow> string" where
  "Report_debug sy r = concat (map (\<lambda>(key, val).
     Frames_debug (sy_demangle sy) key @ '' '' @ show_int (sint val) @ newline) (r_data r))"

definition flamegraph_lines :: "symbolizer \<Rightarrow> Report \<Rightarrow> string list" where
  "flamegraph_lines sy r = map (\<lambda>(key, v).
     let line = Frames_thread_name_or_id key @ '';'';
         line = line @ concat (map (\<lambda>symbol. Symbol_name (sy_demangle sy) symbol @ '';'') (stack_symbols key));
         line = butlast line
     in line @ '' '' @ show_int (sint v)) (r_data r)"

text \<open>\<^verbatim>\<open>inferno::flamegraph::from_lines\<close> is an argument: what it writes, and whether it fails.\<close>

definition flamegraph_with_options ::
  "symbolizer \<Rightarrow> ('opt \<Rightarrow> string list \<Rightarrow> string \<Rightarrow> string \<times> (io_error + unit)) \<Rightarrow> 'opt \<Rightarrow> string \<Rightarrow> Report
     \<Rightarrow> (string \<times> unit Result) outcome" where
  "flamegraph_with_options sy from_lines options out r =
     (let lines = flamegraph_lines sy r
      in if lines \<noteq> []
         then (case from_lines options lines out of
                 (out', Inl e) \<Rightarrow> Panic UnwrapFailed
               | (out', Inr _) \<Rightarrow> Return (out', Inr ()))
         else Return (out, Inr ()))"

definition flamegraph ::
  "symbolizer \<Rightarrow> ('opt \<Rightarrow> string list \<Rightarrow> string \<Rightarrow> string \<times> (io_error + unit)) \<Rightarrow> 'opt \<Rightarrow> string \<Rightarrow> Report
     \<Rightarrow> (string \<times> unit Result) outcome" where
  "flamegraph sy from_lines default_options out r =
     flamegraph_with_options sy from_lines default_options out r"

section \<open>Reading folded stacks\<close>

definition parse_line :: "string \<Rightarrow> string \<times> nat" where
  "parse_line l =
     (let r = rev l in (rev (tl (dropWhile (\<lambda>c. c \<noteq> CHR '' '') r)),
                        read_nat 0 (rev (takeWhile (\<lambda>c. c \<noteq> CHR '' '') r))))"

fun parse_folded :: "string \<Rightarrow> string \<Rightarrow> (string \<times> nat) list" where
  "parse_folded acc [] = []"
| "parse_folded acc (c # cs) =
     (if c = CHR 0x0A then parse_line acc # parse_folded [] cs else parse_folded (acc @ [c]) cs)"

definition folded_stack :: "symbolizer \<Rightarrow> Frames \<Rightarrow> string" where
  "folded_stack sy key = Frames_thread_name_or_id key
     @ concat (map (\<lambda>symbol. '';'' @ Symbol_name (sy_demangle sy) symbol) (stack_symbols key))"

lemma show_nat_not: "(of_char c :: nat) \<notin> {48..57} \<Longrightarrow> c \<notin> set (show_nat n)"
  using show_nat_digits by blast

lemma parse_line_eq: "parse_line (s @ '' '' @ show_nat n) = (s, n)"
proof -
  have digits: "\<forall>c \<in> set (rev (show_nat n)). c \<noteq> CHR '' ''"
    using show_nat_not [of "CHR '' ''" n] by auto
  have "takeWhile (\<lambda>c. c \<noteq> CHR '' '') (rev (show_nat n) @ CHR '' '' # rev s) = rev (show_nat n)"
    "dropWhile (\<lambda>c. c \<noteq> CHR '' '') (rev (show_nat n) @ CHR '' '' # rev s) = CHR '' '' # rev s"
    using digits takeWhile_append2 [of "rev (show_nat n)" "\<lambda>c. c \<noteq> CHR '' ''" "CHR '' '' # rev s"]
      dropWhile_append2 [of "rev (show_nat n)" "\<lambda>c. c \<noteq> CHR '' ''" "CHR '' '' # rev s"] by simp_all
  then show ?thesis by (simp add: parse_line_def Let_def read_show_nat)
qed

lemma parse_folded_line:
  "CHR 0x0A \<notin> set l \<Longrightarrow> parse_folded acc (l @ newline @ rest) = parse_line (acc @ l) # parse_folded [] rest"
  by (induction l arbitrary: acc) auto

lemma concat_folded_chunks:
  "concat (folded_chunks sy r) = concat (map (\<lambda>(key, v).
     if sint v \<le> 0 then [] else folded_stack sy key @ '' '' @ show_nat (nat (sint v)) @ newline) (r_data r))"
proof -
  have "concat (concat (map f xs)) = concat (map (\<lambda>x. concat (f x)) xs)" for f :: "Frames \<times> isize \<Rightarrow> string list" and xs
    by (induction xs) auto
  then show ?thesis
    by (auto simp: folded_chunks_def folded_stack_def show_int_def intro!: arg_cong [where f = concat])
qed

lemma parse_folded_lines:
  assumes "\<forall>(key, v) \<in> set m. CHR 0x0A \<notin> set (folded_stack sy key)"
  shows "parse_folded [] (concat (map (\<lambda>(key, v).
      if sint v \<le> 0 then [] else folded_stack sy key @ '' '' @ show_nat (nat (sint v)) @ newline) m)) =
    map (\<lambda>(key, v). (folded_stack sy key, nat (sint v))) (filter (\<lambda>(key, v). 0 < sint v) m)"
  using assms
proof (induction m)
  case (Cons p m)
  obtain key v where p: "p = (key, v)" by (cases p)
  have "CHR 0x0A \<notin> set (folded_stack sy key @ '' '' @ show_nat (nat (sint v)))"
    using Cons.prems show_nat_not [of "CHR 0x0A" "nat (sint v)"] by (simp add: p)
  from parse_folded_line [OF this, of "[]"] show ?case
    using Cons parse_line_eq [of "folded_stack sy key" "nat (sint v)"] by (simp add: p)
qed simp

section \<open>JSON\<close>

datatype json = JNum nat | JStr string | JArr "json list" | JObj "(string \<times> json) list"

fun join :: "string \<Rightarrow> string list \<Rightarrow> string" where
  "join sep [] = []"
| "join sep [x] = x"
| "join sep (x # y # ys) = x @ sep @ join sep (y # ys)"

fun show_json :: "json \<Rightarrow> string" where
  "show_json (JNum n) = show_nat n"
| "show_json (JStr s) = dquote @ escape_json s @ dquote"
| "show_json (JArr xs) = ''['' @ join '','' (map show_json xs) @ '']''"
| "show_json (JObj ms) =
     ''{'' @ join '','' (map (\<lambda>(k, v). dquote @ escape_json k @ dquote @ '':'' @ show_json v) ms) @ ''}''"

text \<open>Reading the inside of a JSON string back, up to the closing quote.\<close>

definition hex_val :: "char \<Rightarrow> nat" where
  "hex_val c = (let n = of_char c in if n < 58 then n - 48 else n - 87)"

fun unescape_json :: "string \<Rightarrow> (string \<times> string) option" where
  "unescape_json [] = None"
| "unescape_json (c # cs) =
     (if c = CHR 0x22 then Some ([], cs)
      else if c = CHR 0x5C then
        (case cs of
           [] \<Rightarrow> None
         | e # cs' \<Rightarrow>
             (if e = CHR ''u'' then
                (case cs' of
                   h1 # h2 # h3 # h4 # cs'' \<Rightarrow>
                     map_option (\<lambda>(s, r).
                       (char_of (4096 * hex_val h1 + 256 * hex_val h2 + 16 * hex_val h3 + hex_val h4) # s, r))
                       (unescape_json cs'')
                 | _ \<Rightarrow> None)
              else map_option (\<lambda>(s, r).
                ((if e = CHR ''n'' then CHR 0x0A else if e = CHR ''r'' then CHR 0x0D
                  else if e = CHR ''t'' then CHR 0x09 else e) # s, r)) (unescape_json cs')))
      else if (of_char c :: nat) < 0x20 then None
      else map_option (\<lambda>(s, r). (c # s, r)) (unescape_json cs))"


lemma concat_comma_chunks: "concat (comma_chunks f xs) = join '','' (map (\<lambda>x. concat (f x)) xs)"
proof -
  have tail: "concat (concat (map (\<lambda>(i, x). (if i > 0 then ['',''] else []) @ f x) (List.enumerate (Suc k) ys))) =
      concat (map (\<lambda>y. '','' @ concat (f y)) ys)" for k ys
    by (induction ys arbitrary: k) auto
  have join: "join '','' (z # zs) = z @ concat (map (\<lambda>y. '','' @ y) zs)" for z zs
    by (induction zs arbitrary: z) auto
  show ?thesis
  proof (cases xs)
    case (Cons x ys)
    have "concat (map (\<lambda>y. '','' @ y) (map (\<lambda>x. concat (f x)) ys)) = concat (map (\<lambda>y. '','' @ concat (f y)) ys)"
      by (simp add: comp_def)
    then show ?thesis using Cons join [of "concat (f x)" "map (\<lambda>x. concat (f x)) ys"] tail [of 0 ys]
      by (simp add: comma_chunks_def)
  qed (simp add: comma_chunks_def)
qed

lemma hex_val_digit: "d < 16 \<Longrightarrow> hex_val (digit_char d) = d"
  by (simp add: hex_val_def digit_char_def Let_def)

lemma show_hex4_value:
  "n < 65536 \<Longrightarrow> \<exists>a b c d. show_hex4 n = [a, b, c, d] \<and>
     4096 * hex_val a + 256 * hex_val b + 16 * hex_val c + hex_val d = n"
proof -
  assume "n < 65536"
  have "n div 16 div 16 = n div 256" "n div 256 div 16 = n div 4096" by (simp_all add: div_mult2_eq [symmetric])
  then have "4096 * (n div 4096) + 256 * (n div 256 mod 16) + 16 * (n div 16 mod 16) + n mod 16 = n"
    using div_mult_mod_eq [of n 16] div_mult_mod_eq [of "n div 16" 16] div_mult_mod_eq [of "n div 256" 16]
    by linarith
  with \<open>n < 65536\<close> show ?thesis by (simp add: show_hex4_def hex_val_digit)
qed

lemma unescape_escape_char:
  "unescape_json (escape_char c @ t) = map_option (\<lambda>(s, r). (c # s, r)) (unescape_json t)"
proof (cases "(of_char c :: nat) < 0x20 \<and> c \<notin> {CHR 0x0A, CHR 0x0D, CHR 0x09}")
  case True
  then have n: "(of_char c :: nat) < 65536" by simp
  obtain h1 h2 h3 h4 where h: "show_hex4 (of_char c) = [h1, h2, h3, h4]"
    "4096 * hex_val h1 + 256 * hex_val h2 + 16 * hex_val h3 + hex_val h4 = of_char c"
    using show_hex4_value [OF n] by blast
  have "c \<noteq> CHR 0x22" "c \<noteq> CHR 0x5C" using True by auto
  then have "escape_char c @ t = CHR 0x5C # CHR ''u'' # h1 # h2 # h3 # h4 # t"
    using True h(1) by (simp add: escape_char_def)
  then show ?thesis using h(2) by simp
next
  case False
  then show ?thesis by (auto simp: escape_char_def)
qed

lemma unescape_escape_json: "unescape_json (escape_json s @ dquote @ rest) = Some (s, rest)"
proof (induction s)
  case (Cons c s)
  have "escape_json (c # s) @ dquote @ rest = escape_char c @ escape_json s @ dquote @ rest"
    by (simp add: escape_json_def)
  then show ?case using Cons by (simp only: unescape_escape_char) simp
qed (simp add: escape_json_def)

section \<open>The frame table\<close>

definition table_ok :: "frame_table \<Rightarrow> bool" where
  "table_ok t \<longleftrightarrow> distinct (snd t) \<and> (\<forall>n i. hm_get (=) (fst t) n = Some i \<longleftrightarrow> i < length (snd t) \<and> snd t ! i = n)"

lemma get_frame_idx_spec:
  assumes "table_ok t" and "get_frame_idx t n = (t', i)"
  shows "table_ok t' \<and> i < length (snd t') \<and> snd t' ! i = n \<and> (\<exists>ns. snd t' = snd t @ ns)"
proof (cases "hm_get (=) (fst t) n")
  case None
  then have fresh: "n \<notin> set (snd t)" using assms(1) by (metis in_set_conv_nth option.distinct(1) table_ok_def)
  have t': "t' = (hm_insert (=) (fst t) n (length (snd t)), snd t @ [n])" "i = length (snd t)"
    using assms(2) None by (auto simp: get_frame_idx_def Let_def split: prod.splits)
  have "hm_get (=) (fst t') m = Some j \<longleftrightarrow> j < length (snd t') \<and> snd t' ! j = m" for m j
    using assms(1) fresh None
    by (auto simp: t' table_ok_def std_eq.get_insert nth_append less_Suc_eq in_set_conv_nth)
  then show ?thesis using assms(1) fresh t' by (auto simp: table_ok_def)
next
  case (Some j)
  then have "t' = t" "i = j" using assms(2) by (auto simp: get_frame_idx_def split: prod.splits)
  with Some assms(1) show ?thesis by (auto simp: table_ok_def)
qed

lemma index_names_spec:
  assumes "table_ok t" and "index_names t ns = (t', idxs)"
  shows "table_ok t' \<and> (\<exists>ms. snd t' = snd t @ ms) \<and> (\<forall>i \<in> set idxs. i < length (snd t')) \<and>
    map ((!) (snd t')) idxs = ns"
  using assms
proof (induction ns arbitrary: t idxs)
  case (Cons n ns)
  obtain t1 i where 1: "get_frame_idx t n = (t1, i)" by fastforce
  obtain js where 2: "index_names t1 ns = (t', js)" "idxs = i # js"
    using Cons.prems(2) 1 by (auto simp: Let_def split: prod.splits)
  note g = get_frame_idx_spec [OF Cons.prems(1) 1]
  from Cons.IH [OF _ 2(1)] g show ?case by (auto simp: 2(2) nth_append)
qed simp

definition decode :: "string list \<Rightarrow> nat list \<Rightarrow> string list" where
  "decode names sample = map ((!) names) sample"

definition speedscope_ok :: "symbolizer \<Rightarrow> (Frames, isize) hashmap \<Rightarrow> speedscope \<Rightarrow> bool" where
  "speedscope_ok sy m s \<longleftrightarrow> table_ok (ss_table s) \<and>
     (\<forall>sample \<in> set (ss_samples s). \<forall>i \<in> set sample. i < length (snd (ss_table s))) \<and>
     map (decode (snd (ss_table s))) (ss_samples s) = map (stack_names sy \<circ> fst) m \<and>
     ss_weights s = map snd m \<and> ss_total_weight s = sum_list (map snd m)"

lemma speedscope_step_ok:
  assumes "speedscope_ok sy m s" and "0 < sint v"
  shows "speedscope_ok sy (m @ [(key, v)]) (speedscope_step sy (key, v) s)"
proof -
  obtain t idxs where t: "index_names (ss_table s) (stack_names sy key) = (t, idxs)" by fastforce
  obtain ms where t': "table_ok t" "snd t = snd (ss_table s) @ ms" "\<forall>i \<in> set idxs. i < length (snd t)"
    "map ((!) (snd t)) idxs = stack_names sy key"
    using index_names_spec [OF _ t] assms(1) by (auto simp: speedscope_ok_def)
  have "decode (snd t) sample = decode (snd (ss_table s)) sample" if "sample \<in> set (ss_samples s)" for sample
    using that assms(1) by (auto simp: decode_def t'(2) nth_append speedscope_ok_def)
  then have "map (decode (snd t)) (ss_samples s) = map (decode (snd (ss_table s))) (ss_samples s)"
    by (rule map_cong [OF refl])
  then have "map (decode (snd t)) (ss_samples s) = map (stack_names sy \<circ> fst) m"
    using assms(1) unfolding speedscope_ok_def by metis
  moreover have "\<forall>sample \<in> set (ss_samples s). \<forall>i \<in> set sample. i < length (snd t)"
    using assms(1) t'(2) by (fastforce simp: speedscope_ok_def)
  ultimately show ?thesis
    using assms t t'(1,3) t'(4) [folded decode_def] by (simp add: speedscope_step_def speedscope_ok_def)
qed

lemma speedscope_data_ok: "speedscope_ok sy (filter (\<lambda>(key, v). 0 < sint v) (r_data r)) (speedscope_data sy r)"
proof -
  have "speedscope_ok sy (m @ filter (\<lambda>(key, v). 0 < sint v) m') (fold (speedscope_step sy) m' s)"
    if "speedscope_ok sy m s" for m m' s
    using that
  proof (induction m' arbitrary: m s)
    case (Cons p m')
    obtain key v where p: "p = (key, v)" by (cases p)
    show ?case
    proof (cases "0 < sint v")
      case True
      with Cons.IH [OF speedscope_step_ok [OF Cons.prems True, of key]] show ?thesis by (simp add: p)
    next
      case False
      then have "speedscope_step sy p s = s" by (simp add: p speedscope_step_def)
      with Cons False show ?thesis by (simp add: p)
    qed
  qed simp
  from this [of "[]" _ "r_data r"] show ?thesis
    by (simp add: speedscope_data_def speedscope_ok_def table_ok_def)
qed

section \<open>Properties\<close>

text \<open>
  C39. Folded stacks can be read back. When no thread or symbol name contains a newline, splitting what
  \<^verbatim>\<open>write_folded\<close> writes at newlines and each line at its last space gives, in order, the stack and the count of
  every entry with a positive count, and nothing else; a writer that fails has received a prefix
  of that text.
\<close>

theorem write_folded_round_trip:
  assumes "\<forall>(key, v) \<in> set (r_data r). CHR 0x0A \<notin> set (folded_stack sy key)"
  shows "(\<exists>text. write_folded sy (\<lambda>_. None) [] r = (text, Inr ()) \<and>
      parse_folded [] text =
        map (\<lambda>(key, v). (folded_stack sy key, nat (sint v))) (filter (\<lambda>(key, v). 0 < sint v) (r_data r))) \<and>
    (\<exists>rest. fst (write_folded sy (\<lambda>_. None) [] r) = fst (write_folded sy fault [] r) @ rest)"
proof (rule conjI)
  show "\<exists>text. write_folded sy (\<lambda>_. None) [] r = (text, Inr ()) \<and> parse_folded [] text =
        map (\<lambda>(key, v). (folded_stack sy key, nat (sint v))) (filter (\<lambda>(key, v). 0 < sint v) (r_data r))"
    using parse_folded_lines [OF assms] by (simp add: write_folded_def write_chunks_ok concat_folded_chunks)
  show "\<exists>rest. fst (write_folded sy (\<lambda>_. None) [] r) = fst (write_folded sy fault [] r) @ rest"
    using write_chunks_prefix [of fault 0 "[]" "folded_chunks sy r"]
    by (auto simp: write_folded_def write_chunks_ok)
qed

definition demo_frames :: "string list \<Rightarrow> Frames" where
  "demo_frames names =
     \<lparr>fr_frames = map (\<lambda>n. [Symbol_from (demo_symbol n)]) names, fr_thread_name = ''main'', fr_thread_id = 7,
      fr_sample_timestamp = 0\<rparr>"

definition demo_report :: Report where
  "demo_report =
     \<lparr>r_data = [(demo_frames [''work'', ''main''], 3), (demo_frames [''main''], 0), (demo_frames [], 2)],
      r_timing = ReportTiming_default, r_missed_samples = 1\<rparr>"

lemmas demo_report_simps = demo_report_def demo_frames_def demo_symbolizer_def folded_stack_def
  stack_symbols_def Frames_thread_name_or_id_def demo_symbol_def Symbol_from_def Symbol_name_def
  Symbol_raw_name_def from_utf8_lossy_names

theorem write_folded_round_trip_witness:
  "\<exists>text. write_folded demo_symbolizer (\<lambda>_. None) [] demo_report = (text, Inr ()) \<and>
     parse_folded [] text = [(''main;main;work'', 3), (''main'', 2)]"
proof -
  have "\<forall>(key, v) \<in> set (r_data demo_report). CHR 0x0A \<notin> set (folded_stack demo_symbolizer key)"
    by (simp add: demo_report_simps)
  from conjunct1 [OF write_folded_round_trip [OF this]] show ?thesis
    by (simp add: demo_report_simps)
qed

text \<open>
  The Speedscope tables are right: the frame names are pairwise different, every index in a sample is in
  range, and reading a sample's indices off the names gives the thread and then the symbols from the
  outermost to the innermost, for every entry with a positive count in order; the weights are the counts
  and \<^verbatim>\<open>endValue\<close> is their (wrapping) sum.
\<close>

lemma speedscope_tables:
  "let d = speedscope_data sy r; names = snd (ss_table d); es = filter (\<lambda>(key, v). 0 < sint v) (r_data r)
   in distinct names \<and> list_all (list_all (\<lambda>i. i < length names)) (ss_samples d) \<and>
      map (decode names) (ss_samples d) = map (stack_names sy \<circ> fst) es \<and>
      ss_weights d = map snd es \<and> ss_total_weight d = sum_list (map snd es)"
  using speedscope_data_ok [of sy r]
  by (simp add: Let_def speedscope_ok_def table_ok_def list_all_iff)

definition speedscope_document :: "symbolizer \<Rightarrow> Report \<Rightarrow> string \<Rightarrow> json" where
  "speedscope_document sy r name = (let d = speedscope_data sy r in
     JObj [(''$schema'', JStr ''https://www.speedscope.app/file-format-schema.json''),
           (''version'', JStr ''0.0.1''), (''exporter'', JStr ''rpprof''), (''name'', JStr name),
           (''activeProfileIndex'', JNum 0),
           (''profiles'', JArr [JObj [(''type'', JStr ''sampled''), (''name'', JStr name), (''unit'', JStr ''count''),
              (''startValue'', JNum 0), (''endValue'', JNum (unat (ss_total_weight d))),
              (''samples'', JArr (map (\<lambda>s. JArr (map JNum s)) (ss_samples d))),
              (''weights'', JArr (map (\<lambda>w. JNum (unat w)) (ss_weights d)))]]),
           (''shared'', JObj [(''frames'', JArr (map (\<lambda>n. JObj [(''name'', JStr n)]) (snd (ss_table d))))])])"

lemma escape_json_plain: "list_all (\<lambda>c. c \<noteq> CHR 0x22 \<and> c \<noteq> CHR 0x5C \<and> (0x20 :: nat) \<le> of_char c) s \<Longrightarrow> escape_json s = s"
  by (induction s) (auto simp: escape_json_def escape_char_def)

lemma escape_json_keys:
  "escape_json ''$schema'' = ''$schema''" "escape_json ''version'' = ''version''"
  "escape_json ''exporter'' = ''exporter''" "escape_json ''name'' = ''name''"
  "escape_json ''activeProfileIndex'' = ''activeProfileIndex''" "escape_json ''profiles'' = ''profiles''"
  "escape_json ''type'' = ''type''" "escape_json ''sampled'' = ''sampled''" "escape_json ''unit'' = ''unit''"
  "escape_json ''count'' = ''count''" "escape_json ''startValue'' = ''startValue''"
  "escape_json ''endValue'' = ''endValue''" "escape_json ''samples'' = ''samples''"
  "escape_json ''weights'' = ''weights''" "escape_json ''shared'' = ''shared''"
  "escape_json ''frames'' = ''frames''" "escape_json ''0.0.1'' = ''0.0.1''" "escape_json ''rpprof'' = ''rpprof''"
  "escape_json ''https://www.speedscope.app/file-format-schema.json'' =
     ''https://www.speedscope.app/file-format-schema.json''"
  by (simp_all add: escape_json_plain)

lemma show_nat_0: "show_nat 0 = ''0''"
  by code_simp


lemma butlast_semicolons:
  "butlast (t @ '';'' @ concat (map (\<lambda>x. f x @ '';'') xs)) = t @ concat (map (\<lambda>x. '';'' @ f x) xs)"
proof (induction xs arbitrary: t)
  case (Cons x xs)
  from Cons [of "t @ '';'' @ f x"] show ?case by simp
qed (simp add: butlast_append)

text \<open>
  The flame graph and the folded file agree: for a report without non-positive counts the lines handed
  to \<^verbatim>\<open>inferno\<close>, each ended by a newline, are exactly what \<^verbatim>\<open>write_folded\<close> writes; and an error of \<^verbatim>\<open>inferno\<close>
  makes \<^verbatim>\<open>flamegraph\<close> panic instead of being returned.
\<close>

lemma flamegraph_lines_folded:
  assumes "\<forall>q \<in> set (r_data r). 0 < sint (snd q)"
  shows "concat (map (\<lambda>l. l @ newline) (flamegraph_lines sy r)) = fst (write_folded sy (\<lambda>_. None) [] r) \<and>
    (r_data r \<noteq> [] \<and> from_lines options (flamegraph_lines sy r) out = (out', Inl e) \<longrightarrow>
       flamegraph_with_options sy from_lines options out r = Panic UnwrapFailed)"
proof -
  have pos: "\<not> sint v \<le> 0" "\<not> sint v < 0" if "(key, v) \<in> set (r_data r)" for key v
    using assms that by fastforce+
  have "map (\<lambda>l. l @ newline) (flamegraph_lines sy r) = map (\<lambda>(key, v).
      if sint v \<le> 0 then [] else folded_stack sy key @ '' '' @ show_nat (nat (sint v)) @ newline) (r_data r)"
    using pos butlast_semicolons
    by (auto simp: flamegraph_lines_def folded_stack_def Let_def show_int_def)
  moreover have "flamegraph_lines sy r = [] \<longleftrightarrow> r_data r = []" by (simp add: flamegraph_lines_def)
  ultimately show ?thesis
    by (simp add: write_folded_def write_chunks_ok concat_folded_chunks flamegraph_with_options_def Let_def)
qed

lemma flamegraph_lines_folded_witness:
  "concat (map (\<lambda>l. l @ newline)
       (flamegraph_lines demo_symbolizer (demo_report\<lparr>r_data := [(demo_frames [''work'', ''main''], 3)]\<rparr>))) =
     fst (write_folded demo_symbolizer (\<lambda>_. None) [] (demo_report\<lparr>r_data := [(demo_frames [''work'', ''main''], 3)]\<rparr>))"
  by (rule conjunct1 [OF flamegraph_lines_folded [where from_lines = "\<lambda>_ _ out. (out, Inr ())"]]) simp

end
