(* ===== verification/Pprof.thy ===== *)
theory Pprof
  imports Report_Formats
begin

text \<open>
  The pprof export of a CPU report: the message types of \<^verbatim>\<open>src/proto/perftools.profiles.rs\<close> and \<^verbatim>\<open>Report::pprof\<close> of
  \<^verbatim>\<open>src/src/report.rs\<close>. The order in which a \<^verbatim>\<open>HashSet\<close> yields its elements is an argument, \<open>hs_iter\<close>. The tables are read
  back by \<open>decode_str\<close>, \<open>decode_location\<close> and \<open>decode_sample\<close>; the symbol table built by \<open>intern_symbol\<close> is shared with
  the heap profile (theory \<open>Alloc\<close>), whose code for it is the same.
\<close>

section \<open>Messages\<close>

record ValueType =
  vt_ty :: i64
  vt_unit :: i64

record Label =
  lb_key :: i64
  lb_str :: i64
  lb_num :: i64
  lb_num_unit :: i64

record Sample =
  s_location_id :: "u64 list"
  s_value :: "i64 list"
  s_label :: "Label list"

record Mapping =
  m_id :: u64
  m_memory_start :: u64
  m_memory_limit :: u64
  m_file_offset :: u64
  m_filename :: i64
  m_build_id :: i64
  m_has_functions :: bool
  m_has_filenames :: bool
  m_has_line_numbers :: bool
  m_has_inline_frames :: bool

record Line =
  l_function_id :: u64
  l_line :: i64

record Location =
  loc_id :: u64
  loc_mapping_id :: u64
  loc_address :: u64
  loc_line :: "Line list"
  loc_is_folded :: bool

record Function =
  f_id :: u64
  f_name :: i64
  f_system_name :: i64
  f_filename :: i64
  f_start_line :: i64

record Profile =
  pf_sample_type :: "ValueType list"
  pf_sample :: "Sample list"
  pf_mapping :: "Mapping list"
  pf_location :: "Location list"
  pf_function :: "Function list"
  pf_string_table :: "string list"
  pf_drop_frames :: i64
  pf_keep_frames :: i64
  pf_time_nanos :: i64
  pf_duration_nanos :: i64
  pf_period_type :: "ValueType option"
  pf_period :: i64
  pf_comment :: "i64 list"
  pf_default_sample_type :: i64

section \<open>String and symbol tables\<close>

definition string_index :: "string list \<Rightarrow> (string, nat) hashmap" where
  "string_index str_tbl = fold (\<lambda>(index, name) m. hm_insert (=) m name index) (List.enumerate 0 str_tbl) []"

definition str_get :: "(string, nat) hashmap \<Rightarrow> string \<Rightarrow> i64 outcome" where
  "str_get strings s = (case hm_get (=) strings s of Some i \<Rightarrow> Return (of_nat i) | None \<Rightarrow> Panic UnwrapFailed)"

record symbol_table =
  st_functions :: "(string, u64) hashmap"
  st_fn_tbl :: "Function list"
  st_loc_tbl :: "Location list"

definition symbol_table_empty :: symbol_table where
  "symbol_table_empty = \<lparr>st_functions = [], st_fn_tbl = [], st_loc_tbl = []\<rparr>"

definition intern_symbol ::
  "symbolizer \<Rightarrow> (string, nat) hashmap \<Rightarrow> symbol_table \<Rightarrow> Symbol \<Rightarrow> (symbol_table \<times> u64) outcome" where
  "intern_symbol sy strings st symbol =
     (let name = Symbol_name (sy_demangle sy) symbol
      in case hm_get (=) (st_functions st) name of
           Some loc_idx \<Rightarrow> Return (st, loc_idx)
         | None \<Rightarrow>
             (let function_id = of_nat (length (st_fn_tbl st)) + 1
              in obind (str_get strings name) (\<lambda>n.
                 obind (str_get strings (Symbol_sys_name symbol)) (\<lambda>s.
                 obind (str_get strings (Symbol_filename symbol)) (\<lambda>f.
                   Return
                     (\<lparr>st_functions = hm_insert (=) (st_functions st) name function_id,
                       st_fn_tbl = st_fn_tbl st @ [\<lparr>f_id = function_id, f_name = n, f_system_name = s,
                                                    f_filename = f, f_start_line = 0\<rparr>],
                       st_loc_tbl = st_loc_tbl st @ [\<lparr>loc_id = function_id, loc_mapping_id = 0, loc_address = 0,
                         loc_line = [\<lparr>l_function_id = function_id, l_line = ucast (Symbol_lineno symbol)\<rparr>],
                         loc_is_folded = False\<rparr>]\<rparr>,
                      function_id))))))"

primrec intern_symbols ::
  "symbolizer \<Rightarrow> (string, nat) hashmap \<Rightarrow> symbol_table \<Rightarrow> Symbol list \<Rightarrow> (symbol_table \<times> u64 list) outcome" where
  "intern_symbols sy strings st [] = Return (st, [])"
| "intern_symbols sy strings st (symbol # symbols) =
     obind (intern_symbol sy strings st symbol) (\<lambda>(st, loc).
     obind (intern_symbols sy strings st symbols) (\<lambda>(st, locs). Return (st, loc # locs)))"

definition symbol_strings :: "symbolizer \<Rightarrow> Symbol \<Rightarrow> string list" where
  "symbol_strings sy s = [Symbol_name (sy_demangle sy) s, Symbol_sys_name s, Symbol_filename s]"

definition frames_strings :: "symbolizer \<Rightarrow> Frames \<Rightarrow> string list" where
  "frames_strings sy key =
     Frames_thread_name_or_id key # concat (map (symbol_strings sy) (concat (fr_frames key)))"

definition missed_comment :: "Report \<Rightarrow> string" where
  "missed_comment r = ''missed samples due to lock contention: '' @ show_nat (unat (r_missed_samples r))"

definition pprof_strings :: "symbolizer \<Rightarrow> Report \<Rightarrow> string list" where
  "pprof_strings sy r =
     concat (map (\<lambda>(key, _). frames_strings sy key) (r_data r))
     @ [''samples'', ''count'', ''cpu'', ''nanoseconds'', ''thread''] @ [missed_comment r]"

definition string_table :: "(string list \<Rightarrow> string list) \<Rightarrow> string list \<Rightarrow> string list" where
  "string_table hs_iter dedup_str = [''''] @ hs_iter (remdups dedup_str)"

section \<open>Samples\<close>

text \<open>\<^verbatim>\<open>a / b\<close> on \<^verbatim>\<open>i64\<close>.\<close>

definition i64_div :: "i64 \<Rightarrow> i64 \<Rightarrow> i64 outcome" where
  "i64_div a b =
     (if b = 0 then Panic DivideByZero
      else if sint a = - (2 ^ 63) \<and> sint b = - 1 then Panic DivideOverflow
      else Return (word_of_int (sint a sdiv sint b)))"

definition pprof_sample ::
  "symbolizer \<Rightarrow> (string, nat) hashmap \<Rightarrow> i32 \<Rightarrow> symbol_table \<Rightarrow> Frames \<times> isize
     \<Rightarrow> (symbol_table \<times> Sample) outcome" where
  "pprof_sample sy strings frequency st e =
     (case e of (key, count) \<Rightarrow>
        obind (intern_symbols sy strings st (concat (fr_frames key))) (\<lambda>(st, locs).
        obind (str_get strings ''thread'') (\<lambda>thread.
        obind (str_get strings (Frames_thread_name_or_id key)) (\<lambda>name.
        obind (i64_div (count * 1000000000) (word_of_int (sint frequency))) (\<lambda>nanos.
          Return (st, \<lparr>s_location_id = locs, s_value = [count, nanos],
                       s_label = [\<lparr>lb_key = thread, lb_str = name, lb_num = 0, lb_num_unit = 0\<rparr>]\<rparr>))))))"

primrec pprof_samples ::
  "symbolizer \<Rightarrow> (string, nat) hashmap \<Rightarrow> i32 \<Rightarrow> symbol_table \<Rightarrow> (Frames, isize) hashmap
     \<Rightarrow> (symbol_table \<times> Sample list) outcome" where
  "pprof_samples sy strings frequency st [] = Return (st, [])"
| "pprof_samples sy strings frequency st (e # es) =
     obind (pprof_sample sy strings frequency st e) (\<lambda>(st, s).
     obind (pprof_samples sy strings frequency st es) (\<lambda>(st, ss). Return (st, s # ss)))"

definition time_nanos :: "SystemTime \<Rightarrow> i64" where
  "time_nanos t = word_of_int (max 0 t)"

definition Report_pprof :: "(string list \<Rightarrow> string list) \<Rightarrow> symbolizer \<Rightarrow> Report \<Rightarrow> Profile outcome" where
  "Report_pprof hs_iter sy r =
     (let str_tbl = string_table hs_iter (pprof_strings sy r);
          strings = string_index str_tbl;
          timing = r_timing r
      in obind (pprof_samples sy strings (rt_frequency timing) symbol_table_empty (r_data r)) (\<lambda>(st, samples).
         obind (str_get strings ''samples'') (\<lambda>samples_ty.
         obind (str_get strings ''count'') (\<lambda>count_unit.
         obind (str_get strings ''cpu'') (\<lambda>cpu_ty.
         obind (str_get strings ''nanoseconds'') (\<lambda>nanos_unit.
         obind (str_get strings (missed_comment r)) (\<lambda>missed_comment_idx.
         obind (i64_div 1000000000 (word_of_int (sint (rt_frequency timing)))) (\<lambda>period.
           let samples_value = \<lparr>vt_ty = samples_ty, vt_unit = count_unit\<rparr>;
               time_value = \<lparr>vt_ty = cpu_ty, vt_unit = nanos_unit\<rparr>
           in Return \<lparr>pf_sample_type = [samples_value, time_value], pf_sample = samples, pf_mapping = [],
                pf_location = st_loc_tbl st, pf_function = st_fn_tbl st, pf_string_table = str_tbl,
                pf_drop_frames = 0, pf_keep_frames = 0, pf_time_nanos = time_nanos (rt_start_time timing),
                pf_duration_nanos = of_nat (rt_duration timing), pf_period_type = Some time_value,
                pf_period = period, pf_comment = [missed_comment_idx], pf_default_sample_type = 0\<rparr>))))))))"

section \<open>Reading a profile\<close>

definition decode_str :: "string list \<Rightarrow> i64 \<Rightarrow> string" where
  "decode_str tbl i = tbl ! unat i"

definition decode_location :: "string list \<Rightarrow> Function list \<Rightarrow> Location list \<Rightarrow> u64 \<Rightarrow> string" where
  "decode_location tbl fns locs lid =
     (let loc = locs ! (unat lid - 1); line = hd (loc_line loc); f = fns ! (unat (l_function_id line) - 1)
      in decode_str tbl (f_name f))"

definition decode_sample :: "Profile \<Rightarrow> Sample \<Rightarrow> string \<times> string list" where
  "decode_sample p s =
     (decode_str (pf_string_table p) (lb_str (hd (s_label s))),
      map (decode_location (pf_string_table p) (pf_function p) (pf_location p)) (s_location_id s))"

section \<open>String tables\<close>

definition hs_order :: "(string list \<Rightarrow> string list) \<Rightarrow> bool" where
  "hs_order hs_iter \<longleftrightarrow> (\<forall>xs. distinct xs \<longrightarrow> distinct (hs_iter xs) \<and> set (hs_iter xs) = set xs)"

lemma string_index_get:
  "hm_get (=) (string_index tbl) s =
     (if s \<in> set tbl then Some (length tbl - 1 - length (takeWhile (\<lambda>x. x \<noteq> s) (rev tbl))) else None)"
proof (induction tbl rule: rev_induct)
  case (snoc x tbl)
  have "string_index (tbl @ [x]) = hm_insert (=) (string_index tbl) x (length tbl)"
    by (simp add: string_index_def enumerate_append_eq)
  with snoc show ?case by (auto simp: std_eq.get_insert)
qed (simp add: string_index_def)

lemma string_index_nth:
  assumes "s \<in> set tbl"
  obtains j where "hm_get (=) (string_index tbl) s = Some j" and "j < length tbl" and "tbl ! j = s"
proof -
  let ?k = "length (takeWhile (\<lambda>x. x \<noteq> s) (rev tbl))"
  have "takeWhile (\<lambda>x. x \<noteq> s) (rev tbl) \<noteq> rev tbl" using assms by (auto simp: takeWhile_eq_all_conv)
  then have "?k \<noteq> length (rev tbl)" by (metis takeWhile_eq_take take_all order_refl)
  then have k: "?k < length (rev tbl)" using length_takeWhile_le [of "\<lambda>x. x \<noteq> s" "rev tbl"] by linarith
  have "rev tbl ! ?k = s" using nth_length_takeWhile [OF k] by simp
  then have "tbl ! (length tbl - 1 - ?k) = s" using k by (simp add: rev_nth)
  with that [of "length tbl - 1 - ?k"] k assms show ?thesis by (simp add: string_index_get)
qed

lemma str_get_ok:
  assumes "s \<in> set tbl" and "length tbl < 2 ^ 63"
  shows "\<exists>i. str_get (string_index tbl) s = Return i \<and> unat i < length tbl \<and> decode_str tbl i = s"
proof (rule string_index_nth [OF assms(1)])
  fix j
  assume j: "hm_get (=) (string_index tbl) s = Some j" "j < length tbl" "tbl ! j = s"
  then have "unat (of_nat j :: i64) = j" using assms(2) by (intro unat_of_nat_small) simp
  with j show ?thesis by (intro exI [of _ "of_nat j"]) (simp add: str_get_def decode_str_def)
qed

lemma set_string_table: "hs_order hs_iter \<Longrightarrow> set (string_table hs_iter xs) = insert '''' (set xs)"
  by (simp add: string_table_def hs_order_def)

lemma length_string_table: "hs_order hs_iter \<Longrightarrow> length (string_table hs_iter xs) \<le> Suc (length xs)"
proof -
  assume "hs_order hs_iter"
  then have "length (hs_iter (remdups xs)) = length (remdups xs)"
    by (metis distinct_card distinct_remdups hs_order_def)
  then show ?thesis by (simp add: string_table_def length_remdups_leq)
qed

section \<open>Symbol tables\<close>

text \<open>
  \<open>ns\<close> are the names of the functions in the order of the tables: entry \<open>i\<close> of both tables has the id \<open>i + 1\<close> and
  stands for the name \<open>ns ! i\<close>.
\<close>

definition names_id :: "string list \<Rightarrow> u64 \<Rightarrow> string \<Rightarrow> bool" where
  "names_id ns i n \<longleftrightarrow> (\<exists>k < length ns. ns ! k = n \<and> i = of_nat (Suc k))"

definition table_inv :: "string list \<Rightarrow> string list \<Rightarrow> symbol_table \<Rightarrow> bool" where
  "table_inv tbl ns st \<longleftrightarrow> distinct ns \<and> set ns \<subseteq> set tbl \<and>
     length (st_fn_tbl st) = length ns \<and> length (st_loc_tbl st) = length ns \<and>
     (\<forall>k < length ns. f_id (st_fn_tbl st ! k) = of_nat (Suc k) \<and> decode_str tbl (f_name (st_fn_tbl st ! k)) = ns ! k \<and>
        loc_id (st_loc_tbl st ! k) = of_nat (Suc k) \<and>
        map l_function_id (loc_line (st_loc_tbl st ! k)) = [of_nat (Suc k)]) \<and>
     (\<forall>n i. hm_get (=) (st_functions st) n = Some i \<longleftrightarrow> names_id ns i n)"

lemma names_id_append: "names_id ns i n \<Longrightarrow> names_id (ns @ ms) i n"
  by (auto simp: names_id_def nth_append intro: trans_less_add1)

lemma table_inv_empty: "table_inv tbl [] symbol_table_empty"
  by (simp add: table_inv_def symbol_table_empty_def names_id_def)

lemma table_inv_length: "table_inv tbl ns st \<Longrightarrow> length ns \<le> length tbl"
  by (metis card_length card_mono distinct_card finite_set le_trans table_inv_def)

lemma intern_symbol_spec:
  assumes inv: "table_inv tbl ns st" and "set (symbol_strings sy s) \<subseteq> set tbl" and "length tbl < 2 ^ 63"
  shows "\<exists>st' i ms. intern_symbol sy (string_index tbl) st s = Return (st', i) \<and>
    table_inv tbl (ns @ ms) st' \<and> names_id (ns @ ms) i (Symbol_name (sy_demangle sy) s)"
proof (cases "hm_get (=) (st_functions st) (Symbol_name (sy_demangle sy) s)")
  case (Some i)
  then have "names_id ns i (Symbol_name (sy_demangle sy) s)" using inv by (simp add: table_inv_def)
  with Some inv show ?thesis
    by (intro exI [of _ st] exI [of _ i] exI [of _ "[]"]) (simp add: intern_symbol_def)
next
  case None
  let ?n = "Symbol_name (sy_demangle sy) s" and ?id = "of_nat (Suc (length ns)) :: u64"
  have strs: "?n \<in> set tbl" "Symbol_sys_name s \<in> set tbl" "Symbol_filename s \<in> set tbl"
    using assms(2) by (simp_all add: symbol_strings_def)
  obtain a b c where abc: "str_get (string_index tbl) ?n = Return a" "decode_str tbl a = ?n"
    "str_get (string_index tbl) (Symbol_sys_name s) = Return b"
    "str_get (string_index tbl) (Symbol_filename s) = Return c"
    using strs [THEN str_get_ok [OF _ assms(3)]] by blast
  have "\<not> names_id ns i ?n" for i using None inv by (metis option.distinct(1) table_inv_def)
  then have fresh: "?n \<notin> set ns" by (auto simp: names_id_def in_set_conv_nth)
  have len: "length (st_fn_tbl st) = length ns" "length (st_loc_tbl st) = length ns"
    using inv by (simp_all add: table_inv_def)
  obtain st' where st': "intern_symbol sy (string_index tbl) st s = Return (st', ?id)"
    "st' = \<lparr>st_functions = hm_insert (=) (st_functions st) ?n ?id,
      st_fn_tbl = st_fn_tbl st @ [\<lparr>f_id = ?id, f_name = a, f_system_name = b, f_filename = c, f_start_line = 0\<rparr>],
      st_loc_tbl = st_loc_tbl st @ [\<lparr>loc_id = ?id, loc_mapping_id = 0, loc_address = 0,
        loc_line = [\<lparr>l_function_id = ?id, l_line = ucast (Symbol_lineno s)\<rparr>], loc_is_folded = False\<rparr>]\<rparr>"
    using None abc len by (simp add: intern_symbol_def Let_def add.commute)
  have ids: "names_id (ns @ [?n]) i m \<longleftrightarrow> (if m = ?n then i = ?id else names_id ns i m)" for i m
    using fresh by (auto simp: names_id_def nth_append less_Suc_eq in_set_conv_nth)
  have "table_inv tbl (ns @ [?n]) st'"
    using inv fresh strs(1) len abc(2) None
    by (auto simp: table_inv_def st'(2) nth_append less_Suc_eq std_eq.get_insert ids)
  moreover have "names_id (ns @ [?n]) ?id ?n" by (simp add: ids)
  ultimately show ?thesis using st'(1) by blast
qed

lemma intern_symbols_spec:
  assumes "table_inv tbl ns st" and "set (concat (map (symbol_strings sy) ss)) \<subseteq> set tbl" and "length tbl < 2 ^ 63"
  shows "\<exists>st' ids ms. intern_symbols sy (string_index tbl) st ss = Return (st', ids) \<and>
    table_inv tbl (ns @ ms) st' \<and> list_all2 (names_id (ns @ ms)) ids (map (Symbol_name (sy_demangle sy)) ss)"
  using assms(1,2)
proof (induction ss arbitrary: st ns)
  case Nil
  then show ?case by (intro exI [of _ st] exI [of _ "[]"]) simp
next
  case (Cons s ss)
  obtain st1 i ms where 1: "intern_symbol sy (string_index tbl) st s = Return (st1, i)"
    "table_inv tbl (ns @ ms) st1" "names_id (ns @ ms) i (Symbol_name (sy_demangle sy) s)"
    using intern_symbol_spec [OF Cons.prems(1) _ assms(3), of sy s] Cons.prems(2) by auto
  obtain st2 ids ms' where 2: "intern_symbols sy (string_index tbl) st1 ss = Return (st2, ids)"
    "table_inv tbl ((ns @ ms) @ ms') st2"
    "list_all2 (names_id ((ns @ ms) @ ms')) ids (map (Symbol_name (sy_demangle sy)) ss)"
    using Cons.IH [OF 1(2)] Cons.prems(2) by auto
  show ?case
    using 1 2 names_id_append [OF 1(3), of ms']
    by (intro exI [of _ st2] exI [of _ "i # ids"] exI [of _ "ms @ ms'"]) simp
qed

lemma decode_location_eq:
  assumes "table_inv tbl ns st" and "length tbl < 2 ^ 63" and "names_id ns i n"
  shows "decode_location tbl (st_fn_tbl st) (st_loc_tbl st) i = n \<and> unat i \<noteq> 0 \<and> unat i \<le> length (st_loc_tbl st)"
proof -
  obtain k where k: "k < length ns" "ns ! k = n" "i = of_nat (Suc k)" using assms(3) by (auto simp: names_id_def)
  have "Suc k < 2 ^ 64" using k(1) table_inv_length [OF assms(1)] assms(2) by simp
  then have i: "unat i = Suc k" unfolding k(3) by (rule unat_of_nat_small)
  have "map l_function_id (loc_line (st_loc_tbl st ! k)) = [i]" "decode_str tbl (f_name (st_fn_tbl st ! k)) = n"
    using assms(1) k by (auto simp: table_inv_def)
  then have "l_function_id (hd (loc_line (st_loc_tbl st ! k))) = i" by (metis list.map_disc_iff list.map_sel(1) list.sel(1) not_Cons_self2)
  with i k(1) assms(1) \<open>decode_str tbl (f_name (st_fn_tbl st ! k)) = n\<close> show ?thesis
    by (simp add: decode_location_def Let_def table_inv_def)
qed

lemma decode_locations:
  assumes "table_inv tbl ns st" and "length tbl < 2 ^ 63" and "list_all2 (names_id ns) ids names"
  shows "map (decode_location tbl (st_fn_tbl st) (st_loc_tbl st)) ids = names"
  using assms(3) decode_location_eq [OF assms(1,2)] by (induction rule: list_all2_induct) auto

section \<open>Samples and profiles\<close>

lemma i64_div_pos:
  assumes "0 < sint (f :: i32)"
  shows "i64_div a (word_of_int (sint f)) = Return (word_of_int (sint a sdiv sint f))"
proof -
  have "sint f < 2 ^ 31" using sint_lt [of f] by simp
  then have "signed_take_bit 63 (sint f) = sint f" using assms by (intro signed_take_bit_int_eq_self) auto
  then have "sint (word_of_int (sint f) :: i64) = sint f"
    using sint_sbintrunc' [of "sint f", where 'a = 64] by simp
  moreover have "(word_of_int (sint f) :: i64) \<noteq> 0"
    using assms calculation by (metis less_irrefl sint_0)
  ultimately show ?thesis using assms by (simp add: i64_div_def)
qed

definition sample_value :: "i32 \<Rightarrow> isize \<Rightarrow> i64 list" where
  "sample_value f count = [count, word_of_int (sint (count * 1000000000) sdiv sint f)]"

definition sample_of :: "symbolizer \<Rightarrow> string list \<Rightarrow> i32 \<Rightarrow> string list \<Rightarrow> Sample \<Rightarrow> Frames \<times> isize \<Rightarrow> bool" where
  "sample_of sy tbl f ns s e \<longleftrightarrow>
     list_all2 (names_id ns) (s_location_id s) (map (Symbol_name (sy_demangle sy)) (concat (fr_frames (fst e)))) \<and>
     s_value s = sample_value f (snd e) \<and>
     (\<exists>k l. s_label s = [\<lparr>lb_key = k, lb_str = l, lb_num = 0, lb_num_unit = 0\<rparr>] \<and>
        decode_str tbl k = ''thread'' \<and> decode_str tbl l = Frames_thread_name_or_id (fst e))"

lemma sample_of_append: "sample_of sy tbl f ns s e \<Longrightarrow> sample_of sy tbl f (ns @ ms) s e"
  unfolding sample_of_def by (blast intro: list_all2_mono names_id_append)

lemma pprof_sample_spec:
  assumes "table_inv tbl ns st" and "set (frames_strings sy (fst e)) \<union> {''thread''} \<subseteq> set tbl"
    and "length tbl < 2 ^ 63" and "0 < sint f"
  shows "\<exists>st' s ms. pprof_sample sy (string_index tbl) f st e = Return (st', s) \<and>
    table_inv tbl (ns @ ms) st' \<and> sample_of sy tbl f (ns @ ms) s e"
proof -
  obtain key count where e: "e = (key, count)" by (cases e)
  obtain st' ids ms where 1: "intern_symbols sy (string_index tbl) st (concat (fr_frames key)) = Return (st', ids)"
    "table_inv tbl (ns @ ms) st'"
    "list_all2 (names_id (ns @ ms)) ids (map (Symbol_name (sy_demangle sy)) (concat (fr_frames key)))"
    using intern_symbols_spec [OF assms(1) _ assms(3), of sy "concat (fr_frames key)"] assms(2)
    by (auto simp: frames_strings_def e)
  obtain k l where kl: "str_get (string_index tbl) ''thread'' = Return k" "decode_str tbl k = ''thread''"
    "str_get (string_index tbl) (Frames_thread_name_or_id key) = Return l"
    "decode_str tbl l = Frames_thread_name_or_id key"
    using str_get_ok [OF _ assms(3), of "''thread''"] str_get_ok [OF _ assms(3), of "Frames_thread_name_or_id key"] assms(2)
    by (auto simp: frames_strings_def e)
  let ?s = "\<lparr>s_location_id = ids, s_value = sample_value f count,
    s_label = [\<lparr>lb_key = k, lb_str = l, lb_num = 0, lb_num_unit = 0\<rparr>]\<rparr>"
  have "pprof_sample sy (string_index tbl) f st e = Return (st', ?s)"
    using 1(1) kl i64_div_pos [OF assms(4)] by (simp add: pprof_sample_def e sample_value_def)
  moreover have "sample_of sy tbl f (ns @ ms) ?s e" using 1(3) kl by (simp add: sample_of_def e)
  ultimately show ?thesis using 1(2) by blast
qed

lemma pprof_samples_spec:
  assumes "table_inv tbl ns st" and "\<forall>e \<in> set es. set (frames_strings sy (fst e)) \<subseteq> set tbl"
    and "''thread'' \<in> set tbl" and "length tbl < 2 ^ 63" and "0 < sint f"
  shows "\<exists>st' ss ms. pprof_samples sy (string_index tbl) f st es = Return (st', ss) \<and>
    table_inv tbl (ns @ ms) st' \<and> list_all2 (sample_of sy tbl f (ns @ ms)) ss es"
  using assms(1,2)
proof (induction es arbitrary: st ns)
  case Nil
  then show ?case by (intro exI [of _ st] exI [of _ "[]"]) simp
next
  case (Cons e es)
  obtain st1 s ms where 1: "pprof_sample sy (string_index tbl) f st e = Return (st1, s)"
    "table_inv tbl (ns @ ms) st1" "sample_of sy tbl f (ns @ ms) s e"
    using pprof_sample_spec [OF Cons.prems(1) _ assms(4,5), of sy e] Cons.prems(2) assms(3) by auto
  obtain st2 ss ms' where 2: "pprof_samples sy (string_index tbl) f st1 es = Return (st2, ss)"
    "table_inv tbl ((ns @ ms) @ ms') st2" "list_all2 (sample_of sy tbl f ((ns @ ms) @ ms')) ss es"
    using Cons.IH [OF 1(2)] Cons.prems(2) by auto
  show ?case
    using 1 2 sample_of_append [OF 1(3), of ms']
    by (intro exI [of _ st2] exI [of _ "s # ss"] exI [of _ "ms @ ms'"]) simp
qed

lemma pprof_strings_frames: "e \<in> set (r_data r) \<Longrightarrow> set (frames_strings sy (fst e)) \<subseteq> set (pprof_strings sy r)"
  using UN_upper [of e "set (r_data r)" "\<lambda>e. set (frames_strings sy (fst e))"]
  by (auto simp: pprof_strings_def split_beta)

definition pprof_constants :: "Report \<Rightarrow> string set" where
  "pprof_constants r = {''samples'', ''count'', ''cpu'', ''nanoseconds'', ''thread'', missed_comment r}"

lemma pprof_table:
  assumes "hs_order hs_iter" and "length (pprof_strings sy r) < 2 ^ 62"
  defines "tbl \<equiv> string_table hs_iter (pprof_strings sy r)"
  shows "length tbl < 2 ^ 63" and "\<forall>e \<in> set (r_data r). set (frames_strings sy (fst e)) \<subseteq> set tbl"
    and "pprof_constants r \<subseteq> set tbl"
    and "s \<in> pprof_constants r \<Longrightarrow> \<exists>i. str_get (string_index tbl) s = Return i \<and> decode_str tbl i = s"
proof -
  have set: "set (pprof_strings sy r) \<subseteq> set tbl" using set_string_table [OF assms(1)] by (auto simp: tbl_def)
  show len: "length tbl < 2 ^ 63"
    using length_string_table [OF assms(1), of "pprof_strings sy r"] assms(2) by (simp add: tbl_def)
  show "\<forall>e \<in> set (r_data r). set (frames_strings sy (fst e)) \<subseteq> set tbl"
    using pprof_strings_frames set by blast
  show const: "pprof_constants r \<subseteq> set tbl"
    using set by (auto simp: pprof_strings_def pprof_constants_def)
  show "\<exists>i. str_get (string_index tbl) s = Return i \<and> decode_str tbl i = s" if "s \<in> pprof_constants r"
    using str_get_ok [OF _ len, of s] const that by blast
qed

lemma samples_decode:
  assumes "table_inv tbl ns st" and "length tbl < 2 ^ 63" and "list_all2 (sample_of sy tbl f ns) ss es"
    and p: "pf_string_table p = tbl" "pf_function p = st_fn_tbl st" "pf_location p = st_loc_tbl st"
  shows "map (decode_sample p) ss = map (\<lambda>(key, count). (Frames_thread_name_or_id key,
      map (Symbol_name (sy_demangle sy)) (concat (fr_frames key)))) es \<and>
    map s_value ss = map (\<lambda>(key, count). sample_value f count) es"
  using assms(3)
proof (induction rule: list_all2_induct)
  case (Cons s ss e es)
  have "map (decode_location tbl (st_fn_tbl st) (st_loc_tbl st)) (s_location_id s) =
      map (Symbol_name (sy_demangle sy)) (concat (fr_frames (fst e)))"
    using Cons.hyps(1) by (intro decode_locations [OF assms(1,2)]) (simp add: sample_of_def)
  with Cons show ?case by (auto simp: decode_sample_def p sample_of_def split_beta)
qed simp

lemma table_inv_ids:
  assumes "table_inv tbl ns st"
  shows "map f_id (st_fn_tbl st) = map of_nat [1..<Suc (length (st_fn_tbl st))]"
    and "map loc_id (st_loc_tbl st) = map f_id (st_fn_tbl st)"
    and "distinct (map (\<lambda>f. decode_str tbl (f_name f)) (st_fn_tbl st))"
proof -
  have inv: "length (st_fn_tbl st) = length ns" "length (st_loc_tbl st) = length ns" "distinct ns"
    "\<forall>k < length ns. f_id (st_fn_tbl st ! k) = of_nat (Suc k) \<and> decode_str tbl (f_name (st_fn_tbl st ! k)) = ns ! k \<and>
      loc_id (st_loc_tbl st ! k) = of_nat (Suc k)"
    using assms by (auto simp: table_inv_def)
  show "map f_id (st_fn_tbl st) = map of_nat [1..<Suc (length (st_fn_tbl st))]"
    "map loc_id (st_loc_tbl st) = map f_id (st_fn_tbl st)"
    using inv by (auto intro!: nth_equalityI simp del: upt_Suc of_nat_Suc)
  have "map (\<lambda>f. decode_str tbl (f_name f)) (st_fn_tbl st) = ns" using inv by (auto intro!: nth_equalityI)
  with inv(3) show "distinct (map (\<lambda>f. decode_str tbl (f_name f)) (st_fn_tbl st))" by simp
qed

section \<open>Properties\<close>

lemma pprof_reads_back:
  assumes "hs_order hs_iter" and "0 < sint (rt_frequency (r_timing r))" and "length (pprof_strings sy r) < 2 ^ 62"
  shows "\<exists>p. Report_pprof hs_iter sy r = Return p \<and> hd (pf_string_table p) = '''' \<and>
    map f_id (pf_function p) = map of_nat [1..<Suc (length (pf_function p))] \<and>
    map loc_id (pf_location p) = map f_id (pf_function p) \<and>
    distinct (map (\<lambda>f. decode_str (pf_string_table p) (f_name f)) (pf_function p)) \<and>
    map (decode_sample p) (pf_sample p) =
      map (\<lambda>(key, count). (Frames_thread_name_or_id key, map (Symbol_name (sy_demangle sy)) (concat (fr_frames key))))
        (r_data r) \<and>
    map s_value (pf_sample p) = map (\<lambda>(key, count). sample_value (rt_frequency (r_timing r)) count) (r_data r) \<and>
    map (decode_str (pf_string_table p)) (pf_comment p) = [missed_comment r]"
proof -
  let ?tbl = "string_table hs_iter (pprof_strings sy r)" and ?f = "rt_frequency (r_timing r)"
  note tbl = pprof_table [OF assms(1,3)]
  have thread: "''thread'' \<in> set ?tbl" using tbl(3) by (auto simp: pprof_constants_def)
  obtain st ss ns where 1: "pprof_samples sy (string_index ?tbl) ?f symbol_table_empty (r_data r) = Return (st, ss)"
    "table_inv ?tbl ns st" "list_all2 (sample_of sy ?tbl ?f ns) ss (r_data r)"
    using pprof_samples_spec [OF table_inv_empty tbl(2) thread tbl(1) assms(2)] by auto
  have "\<exists>i. str_get (string_index ?tbl) s = Return i"
    if "s \<in> {''samples'', ''count'', ''cpu'', ''nanoseconds''}" for s
    using tbl(4) [of s] that by (auto simp: pprof_constants_def)
  then obtain a b c d where idx: "str_get (string_index ?tbl) ''samples'' = Return a"
    "str_get (string_index ?tbl) ''count'' = Return b" "str_get (string_index ?tbl) ''cpu'' = Return c"
    "str_get (string_index ?tbl) ''nanoseconds'' = Return d" by (metis insertCI)
  obtain m where m: "str_get (string_index ?tbl) (missed_comment r) = Return m" "decode_str ?tbl m = missed_comment r"
    using tbl(4) [of "missed_comment r"] by (auto simp: pprof_constants_def)
  obtain p where p: "Report_pprof hs_iter sy r = Return p" "pf_string_table p = ?tbl" "pf_function p = st_fn_tbl st"
    "pf_location p = st_loc_tbl st" "pf_sample p = ss" "pf_comment p = [m]"
    using 1(1) idx m i64_div_pos [OF assms(2)] by (simp add: Report_pprof_def Let_def)
  have "hd ?tbl = ''''" by (simp add: string_table_def)
  then show ?thesis
    using samples_decode [OF 1(2) tbl(1) 1(3) p(2-4)] table_inv_ids [OF 1(2)] p m(2) by (intro exI [of _ p]) simp
qed

text \<open>
  C14. The pprof profile says what the report says. For any order of the string set, any symbolizer and a
  positive frequency, with fewer than \<open>2 ^ 62\<close> strings: \<^verbatim>\<open>pprof\<close> returns; the string table starts with the empty
  string; functions and locations are numbered from 1 alike and no function name occurs twice; and there is
  one sample for each stack of the report, in order, whose label and locations decode to the thread and
  the symbol names of the stack and whose values are the count and the count times the period in nanoseconds.
\<close>

theorem pprof_decodes:
  assumes "hs_order hs_iter" and "0 < sint (rt_frequency (r_timing r))" and "length (pprof_strings sy r) < 2 ^ 62"
  shows "\<exists>p. Report_pprof hs_iter sy r = Return p \<and> hd (pf_string_table p) = '''' \<and>
    map f_id (pf_function p) = map of_nat [1..<Suc (length (pf_function p))] \<and>
    map loc_id (pf_location p) = map f_id (pf_function p) \<and>
    distinct (map (\<lambda>f. decode_str (pf_string_table p) (f_name f)) (pf_function p)) \<and>
    map (decode_sample p) (pf_sample p) =
      map (\<lambda>(key, count). (Frames_thread_name_or_id key, map (Symbol_name (sy_demangle sy)) (concat (fr_frames key))))
        (r_data r) \<and>
    map s_value (pf_sample p) = map (\<lambda>(key, count). sample_value (rt_frequency (r_timing r)) count) (r_data r) \<and>
    map (decode_str (pf_string_table p)) (pf_comment p) = [missed_comment r]"
  by (rule pprof_reads_back [OF assms])

theorem pprof_decodes_witness:
  "\<exists>p. Report_pprof (\<lambda>xs. xs) demo_symbolizer demo_report = Return p \<and>
     map (decode_sample p) (pf_sample p) = [(''main'', [''work'', ''main'']), (''main'', [''main'']), (''main'', [])]"
proof -
  have "hs_order (\<lambda>xs. xs)" by (simp add: hs_order_def)
  moreover have "length (pprof_strings demo_symbolizer demo_report) < 2 ^ 62"
    by (simp add: pprof_strings_def frames_strings_def symbol_strings_def demo_report_def demo_frames_def)
  moreover have "0 < sint (rt_frequency (r_timing demo_report))" by (simp add: demo_report_def ReportTiming_default_def)
  ultimately have "\<exists>p. Report_pprof (\<lambda>xs. xs) demo_symbolizer demo_report = Return p \<and>
      map (decode_sample p) (pf_sample p) = map (\<lambda>(key, count). (Frames_thread_name_or_id key,
        map (Symbol_name (sy_demangle demo_symbolizer)) (concat (fr_frames key)))) (r_data demo_report)"
    using pprof_decodes [of "\<lambda>xs. xs" demo_report demo_symbolizer] by blast
  then show ?thesis by (simp add: demo_report_simps)
qed

lemma sint_word_of_int_small64: "- (2 ^ 63) \<le> k \<Longrightarrow> k < 2 ^ 63 \<Longrightarrow> sint (word_of_int k :: i64) = k"
  using sint_sbintrunc' [of k, where 'a = 64] by (simp add: signed_take_bit_int_eq_self)

lemma sample_value_exact:
  assumes "0 < sint f" and "0 \<le> sint count" and "sint count \<le> 9223372036"
  shows "map sint (sample_value f count) = [sint count, sint count * 10 ^ 9 div sint f]"
proof -
  have "count * 1000000000 = word_of_int (sint count * 1000000000)" by simp
  then have prod: "sint (count * 1000000000) = sint count * 1000000000"
    using assms(2,3) by (simp only:) (rule sint_word_of_int_small64; simp)
  have "sint count * 1000000000 div sint f \<le> sint count * 1000000000 div 1"
    using assms by (intro zdiv_mono2) auto
  then have "sint count * 1000000000 div sint f < 2 ^ 63" using assms(3) by simp
  moreover have "0 \<le> sint count * 1000000000 div sint f" using assms by (simp add: pos_imp_zdiv_nonneg_iff)
  ultimately have "sint (word_of_int (sint count * 1000000000 div sint f) :: i64) = sint count * 1000000000 div sint f"
    by (intro sint_word_of_int_small64) auto
  then show ?thesis using assms by (simp add: sample_value_def prod sdiv_nonneg)
qed

lemma i64_div_zero: "sint (f :: i32) = 0 \<Longrightarrow> i64_div a (word_of_int (sint f)) = Panic DivideByZero"
  unfolding i64_div_def by (metis word_of_int_0)

lemma pprof_sample_zero:
  assumes "table_inv tbl ns st" and "set (frames_strings sy (fst e)) \<union> {''thread''} \<subseteq> set tbl"
    and "length tbl < 2 ^ 63" and "sint f = 0"
  shows "pprof_sample sy (string_index tbl) f st e = Panic DivideByZero"
proof -
  obtain key count where e: "e = (key, count)" by (cases e)
  obtain st' ids where "intern_symbols sy (string_index tbl) st (concat (fr_frames key)) = Return (st', ids)"
    using intern_symbols_spec [OF assms(1) _ assms(3), of sy "concat (fr_frames key)"] assms(2)
    by (auto simp: frames_strings_def e)
  moreover obtain k l where "str_get (string_index tbl) ''thread'' = Return k"
    "str_get (string_index tbl) (Frames_thread_name_or_id key) = Return l"
    using str_get_ok [OF _ assms(3), of "''thread''"] str_get_ok [OF _ assms(3), of "Frames_thread_name_or_id key"] assms(2)
    by (auto simp: frames_strings_def e)
  ultimately show ?thesis using i64_div_zero [OF assms(4)] by (simp add: pprof_sample_def e)
qed

text \<open>
  The frequency is divided by. On a report whose timing has frequency 0 \<^verbatim>\<open>pprof\<close> panics, samples or not; and for
  a positive frequency a count of at most \<open>9223372036\<close> gets exactly the nanoseconds \<open>count * 10 ^ 9 div frequency\<close>
  (beyond that the product wraps around).
\<close>

lemma pprof_division:
  "(sint (rt_frequency (r_timing r)) = 0 \<and> hs_order hs_iter \<and> length (pprof_strings sy r) < 2 ^ 62 \<longrightarrow>
      Report_pprof hs_iter sy r = Panic DivideByZero) \<and>
   (0 < sint f \<and> 0 \<le> sint count \<and> sint count \<le> 9223372036 \<longrightarrow>
      map sint (sample_value f count) = [sint count, sint count * 10 ^ 9 div sint f])"
proof (intro conjI impI)
  let ?tbl = "string_table hs_iter (pprof_strings sy r)" and ?f = "rt_frequency (r_timing r)"
  assume a: "sint ?f = 0 \<and> hs_order hs_iter \<and> length (pprof_strings sy r) < 2 ^ 62"
  then have h: "hs_order hs_iter" "length (pprof_strings sy r) < 2 ^ 62" and z: "sint ?f = 0" by auto
  note tbl = pprof_table [OF h]
  have str: "\<exists>i. str_get (string_index ?tbl) s = Return i" if "s \<in> pprof_constants r" for s
    using tbl(4) [OF that] by blast
  show "Report_pprof hs_iter sy r = Panic DivideByZero"
  proof (cases "r_data r")
    case Nil
    obtain a b c d m where "str_get (string_index ?tbl) ''samples'' = Return a"
      "str_get (string_index ?tbl) ''count'' = Return b" "str_get (string_index ?tbl) ''cpu'' = Return c"
      "str_get (string_index ?tbl) ''nanoseconds'' = Return d"
      "str_get (string_index ?tbl) (missed_comment r) = Return m"
      using str unfolding pprof_constants_def by (metis insertCI)
    then show ?thesis using i64_div_zero [OF z] Nil by (simp add: Report_pprof_def Let_def)
  next
    case (Cons e es)
    have "pprof_sample sy (string_index ?tbl) ?f symbol_table_empty e = Panic DivideByZero"
      using pprof_sample_zero [OF table_inv_empty _ tbl(1) z, of sy e] tbl(2,3) Cons
      by (auto simp: pprof_constants_def)
    then show ?thesis using Cons by (simp add: Report_pprof_def Let_def)
  qed
qed (simp add: sample_value_exact)

lemma pprof_division_witness:
  "Report_pprof (\<lambda>xs. xs) demo_symbolizer (demo_report\<lparr>r_timing := ReportTiming_default\<lparr>rt_frequency := 0\<rparr>\<rparr>) =
     Panic DivideByZero \<and>
   map sint (sample_value 100 7) = [7, 70000000]"
proof -
  let ?r = "demo_report\<lparr>r_timing := ReportTiming_default\<lparr>rt_frequency := 0\<rparr>\<rparr>"
  have "hs_order (\<lambda>xs. xs)" by (simp add: hs_order_def)
  moreover have "length (pprof_strings demo_symbolizer ?r) < 2 ^ 62"
    by (simp add: pprof_strings_def frames_strings_def symbol_strings_def demo_report_def demo_frames_def)
  ultimately show ?thesis
    using pprof_division [of ?r "\<lambda>xs. xs" demo_symbolizer 100 7] by simp
qed

end
