(* ===== verification/Alloc.thy ===== *)
theory Alloc
  imports Pprof
begin

text \<open>
  The sampling heap profiler of \<^verbatim>\<open>src/src/alloc.rs\<close>: the sharded table of sampled live blocks, the call sites with
  their counters, the allocator hooks with their per-thread state, and the heap report. The wrapped allocator is
  an argument through its results (the pointers), the unwinder through the frames it offers. A heap is the module's
  statics together with the thread-local cells of every thread. Locks are not poisoned: no code panics while
  holding one. The abstract specification is the map from sampled live pointers to call stack and size (\<open>heap_abs\<close>).
\<close>

section \<open>State\<close>

definition DEFAULT_SAMPLE_RATE :: usize where
  "DEFAULT_SAMPLE_RATE = 512 * 1024"

definition NUM_SHARDS :: nat where
  "NUM_SHARDS = 32"

type_synonym Shard = "(usize, u64 \<times> usize) hashmap"

record CallsiteData =
  cd_ips :: "usize list"
  cd_alloc_objects :: u64
  cd_alloc_bytes :: u64
  cd_inuse_objects :: i64
  cd_inuse_bytes :: i64

record HeapState =
  hs_shards :: "Shard list"
  hs_callsite_map :: "(usize list, u64) hashmap"
  hs_callsites :: "(u64, CallsiteData) hashmap"
  hs_next_callsite_id :: u64

definition HeapState_new :: HeapState where
  "HeapState_new =
     \<lparr>hs_shards = replicate NUM_SHARDS [], hs_callsite_map = [], hs_callsites = [], hs_next_callsite_id = 1\<rparr>"

definition HeapState_reset :: "HeapState \<Rightarrow> HeapState" where
  "HeapState_reset s =
     \<lparr>hs_shards = map (\<lambda>_. []) (hs_shards s), hs_callsite_map = [], hs_callsites = [], hs_next_callsite_id = 1\<rparr>"

record tls =
  tl_in_alloc :: bool
  tl_bytes_left :: isize

record heap =
  h_profiling :: bool
  h_rate :: usize
  h_state :: HeapState
  h_tls :: "nat \<Rightarrow> tls"

definition heap_init :: heap where
  "heap_init = \<lparr>h_profiling = False, h_rate = DEFAULT_SAMPLE_RATE, h_state = HeapState_new,
     h_tls = (\<lambda>_. \<lparr>tl_in_alloc = False, tl_bytes_left = 0\<rparr>)\<rparr>"

section \<open>Recording\<close>

fun trace_ips :: "nat \<Rightarrow> usize list \<Rightarrow> usize list \<Rightarrow> usize list" where
  "trace_ips depth [] ips = ips"
| "trace_ips depth (i # rest) ips =
     (let ips = ips @ [i] in if length ips < depth then trace_ips depth rest ips else ips)"

definition callsite_of :: "HeapState \<Rightarrow> usize list \<Rightarrow> HeapState \<times> u64" where
  "callsite_of s ips =
     (case hm_get (=) (hs_callsite_map s) ips of
        Some i \<Rightarrow> (s, i)
      | None \<Rightarrow>
          (let i = hs_next_callsite_id s
           in (s\<lparr>hs_next_callsite_id := i + 1,
                 hs_callsites := hm_insert (=) (hs_callsites s) i
                   \<lparr>cd_ips = ips, cd_alloc_objects = 0, cd_alloc_bytes = 0, cd_inuse_objects = 0, cd_inuse_bytes = 0\<rparr>,
                 hs_callsite_map := hm_insert (=) (hs_callsite_map s) ips i\<rparr>, i)))"

definition shard_idx :: "usize \<Rightarrow> nat" where
  "shard_idx ptr = unat (drop_bit 4 ptr) mod NUM_SHARDS"

definition update_callsite :: "u64 \<Rightarrow> (CallsiteData \<Rightarrow> CallsiteData) \<Rightarrow> HeapState \<Rightarrow> HeapState" where
  "update_callsite i f s =
     (case hm_get (=) (hs_callsites s) i of
        Some d \<Rightarrow> s\<lparr>hs_callsites := hm_insert (=) (hs_callsites s) i (f d)\<rparr>
      | None \<Rightarrow> s)"

definition record_sample :: "config \<Rightarrow> usize list \<Rightarrow> usize \<Rightarrow> usize \<Rightarrow> HeapState \<Rightarrow> HeapState" where
  "record_sample cfg frames ptr sz s =
     (let ips = trace_ips (MAX_DEPTH cfg) frames [];
          (s, callsite_id) = callsite_of s ips;
          s = update_callsite callsite_id (\<lambda>d. d
                \<lparr>cd_alloc_objects := cd_alloc_objects d + 1, cd_alloc_bytes := cd_alloc_bytes d + sz,
                 cd_inuse_objects := cd_inuse_objects d + 1, cd_inuse_bytes := cd_inuse_bytes d + sz\<rparr>) s
      in s\<lparr>hs_shards := (hs_shards s)[shard_idx ptr :=
             hm_insert (=) (hs_shards s ! shard_idx ptr) ptr (callsite_id, sz)]\<rparr>)"

definition record_dealloc :: "usize \<Rightarrow> HeapState \<Rightarrow> HeapState" where
  "record_dealloc ptr s =
     (let shard = hs_shards s ! shard_idx ptr;
          removed = hm_get (=) shard ptr;
          s = s\<lparr>hs_shards := (hs_shards s)[shard_idx ptr := hm_remove (=) shard ptr]\<rparr>
      in case removed of
           Some (callsite_id, alloc_size) \<Rightarrow>
             update_callsite callsite_id (\<lambda>d. d
               \<lparr>cd_inuse_objects := cd_inuse_objects d - 1, cd_inuse_bytes := cd_inuse_bytes d - alloc_size\<rparr>) s
         | None \<Rightarrow> s)"

section \<open>The allocator hooks\<close>

text \<open>
  \<open>ptr\<close> and \<open>new_ptr\<close> are what the wrapped allocator returns. Recording allocates itself; the nested calls find
  \<^verbatim>\<open>IN_ALLOC\<close> set and leave the heap as it is (lemma \<open>hooks_reentrant\<close>), so they are not part of the definitions.
\<close>

definition set_tls :: "nat \<Rightarrow> tls \<Rightarrow> heap \<Rightarrow> heap" where
  "set_tls tid t h = h\<lparr>h_tls := (h_tls h)(tid := t)\<rparr>"

definition AllocProfiler_alloc ::
  "config \<Rightarrow> nat \<Rightarrow> usize list \<Rightarrow> usize \<Rightarrow> usize \<Rightarrow> heap \<Rightarrow> usize \<times> heap" where
  "AllocProfiler_alloc cfg tid frames ptr sz h =
     (if ptr = 0 \<or> \<not> h_profiling h then (ptr, h)
      else let t = h_tls h tid
           in if tl_in_alloc t then (ptr, h)
              else let remaining = tl_bytes_left t - sz
                   in if sint remaining \<le> 0
                      then let h = set_tls tid \<lparr>tl_in_alloc = True, tl_bytes_left = h_rate h\<rparr> h;
                               h = h\<lparr>h_state := record_sample cfg frames ptr sz (h_state h)\<rparr>
                           in (ptr, set_tls tid ((h_tls h tid)\<lparr>tl_in_alloc := False\<rparr>) h)
                      else (ptr, set_tls tid (t\<lparr>tl_bytes_left := remaining\<rparr>) h))"

definition AllocProfiler_dealloc :: "nat \<Rightarrow> usize \<Rightarrow> heap \<Rightarrow> heap" where
  "AllocProfiler_dealloc tid ptr h =
     (if h_profiling h
      then let t = h_tls h tid
           in if \<not> tl_in_alloc t
              then let h = set_tls tid (t\<lparr>tl_in_alloc := True\<rparr>) h;
                       h = h\<lparr>h_state := record_dealloc ptr (h_state h)\<rparr>
                   in set_tls tid (t\<lparr>tl_in_alloc := False\<rparr>) h
              else h
      else h)"

definition AllocProfiler_realloc ::
  "config \<Rightarrow> nat \<Rightarrow> usize list \<Rightarrow> usize \<Rightarrow> usize \<Rightarrow> usize \<Rightarrow> heap \<Rightarrow> usize \<times> heap" where
  "AllocProfiler_realloc cfg tid frames ptr new_ptr new_size h =
     (if new_ptr = 0 \<or> \<not> h_profiling h then (new_ptr, h)
      else let t = h_tls h tid
           in if \<not> tl_in_alloc t
              then let h = set_tls tid (t\<lparr>tl_in_alloc := True\<rparr>) h;
                       h = h\<lparr>h_state := record_dealloc ptr (h_state h)\<rparr>;
                       h = h\<lparr>h_state := record_sample cfg frames new_ptr new_size (h_state h)\<rparr>
                   in (new_ptr, set_tls tid (t\<lparr>tl_in_alloc := False\<rparr>) h)
              else (new_ptr, h))"

definition alloc_start :: "heap \<Rightarrow> heap" where
  "alloc_start h = h\<lparr>h_profiling := True\<rparr>"

definition alloc_stop :: "heap \<Rightarrow> heap" where
  "alloc_stop h = h\<lparr>h_profiling := False\<rparr>"

definition alloc_is_active :: "heap \<Rightarrow> bool" where
  "alloc_is_active h = h_profiling h"

definition alloc_reset :: "heap \<Rightarrow> heap" where
  "alloc_reset h = h\<lparr>h_state := HeapState_reset (h_state h)\<rparr>"

definition set_sample_rate :: "usize \<Rightarrow> heap \<Rightarrow> heap" where
  "set_sample_rate rate_bytes h = h\<lparr>h_rate := if rate_bytes = 0 then 1 else rate_bytes\<rparr>"

definition alloc_sample_rate :: "heap \<Rightarrow> usize" where
  "alloc_sample_rate h = h_rate h"

section \<open>Heap reports\<close>

record HeapRecord =
  hr_frames :: Frames
  hr_alloc_objects :: u64
  hr_alloc_bytes :: u64
  hr_inuse_objects :: i64
  hr_inuse_bytes :: i64

record HeapReport =
  hp_records :: "HeapRecord list"
  hp_sample_rate :: usize
  hp_timestamp :: SystemTime

definition total_inuse_bytes :: "HeapReport \<Rightarrow> i64" where
  "total_inuse_bytes r = (\<Sum>rec\<leftarrow>hp_records r. word_max0 (hr_inuse_bytes rec))"

definition total_alloc_bytes :: "HeapReport \<Rightarrow> u64" where
  "total_alloc_bytes r = (\<Sum>rec\<leftarrow>hp_records r. hr_alloc_bytes rec)"

definition heap_timing :: "HeapReport \<Rightarrow> ReportTiming" where
  "heap_timing r = \<lparr>rt_frequency = ucast (hp_sample_rate r), rt_start_time = hp_timestamp r, rt_duration = 0,
     rt_clock_type = Cpu\<rparr>"

definition to_inuse_report :: "HeapReport \<Rightarrow> Report" where
  "to_inuse_report r =
     \<lparr>r_data = fold (\<lambda>rec data. if 0 < sint (hr_inuse_bytes rec)
         then hm_insert Frames_eq data (hr_frames rec) (hr_inuse_bytes rec) else data) (hp_records r) [],
      r_timing = heap_timing r, r_missed_samples = 0\<rparr>"

definition to_alloc_report :: "HeapReport \<Rightarrow> Report" where
  "to_alloc_report r =
     \<lparr>r_data = fold (\<lambda>rec data. if 0 < hr_alloc_bytes rec
         then hm_insert Frames_eq data (hr_frames rec) (hr_alloc_bytes rec) else data) (hp_records r) [],
      r_timing = heap_timing r, r_missed_samples = 0\<rparr>"

text \<open>\<open>now i\<close> is the time read for record \<open>i\<close>, \<open>timestamp\<close> the one read at the end.\<close>

definition heap_frames :: "(usize \<Rightarrow> BtSymbol list) \<Rightarrow> usize list \<Rightarrow> SystemTime \<Rightarrow> Frames" where
  "heap_frames resolve ips now =
     \<lparr>fr_frames = filter (\<lambda>symbols. symbols \<noteq> []) (map (\<lambda>i. map Symbol_from (resolve i)) ips),
      fr_thread_name = [], fr_thread_id = 0, fr_sample_timestamp = now\<rparr>"

definition heap_record :: "(usize \<Rightarrow> BtSymbol list) \<Rightarrow> SystemTime \<Rightarrow> CallsiteData \<Rightarrow> HeapRecord" where
  "heap_record resolve now data =
     \<lparr>hr_frames = heap_frames resolve (cd_ips data) now, hr_alloc_objects = cd_alloc_objects data,
      hr_alloc_bytes = cd_alloc_bytes data, hr_inuse_objects = cd_inuse_objects data,
      hr_inuse_bytes = cd_inuse_bytes data\<rparr>"

definition heap_report ::
  "(usize \<Rightarrow> BtSymbol list) \<Rightarrow> (nat \<Rightarrow> SystemTime) \<Rightarrow> SystemTime \<Rightarrow> heap \<Rightarrow> HeapReport Result" where
  "heap_report resolve now timestamp h = Inr
     \<lparr>hp_records = map (\<lambda>(i, (_, data)). heap_record resolve (now i) data)
        (List.enumerate 0 (hs_callsites (h_state h))),
      hp_sample_rate = h_rate h, hp_timestamp = timestamp\<rparr>"

section \<open>The heap profile\<close>

definition heap_strings :: "symbolizer \<Rightarrow> HeapReport \<Rightarrow> string list" where
  "heap_strings sy r =
     concat (map (\<lambda>rec. frames_strings sy (hr_frames rec)) (hp_records r))
     @ [''alloc_objects'', ''alloc_space'', ''inuse_objects'', ''inuse_space'', ''count'', ''bytes'', ''space'']"

definition heap_sample ::
  "symbolizer \<Rightarrow> (string, nat) hashmap \<Rightarrow> symbol_table \<Rightarrow> HeapRecord \<Rightarrow> (symbol_table \<times> Sample) outcome" where
  "heap_sample sy strings st rec =
     obind (intern_symbols sy strings st (concat (fr_frames (hr_frames rec)))) (\<lambda>(st, locs).
       Return (st, \<lparr>s_location_id = locs,
         s_value = [hr_alloc_objects rec, hr_alloc_bytes rec, word_max0 (hr_inuse_objects rec),
                    word_max0 (hr_inuse_bytes rec)],
         s_label = []\<rparr>))"

primrec heap_samples ::
  "symbolizer \<Rightarrow> (string, nat) hashmap \<Rightarrow> symbol_table \<Rightarrow> HeapRecord list \<Rightarrow> (symbol_table \<times> Sample list) outcome" where
  "heap_samples sy strings st [] = Return (st, [])"
| "heap_samples sy strings st (rec # recs) =
     obind (heap_sample sy strings st rec) (\<lambda>(st, s).
     obind (heap_samples sy strings st recs) (\<lambda>(st, ss). Return (st, s # ss)))"

definition value_type :: "(string, nat) hashmap \<Rightarrow> string \<Rightarrow> string \<Rightarrow> ValueType outcome" where
  "value_type strings ty unit =
     obind (str_get strings ty) (\<lambda>t. obind (str_get strings unit) (\<lambda>u. Return \<lparr>vt_ty = t, vt_unit = u\<rparr>))"

definition HeapReport_pprof :: "(string list \<Rightarrow> string list) \<Rightarrow> symbolizer \<Rightarrow> HeapReport \<Rightarrow> Profile outcome" where
  "HeapReport_pprof hs_iter sy r =
     (let str_tbl = string_table hs_iter (heap_strings sy r);
          strings = string_index str_tbl
      in obind (heap_samples sy strings symbol_table_empty (hp_records r)) (\<lambda>(st, samples).
         obind (value_type strings ''alloc_objects'' ''count'') (\<lambda>v1.
         obind (value_type strings ''alloc_space'' ''bytes'') (\<lambda>v2.
         obind (value_type strings ''inuse_objects'' ''count'') (\<lambda>v3.
         obind (value_type strings ''inuse_space'' ''bytes'') (\<lambda>v4.
         obind (value_type strings ''space'' ''bytes'') (\<lambda>period_type.
           Return \<lparr>pf_sample_type = [v1, v2, v3, v4], pf_sample = samples, pf_mapping = [],
             pf_location = st_loc_tbl st, pf_function = st_fn_tbl st, pf_string_table = str_tbl,
             pf_drop_frames = 0, pf_keep_frames = 0, pf_time_nanos = time_nanos (hp_timestamp r),
             pf_duration_nanos = 0, pf_period_type = Some period_type, pf_period = hp_sample_rate r,
             pf_comment = [], pf_default_sample_type = 0\<rparr>)))))))"

section \<open>The table as a map\<close>

definition heap_abs :: "HeapState \<Rightarrow> usize \<Rightarrow> (usize list \<times> usize) option" where
  "heap_abs s ptr =
     (case hm_get (=) (hs_shards s ! shard_idx ptr) ptr of
        Some (i, sz) \<Rightarrow> map_option (\<lambda>d. (cd_ips d, sz)) (hm_get (=) (hs_callsites s) i)
      | None \<Rightarrow> None)"

definition blocks :: "(usize \<Rightarrow> (usize list \<times> usize) option) \<Rightarrow> usize list \<Rightarrow> usize set" where
  "blocks m ips = {p. \<exists>sz. m p = Some (ips, sz)}"

definition block_bytes :: "(usize \<Rightarrow> (usize list \<times> usize) option) \<Rightarrow> usize set \<Rightarrow> i64" where
  "block_bytes m ps = (\<Sum>p \<in> ps. snd (the (m p)))"

definition counters_ok :: "(usize \<Rightarrow> (usize list \<times> usize) option) \<Rightarrow> CallsiteData \<Rightarrow> bool" where
  "counters_ok m d \<longleftrightarrow>
     cd_inuse_objects d = of_nat (card (blocks m (cd_ips d))) \<and>
     cd_inuse_bytes d = block_bytes m (blocks m (cd_ips d))"

definition heap_inv :: "HeapState \<Rightarrow> bool" where
  "heap_inv s \<longleftrightarrow> length (hs_shards s) = NUM_SHARDS \<and>
     (\<forall>i < NUM_SHARDS. hm_distinct (=) (hs_shards s ! i)) \<and> hm_distinct (=) (hs_callsites s) \<and>
     (\<forall>ips i. hm_get (=) (hs_callsite_map s) ips = Some i \<longleftrightarrow>
        (\<exists>d. hm_get (=) (hs_callsites s) i = Some d \<and> cd_ips d = ips)) \<and>
     (\<forall>i d. hm_get (=) (hs_callsites s) i = Some d \<longrightarrow> i < hs_next_callsite_id s) \<and>
     (\<forall>p i sz. hm_get (=) (hs_shards s ! shard_idx p) p = Some (i, sz) \<longrightarrow>
        (\<exists>d. hm_get (=) (hs_callsites s) i = Some d)) \<and>
     (\<forall>i d. hm_get (=) (hs_callsites s) i = Some d \<longrightarrow> counters_ok (heap_abs s) d)"

lemma shard_idx_less: "shard_idx p < NUM_SHARDS"
  by (simp add: shard_idx_def NUM_SHARDS_def)

lemma hm_get_in_keys: "hm_get (=) m p = Some v \<Longrightarrow> p \<in> fst ` set m"
  by (induction m) (auto split: if_splits)

lemma finite_heap_abs: "finite {p. heap_abs s p \<noteq> None}"
proof (rule finite_subset)
  show "{p. heap_abs s p \<noteq> None} \<subseteq> (\<Union>k \<in> {..<NUM_SHARDS}. fst ` set (hs_shards s ! k))"
  proof
    fix p
    assume "p \<in> {p. heap_abs s p \<noteq> None}"
    then obtain v where "hm_get (=) (hs_shards s ! shard_idx p) p = Some v"
      by (auto simp: heap_abs_def split: option.splits)
    then have "p \<in> fst ` set (hs_shards s ! shard_idx p)" by (rule hm_get_in_keys)
    with shard_idx_less [of p] show "p \<in> (\<Union>k \<in> {..<NUM_SHARDS}. fst ` set (hs_shards s ! k))" by blast
  qed
qed simp

lemma finite_blocks: "finite (blocks (heap_abs s) ips)"
  by (rule finite_subset [OF _ finite_heap_abs]) (auto simp: blocks_def)

lemma trace_ips_eq: "length acc < depth \<Longrightarrow> trace_ips depth xs acc = acc @ take (depth - length acc) xs"
proof (induction xs arbitrary: acc)
  case (Cons x xs)
  show ?case
  proof (cases "Suc (length acc) < depth")
    case True
    then have "depth - length acc = Suc (depth - Suc (length acc))" by simp
    with True Cons.IH [of "acc @ [x]"] show ?thesis by simp
  next
    case False
    then have "depth - length acc = 1" using Cons.prems by simp
    with False show ?thesis by simp
  qed
qed simp

lemma counters_insert:
  assumes "counters_ok m d" and "finite (blocks m (cd_ips d))" and "m p = None" and "cd_ips d = ips"
  shows "counters_ok (m(p \<mapsto> (ips, sz)))
    (d\<lparr>cd_alloc_objects := a, cd_alloc_bytes := b,
       cd_inuse_objects := cd_inuse_objects d + 1, cd_inuse_bytes := cd_inuse_bytes d + sz\<rparr>)"
proof -
  have blk: "blocks (m(p \<mapsto> (ips, sz))) ips = insert p (blocks m ips)" "p \<notin> blocks m ips"
    using assms(3) by (auto simp: blocks_def)
  have "block_bytes (m(p \<mapsto> (ips, sz))) (insert p (blocks m ips)) = sz + block_bytes m (blocks m ips)"
    using assms(2,4) blk(2) by (auto simp: block_bytes_def intro!: sum.cong)
  with assms blk show ?thesis by (simp add: counters_ok_def)
qed

lemma counters_remove:
  assumes "counters_ok m d" and "finite (blocks m (cd_ips d))" and "m p = Some (cd_ips d, sz)"
  shows "counters_ok (m(p := None))
    (d\<lparr>cd_inuse_objects := cd_inuse_objects d - 1, cd_inuse_bytes := cd_inuse_bytes d - sz\<rparr>)"
proof -
  let ?B = "blocks m (cd_ips d)"
  have blk: "blocks (m(p := None)) (cd_ips d) = ?B - {p}" "p \<in> ?B"
    using assms(3) by (auto simp: blocks_def)
  have "block_bytes (m(p := None)) (?B - {p}) = block_bytes m (?B - {p})"
    by (auto simp: block_bytes_def intro!: sum.cong)
  moreover have "block_bytes m ?B = sz + block_bytes m (?B - {p})"
    using sum.remove [OF assms(2) blk(2), of "\<lambda>q. snd (the (m q))"] assms(3) by (simp add: block_bytes_def)
  moreover have "card ?B = Suc (card (?B - {p}))" using card_Suc_Diff1 [OF assms(2) blk(2)] by simp
  ultimately show ?thesis using assms(1) blk(1) by (simp add: counters_ok_def)
qed

lemma counters_other:
  assumes "counters_ok m d" and "\<And>ips sz. cd_ips d = ips \<Longrightarrow> m' p \<noteq> Some (ips, sz) \<and> m p \<noteq> Some (ips, sz)"
    and "\<And>q. q \<noteq> p \<Longrightarrow> m' q = m q"
  shows "counters_ok m' d"
proof -
  have blk: "q \<in> blocks m' (cd_ips d) \<longleftrightarrow> q \<in> blocks m (cd_ips d)" for q
    using assms(2) [OF refl] assms(3) [of q] by (cases "q = p") (auto simp: blocks_def)
  have "p \<notin> blocks m (cd_ips d)" using assms(2) [OF refl] by (simp add: blocks_def)
  then have "block_bytes m' (blocks m (cd_ips d)) = block_bytes m (blocks m (cd_ips d))"
    unfolding block_bytes_def using assms(3) by (intro sum.cong refl) (metis)
  moreover have "blocks m' (cd_ips d) = blocks m (cd_ips d)" using blk by (rule set_eqI)
  ultimately show ?thesis using assms(1) by (simp add: counters_ok_def)
qed

lemma heap_abs_ips:
  "heap_inv s \<Longrightarrow> heap_abs s p = Some (ips, sz) \<Longrightarrow> hm_get (=) (hs_callsite_map s) ips \<noteq> None"
  by (fastforce simp: heap_inv_def heap_abs_def split: option.splits)

lemma heap_inv_entry:
  "heap_inv s \<Longrightarrow> hm_get (=) (hs_shards s ! shard_idx p) p = Some (i, sz) \<Longrightarrow>
     \<exists>d. hm_get (=) (hs_callsites s) i = Some d"
  unfolding heap_inv_def by blast

lemma heap_inv_callsite_unique:
  assumes "heap_inv s" and "hm_get (=) (hs_callsites s) i = Some d" and "hm_get (=) (hs_callsites s) j = Some d'"
    and "cd_ips d = cd_ips d'"
  shows "i = j"
proof -
  have "hm_get (=) (hs_callsite_map s) (cd_ips d) = Some i" "hm_get (=) (hs_callsite_map s) (cd_ips d) = Some j"
    using assms unfolding heap_inv_def by metis+
  then show ?thesis by simp
qed

lemma callsite_of_spec:
  assumes inv: "heap_inv s" and room: "unat (hs_next_callsite_id s) < 2 ^ 64 - 1"
  obtains s' i d where "callsite_of s ips = (s', i)" and "heap_inv s'" and "heap_abs s' = heap_abs s"
    and "hm_get (=) (hs_callsites s') i = Some d" and "cd_ips d = ips"
    and "unat (hs_next_callsite_id s') \<le> Suc (unat (hs_next_callsite_id s))"
proof (cases "hm_get (=) (hs_callsite_map s) ips")
  case (Some i)
  then obtain d where "hm_get (=) (hs_callsites s) i = Some d" "cd_ips d = ips"
    using inv unfolding heap_inv_def by blast
  with Some that [of s i d] inv show ?thesis by (simp add: callsite_of_def)
next
  case None
  let ?i = "hs_next_callsite_id s"
  let ?d = "\<lparr>cd_ips = ips, cd_alloc_objects = 0, cd_alloc_bytes = 0, cd_inuse_objects = 0, cd_inuse_bytes = 0\<rparr>"
  let ?s = "s\<lparr>hs_next_callsite_id := ?i + 1, hs_callsites := hm_insert (=) (hs_callsites s) ?i ?d,
    hs_callsite_map := hm_insert (=) (hs_callsite_map s) ips ?i\<rparr>"
  have small: "unat (?i + 1) = Suc (unat ?i)" using room by (simp add: unat_word_ariths)
  have lt: "i < ?i + 1" if "i < ?i \<or> i = ?i" for i using that small by (auto simp: word_less_nat_alt)
  have old: "i < ?i" if "hm_get (=) (hs_callsites s) i = Some d" for i d
    using inv that unfolding heap_inv_def by blast
  then have fresh: "hm_get (=) (hs_callsites s) ?i = None" by (metis less_irrefl not_Some_eq)
  have no_ips: "cd_ips d \<noteq> ips" if "hm_get (=) (hs_callsites s) i = Some d" for i d
    using that None inv unfolding heap_inv_def by (metis option.distinct(1))
  note entries = heap_inv_entry [OF inv]
  have abs: "heap_abs ?s = heap_abs s"
  proof
    fix p
    show "heap_abs ?s p = heap_abs s p"
      using entries [of p] fresh by (fastforce simp: heap_abs_def std_eq.get_insert split: option.splits)
  qed
  have "blocks (heap_abs s) ips = {}" using heap_abs_ips [OF inv, of _ ips] None by (force simp: blocks_def)
  then have new: "counters_ok (heap_abs s) ?d" by (simp add: counters_ok_def block_bytes_def)
  have "heap_inv ?s"
    unfolding heap_inv_def abs
  proof (intro conjI allI impI)
    show "hm_get (=) (hs_callsite_map ?s) xs = Some i \<longleftrightarrow>
        (\<exists>d. hm_get (=) (hs_callsites ?s) i = Some d \<and> cd_ips d = xs)" for xs i
      using inv None fresh no_ips unfolding heap_inv_def by (auto simp: std_eq.get_insert)
    show "i < hs_next_callsite_id ?s" if "hm_get (=) (hs_callsites ?s) i = Some d" for i d
      using that old lt by (auto simp: std_eq.get_insert split: if_splits)
    show "counters_ok (heap_abs s) d" if "hm_get (=) (hs_callsites ?s) i = Some d" for i d
      using that new inv unfolding heap_inv_def by (auto simp: std_eq.get_insert split: if_splits)
  qed (use inv entries in \<open>auto simp: heap_inv_def std_eq.get_insert intro: std_eq.distinct_insert\<close>)
  with that [of ?s ?i ?d] abs None small show ?thesis
    by (simp add: callsite_of_def Let_def std_eq.get_insert)
qed

text \<open>One entry of one shard and one call site change together.\<close>

lemma heap_inv_update:
  assumes inv: "heap_inv s" and d: "hm_get (=) (hs_callsites s) i = Some d" "cd_ips d' = cd_ips d"
    and sh: "hm_distinct (=) sh" "\<And>p. hm_get (=) sh p = (if p = ptr then v else hm_get (=) (hs_shards s ! shard_idx ptr) p)"
    and v: "v = None \<or> (\<exists>sz. v = Some (i, sz))"
    and m: "m = (heap_abs s)(ptr := map_option (\<lambda>x. (cd_ips d, snd x)) v)"
    and cnt: "counters_ok m d'"
    and other: "heap_abs s ptr = None \<or> (\<exists>sz. heap_abs s ptr = Some (cd_ips d, sz))"
  defines "s' \<equiv> s\<lparr>hs_callsites := hm_insert (=) (hs_callsites s) i d', hs_shards := (hs_shards s)[shard_idx ptr := sh]\<rparr>"
  shows "heap_inv s' \<and> heap_abs s' = m"
proof -
  have len: "length (hs_shards s) = NUM_SHARDS" using inv by (simp add: heap_inv_def)
  have nth: "hs_shards s' ! k = (if k = shard_idx ptr then sh else hs_shards s ! k)" if "k < NUM_SHARDS" for k
    using that len by (simp add: s'_def nth_list_update)
  have get: "hm_get (=) (hs_shards s' ! shard_idx p) p = (if p = ptr then v else hm_get (=) (hs_shards s ! shard_idx p) p)" for p
    using nth [OF shard_idx_less [of p]] sh(2) [of p] by auto
  have sites: "hm_get (=) (hs_callsites s') j = (if j = i then Some d' else hm_get (=) (hs_callsites s) j)" for j
    by (simp add: s'_def std_eq.get_insert)
  have abs: "heap_abs s' = m"
  proof
    fix p
    show "heap_abs s' p = m p"
      using v d by (auto simp: heap_abs_def get sites m split: option.splits)
  qed
  have same: "(\<exists>e. hm_get (=) (hs_callsites s') j = Some e \<and> cd_ips e = ips) \<longleftrightarrow>
      (\<exists>e. hm_get (=) (hs_callsites s) j = Some e \<and> cd_ips e = ips)" for j ips
    using d by (auto simp: sites)
  have counters: "counters_ok m e" if "j \<noteq> i" "hm_get (=) (hs_callsites s) j = Some e" for j e
  proof (rule counters_other [where m = "heap_abs s" and p = ptr])
    show "counters_ok (heap_abs s) e" using inv that unfolding heap_inv_def by blast
    have "cd_ips e \<noteq> cd_ips d" using heap_inv_callsite_unique [OF inv that(2) d(1)] that(1) by blast
    then show "m ptr \<noteq> Some (ips, sz) \<and> heap_abs s ptr \<noteq> Some (ips, sz)" if "cd_ips e = ips" for ips sz
      using that other v by (auto simp: m)
    show "m q = heap_abs s q" if "q \<noteq> ptr" for q using that by (simp add: m)
  qed
  have "heap_inv s'"
    unfolding heap_inv_def abs same
  proof (intro conjI allI impI)
    show "length (hs_shards s') = NUM_SHARDS" by (simp add: s'_def len)
    show "hm_distinct (=) (hs_shards s' ! k)" if "k < NUM_SHARDS" for k
      using nth [OF that] sh(1) inv that by (simp add: heap_inv_def)
    show "hm_distinct (=) (hs_callsites s')"
      using inv by (simp add: s'_def heap_inv_def std_eq.distinct_insert)
    show "hm_get (=) (hs_callsite_map s') ips = Some j \<longleftrightarrow>
        (\<exists>e. hm_get (=) (hs_callsites s) j = Some e \<and> cd_ips e = ips)" for ips j
      using inv unfolding heap_inv_def by (simp add: s'_def)
    show "j < hs_next_callsite_id s'" if "hm_get (=) (hs_callsites s') j = Some e" for j e
      using that inv d(1) unfolding heap_inv_def sites by (auto simp: s'_def split: if_splits)
    show "\<exists>e. hm_get (=) (hs_callsites s') j = Some e"
      if "hm_get (=) (hs_shards s' ! shard_idx p) p = Some (j, sz)" for p j sz
      using that v heap_inv_entry [OF inv, of p j sz] unfolding get sites by (auto split: if_splits)
    show "counters_ok m e" if "hm_get (=) (hs_callsites s') j = Some e" for j e
      using that cnt counters unfolding sites by (auto split: if_splits)
  qed
  with abs show ?thesis by simp
qed

definition site_ips :: "config \<Rightarrow> usize list \<Rightarrow> usize list" where
  "site_ips cfg frames = take (MAX_DEPTH cfg) frames"

lemma trace_ips_site: "trace_ips (MAX_DEPTH cfg) frames [] = site_ips cfg frames"
  using trace_ips_eq [of "[]" "MAX_DEPTH cfg" frames] by (simp add: site_ips_def MAX_DEPTH_def)

lemma record_sample_spec:
  assumes inv: "heap_inv s" and room: "unat (hs_next_callsite_id s) < 2 ^ 64 - 1" and new: "heap_abs s ptr = None"
  shows "heap_inv (record_sample cfg frames ptr sz s) \<and>
    heap_abs (record_sample cfg frames ptr sz s) = (heap_abs s)(ptr \<mapsto> (site_ips cfg frames, sz)) \<and>
    unat (hs_next_callsite_id (record_sample cfg frames ptr sz s)) \<le> Suc (unat (hs_next_callsite_id s))"
proof (rule callsite_of_spec [OF inv room, of "site_ips cfg frames"])
  fix s1 i d
  assume 1: "callsite_of s (site_ips cfg frames) = (s1, i)" "heap_inv s1" "heap_abs s1 = heap_abs s"
    "hm_get (=) (hs_callsites s1) i = Some d" "cd_ips d = site_ips cfg frames"
    "unat (hs_next_callsite_id s1) \<le> Suc (unat (hs_next_callsite_id s))"
  let ?d = "d\<lparr>cd_alloc_objects := cd_alloc_objects d + 1, cd_alloc_bytes := cd_alloc_bytes d + sz,
    cd_inuse_objects := cd_inuse_objects d + 1, cd_inuse_bytes := cd_inuse_bytes d + sz\<rparr>"
  let ?sh = "hm_insert (=) (hs_shards s1 ! shard_idx ptr) ptr (i, sz)"
  have eq: "record_sample cfg frames ptr sz s = s1\<lparr>hs_callsites := hm_insert (=) (hs_callsites s1) i ?d,
      hs_shards := (hs_shards s1)[shard_idx ptr := ?sh]\<rparr>"
    using 1(1,4) by (simp add: record_sample_def trace_ips_site update_callsite_def)
  have "counters_ok (heap_abs s1) d" using 1(2,4) unfolding heap_inv_def by blast
  then have cnt: "counters_ok ((heap_abs s1)(ptr := map_option (\<lambda>x. (cd_ips d, snd x)) (Some (i, sz)))) ?d"
    using counters_insert [of "heap_abs s1" d ptr "cd_ips d" sz] finite_blocks new 1(3) by simp
  have "heap_inv (record_sample cfg frames ptr sz s) \<and> heap_abs (record_sample cfg frames ptr sz s) =
      (heap_abs s1)(ptr := map_option (\<lambda>x. (cd_ips d, snd x)) (Some (i, sz)))"
    unfolding eq
  proof (rule heap_inv_update [OF 1(2,4) _ _ _ _ refl cnt])
    show "hm_distinct (=) ?sh" using 1(2) shard_idx_less [of ptr] by (intro std_eq.distinct_insert) (simp add: heap_inv_def)
    show "hm_get (=) ?sh p = (if p = ptr then Some (i, sz) else hm_get (=) (hs_shards s1 ! shard_idx ptr) p)" for p
      by (auto simp: std_eq.get_insert)
  qed (use new 1(3) in auto)
  then show ?thesis using 1(3,5,6) eq by simp
qed

lemma hm_remove_absent: "hm_get eq m k = None \<Longrightarrow> hm_remove eq m k = m"
  by (induction m) (auto split: if_splits)

lemma record_dealloc_spec:
  assumes inv: "heap_inv s"
  shows "heap_inv (record_dealloc ptr s) \<and> heap_abs (record_dealloc ptr s) = (heap_abs s)(ptr := None) \<and>
    hs_next_callsite_id (record_dealloc ptr s) = hs_next_callsite_id s"
proof (cases "hm_get (=) (hs_shards s ! shard_idx ptr) ptr")
  case None
  then have "record_dealloc ptr s = s" by (simp add: record_dealloc_def hm_remove_absent Let_def)
  moreover have "heap_abs s ptr = None" using None by (simp add: heap_abs_def)
  ultimately show ?thesis using inv by (simp add: fun_upd_idem)
next
  case (Some x)
  obtain i sz where x: "x = (i, sz)" by (cases x)
  obtain d where d: "hm_get (=) (hs_callsites s) i = Some d"
    using heap_inv_entry [OF inv] Some x by blast
  have abs: "heap_abs s ptr = Some (cd_ips d, sz)" using Some x d by (simp add: heap_abs_def)
  let ?d = "d\<lparr>cd_inuse_objects := cd_inuse_objects d - 1, cd_inuse_bytes := cd_inuse_bytes d - sz\<rparr>"
  let ?sh = "hm_remove (=) (hs_shards s ! shard_idx ptr) ptr"
  have eq: "record_dealloc ptr s = s\<lparr>hs_callsites := hm_insert (=) (hs_callsites s) i ?d,
      hs_shards := (hs_shards s)[shard_idx ptr := ?sh]\<rparr>"
    using Some x d by (simp add: record_dealloc_def update_callsite_def Let_def)
  have dist: "hm_distinct (=) (hs_shards s ! shard_idx ptr)" using inv shard_idx_less [of ptr] by (simp add: heap_inv_def)
  have "counters_ok (heap_abs s) d" using inv d unfolding heap_inv_def by blast
  then have cnt: "counters_ok ((heap_abs s)(ptr := map_option (\<lambda>x. (cd_ips d, snd x)) (None :: (u64 \<times> usize) option))) ?d"
    using counters_remove [OF _ finite_blocks abs] by simp
  have "heap_inv (record_dealloc ptr s) \<and> heap_abs (record_dealloc ptr s) =
      (heap_abs s)(ptr := map_option (\<lambda>x. (cd_ips d, snd x)) (None :: (u64 \<times> usize) option))"
    unfolding eq
  proof (rule heap_inv_update [OF inv d _ _ _ _ refl cnt])
    show "hm_distinct (=) ?sh" by (rule std_eq.distinct_remove [OF dist])
    show "hm_get (=) ?sh p = (if p = ptr then None else hm_get (=) (hs_shards s ! shard_idx ptr) p)" for p
      using std_eq.get_remove [OF dist] by auto
  qed (use abs in auto)
  then show ?thesis using eq by simp
qed

lemma HeapState_new_inv: "heap_inv HeapState_new" and HeapState_new_abs: "heap_abs HeapState_new = (\<lambda>_. None)"
  using shard_idx_less by (auto simp: heap_inv_def HeapState_new_def heap_abs_def fun_eq_iff)

lemma HeapState_reset_new: "heap_inv s \<Longrightarrow> HeapState_reset s = HeapState_new"
  by (simp add: HeapState_reset_def HeapState_new_def heap_inv_def map_replicate_const)

section \<open>Runs of the allocator\<close>

text \<open>
  What a program does to the heap while profiling is on; the backtraces and the pointers the wrapped allocator returns
  come with each call. \<open>heap_spec\<close> is the specification: which sampled blocks are live. Whether an allocation
  is sampled is decided by the byte counter of its thread.
\<close>

datatype heap_op =
    Alloc nat "usize list" usize usize
  | Dealloc nat usize
  | Realloc nat "usize list" usize usize usize

fun heap_exec :: "config \<Rightarrow> heap_op \<Rightarrow> heap \<Rightarrow> heap" where
  "heap_exec cfg (Alloc tid frames ptr sz) h = snd (AllocProfiler_alloc cfg tid frames ptr sz h)"
| "heap_exec cfg (Dealloc tid ptr) h = AllocProfiler_dealloc tid ptr h"
| "heap_exec cfg (Realloc tid frames ptr new_ptr sz) h =
     snd (AllocProfiler_realloc cfg tid frames ptr new_ptr sz h)"

definition sampled :: "heap \<Rightarrow> nat \<Rightarrow> usize \<Rightarrow> bool" where
  "sampled h tid sz \<longleftrightarrow> sint (tl_bytes_left (h_tls h tid) - sz) \<le> 0"

fun heap_spec ::
  "config \<Rightarrow> heap \<Rightarrow> heap_op \<Rightarrow> (usize \<Rightarrow> (usize list \<times> usize) option) \<Rightarrow> usize \<Rightarrow> (usize list \<times> usize) option" where
  "heap_spec cfg h (Alloc tid frames ptr sz) m =
     (if sampled h tid sz then m(ptr \<mapsto> (site_ips cfg frames, sz)) else m)"
| "heap_spec cfg h (Dealloc tid ptr) m = m(ptr := None)"
| "heap_spec cfg h (Realloc tid frames ptr new_ptr sz) m = m(ptr := None, new_ptr \<mapsto> (site_ips cfg frames, sz))"

text \<open>The wrapped allocator hands out pointers that are not in use: \<open>heap_legal A op\<close>, with \<open>A\<close> the blocks in use.\<close>

fun heap_legal :: "usize set \<Rightarrow> heap_op \<Rightarrow> bool" where
  "heap_legal A (Alloc tid frames ptr sz) \<longleftrightarrow> ptr \<noteq> 0 \<and> ptr \<notin> A"
| "heap_legal A (Dealloc tid ptr) \<longleftrightarrow> ptr \<in> A"
| "heap_legal A (Realloc tid frames ptr new_ptr sz) \<longleftrightarrow> ptr \<in> A \<and> new_ptr \<noteq> 0 \<and> new_ptr \<notin> A - {ptr}"

fun heap_blocks :: "usize set \<Rightarrow> heap_op \<Rightarrow> usize set" where
  "heap_blocks A (Alloc tid frames ptr sz) = insert ptr A"
| "heap_blocks A (Dealloc tid ptr) = A - {ptr}"
| "heap_blocks A (Realloc tid frames ptr new_ptr sz) = insert new_ptr (A - {ptr})"

primrec heap_run :: "config \<Rightarrow> heap_op list \<Rightarrow> heap \<Rightarrow> heap" where
  "heap_run cfg [] h = h"
| "heap_run cfg (op # ops) h = heap_run cfg ops (heap_exec cfg op h)"

primrec heap_run_spec ::
  "config \<Rightarrow> heap_op list \<Rightarrow> heap \<Rightarrow> (usize \<Rightarrow> (usize list \<times> usize) option) \<Rightarrow> usize \<Rightarrow> (usize list \<times> usize) option" where
  "heap_run_spec cfg [] h m = m"
| "heap_run_spec cfg (op # ops) h m = heap_run_spec cfg ops (heap_exec cfg op h) (heap_spec cfg h op m)"

primrec heap_run_legal :: "usize set \<Rightarrow> heap_op list \<Rightarrow> bool" where
  "heap_run_legal A [] = True"
| "heap_run_legal A (op # ops) = (heap_legal A op \<and> heap_run_legal (heap_blocks A op) ops)"

definition heap_ready :: "heap \<Rightarrow> bool" where
  "heap_ready h \<longleftrightarrow> h_profiling h \<and> (\<forall>tid. \<not> tl_in_alloc (h_tls h tid))"

lemmas hook_defs = AllocProfiler_alloc_def AllocProfiler_dealloc_def AllocProfiler_realloc_def set_tls_def
  heap_ready_def sampled_def Let_def

lemma hooks_reentrant:
  assumes "tl_in_alloc (h_tls h tid)"
  shows "AllocProfiler_alloc cfg tid frames ptr sz h = (ptr, h) \<and> AllocProfiler_dealloc tid ptr h = h \<and>
    AllocProfiler_realloc cfg tid frames ptr new_ptr sz h = (new_ptr, h)"
  using assms by (simp add: hook_defs)

lemma heap_exec_step:
  assumes "heap_ready h" and inv: "heap_inv (h_state h)" and dom: "dom (heap_abs (h_state h)) \<subseteq> A"
    and "heap_legal A op" and room: "unat (hs_next_callsite_id (h_state h)) < 2 ^ 64 - 1"
  shows "heap_ready (heap_exec cfg op h) \<and> heap_inv (h_state (heap_exec cfg op h)) \<and>
    heap_abs (h_state (heap_exec cfg op h)) = heap_spec cfg h op (heap_abs (h_state h)) \<and>
    dom (heap_abs (h_state (heap_exec cfg op h))) \<subseteq> heap_blocks A op \<and>
    unat (hs_next_callsite_id (h_state (heap_exec cfg op h))) \<le> Suc (unat (hs_next_callsite_id (h_state h)))"
proof (cases op)
  case (Alloc tid frames ptr sz)
  show ?thesis
  proof (cases "sampled h tid sz")
    case True
    have "heap_abs (h_state h) ptr = None" using assms(4) dom by (auto simp: Alloc)
    from record_sample_spec [OF inv room this, of cfg frames sz] True assms Alloc show ?thesis
      by (auto simp: hook_defs)
  next
    case False
    with assms Alloc show ?thesis by (auto simp: hook_defs)
  qed
next
  case (Dealloc tid ptr)
  from record_dealloc_spec [OF inv, of ptr] assms Dealloc show ?thesis by (auto simp: hook_defs)
next
  case (Realloc tid frames ptr new_ptr sz)
  let ?s = "record_dealloc ptr (h_state h)"
  note d = record_dealloc_spec [OF inv, of ptr]
  have "heap_abs ?s new_ptr = None" using d assms(4) dom by (auto simp: Realloc)
  from record_sample_spec [OF _ _ this, of cfg frames sz] d room have
    "heap_inv (record_sample cfg frames new_ptr sz ?s)"
    "heap_abs (record_sample cfg frames new_ptr sz ?s) = (heap_abs (h_state h))(ptr := None, new_ptr \<mapsto> (site_ips cfg frames, sz))"
    "unat (hs_next_callsite_id (record_sample cfg frames new_ptr sz ?s)) \<le> Suc (unat (hs_next_callsite_id (h_state h)))"
    by simp_all
  with assms Realloc show ?thesis by (auto simp: hook_defs)
qed

lemma heap_run_step:
  assumes "heap_ready h" and "heap_inv (h_state h)" and "dom (heap_abs (h_state h)) \<subseteq> A" and "heap_run_legal A ops"
    and "unat (hs_next_callsite_id (h_state h)) + length ops < 2 ^ 64"
  shows "heap_inv (h_state (heap_run cfg ops h)) \<and>
    heap_abs (h_state (heap_run cfg ops h)) = heap_run_spec cfg ops h (heap_abs (h_state h))"
  using assms
proof (induction ops arbitrary: h A)
  case (Cons op ops)
  have "unat (hs_next_callsite_id (h_state h)) < 2 ^ 64 - 1" using Cons.prems(5) by simp
  note e = heap_exec_step [OF Cons.prems(1-3) _ this, of op cfg]
  have "heap_legal A op" using Cons.prems(4) by simp
  from e [OF this] have 1: "heap_ready (heap_exec cfg op h)" "heap_inv (h_state (heap_exec cfg op h))"
    "heap_abs (h_state (heap_exec cfg op h)) = heap_spec cfg h op (heap_abs (h_state h))"
    "dom (heap_abs (h_state (heap_exec cfg op h))) \<subseteq> heap_blocks A op"
    and "unat (hs_next_callsite_id (h_state (heap_exec cfg op h))) \<le> Suc (unat (hs_next_callsite_id (h_state h)))"
    by blast+
  then have 2: "unat (hs_next_callsite_id (h_state (heap_exec cfg op h))) + length ops < 2 ^ 64"
    using Cons.prems(5) by simp
  from Cons.IH [OF 1(1,2,4) _ 2] Cons.prems(4) 1(3) show ?case by simp
qed simp

section \<open>Properties\<close>

lemma heap_start_ready: "heap_ready (alloc_start heap_init)"
  by (simp add: heap_ready_def alloc_start_def heap_init_def)

lemma heap_start_state: "h_state (alloc_start heap_init) = HeapState_new"
  by (simp add: alloc_start_def heap_init_def)

lemma heap_inv_sites:
  assumes "heap_inv s"
  shows "distinct (map (\<lambda>e. cd_ips (snd e)) (hs_callsites s))"
    and "(i, d) \<in> set (hs_callsites s) \<Longrightarrow> counters_ok (heap_abs s) d"
proof -
  have dist: "hm_distinct (=) (hs_callsites s)" using assms by (simp add: heap_inv_def)
  have get: "hm_get (=) (hs_callsites s) i = Some d" if "(i, d) \<in> set (hs_callsites s)" for i d
    by (rule std_eq.get_in_set [OF dist that])
  then show "(i, d) \<in> set (hs_callsites s) \<Longrightarrow> counters_ok (heap_abs s) d"
    using assms unfolding heap_inv_def by blast
  have keys: "distinct (map fst (hs_callsites s))" using dist by (simp add: hm_distinct_iff)
  have inj: "e = e'" if "e \<in> set (hs_callsites s)" "e' \<in> set (hs_callsites s)" "cd_ips (snd e) = cd_ips (snd e')" for e e'
  proof -
    have "hm_get (=) (hs_callsites s) (fst e) = Some (snd e)" "hm_get (=) (hs_callsites s) (fst e') = Some (snd e')"
      using get that by simp_all
    with heap_inv_callsite_unique [OF assms] that(3) show ?thesis by (metis option.inject prod_eqI)
  qed
  have "inj_on (\<lambda>e. cd_ips (snd e)) (set (hs_callsites s))" unfolding inj_on_def using inj by blast
  moreover have "distinct (hs_callsites s)" using keys by (simp add: distinct_map)
  ultimately show "distinct (map (\<lambda>e. cd_ips (snd e)) (hs_callsites s))" by (simp add: distinct_map)
qed

text \<open>In the invariant, a heap report has one record for each call stack, with the number and the size of its live blocks.\<close>

lemma heap_report_inuse:
  assumes inv: "heap_inv (h_state h)"
  defines "sites \<equiv> map snd (hs_callsites (h_state h))" and "m \<equiv> heap_abs (h_state h)"
  shows "distinct (map cd_ips sites) \<and>
    (\<exists>r. heap_report resolve now timestamp h = Inr r \<and>
       map (\<lambda>rec. concat (fr_frames (hr_frames rec))) (hp_records r) =
         map (\<lambda>d. concat (fr_frames (heap_frames resolve (cd_ips d) 0))) sites \<and>
       map hr_inuse_objects (hp_records r) = map (\<lambda>d. of_nat (card (blocks m (cd_ips d)))) sites \<and>
       map hr_inuse_bytes (hp_records r) = map (\<lambda>d. block_bytes m (blocks m (cd_ips d))) sites)"
proof -
  have enum: "map (\<lambda>(i, (x, d)). f d) (List.enumerate n xs) = map (f \<circ> snd) xs"
    for f :: "CallsiteData \<Rightarrow> 'b" and n and xs :: "(u64 \<times> CallsiteData) list"
    by (induction xs arbitrary: n) auto
  have cnt: "cd_inuse_objects (snd e) = of_nat (card (blocks m (cd_ips (snd e))))"
    "cd_inuse_bytes (snd e) = block_bytes m (blocks m (cd_ips (snd e)))"
    if "e \<in> set (hs_callsites (h_state h))" for e
    using heap_inv_sites(2) [OF inv, of "fst e" "snd e"] that by (simp_all add: counters_ok_def m_def)
  show ?thesis
    using heap_inv_sites(1) [OF inv] cnt
    by (simp add: sites_def heap_report_def heap_record_def heap_frames_def comp_def split_beta
        enum [of cd_inuse_objects 0, unfolded split_beta] enum [of cd_inuse_bytes 0, unfolded split_beta]
        enum [of "\<lambda>d. concat (filter (\<lambda>symbols. symbols \<noteq> []) (map (\<lambda>i. map Symbol_from (resolve i)) (cd_ips d)))" 0, unfolded split_beta])
qed

text \<open>
  C11. The in-use figures are exact for what is sampled. From the start of profiling, over any sequence of fewer than
  \<open>2 ^ 63\<close> allocations, deallocations and reallocations in any threads, with any stacks and any pointers a correct allocator can
  return: the sharded table refines the map that a sampled allocation enters, a deallocation deletes, and a
  reallocation moves; and the heap report has one record for each call stack, whose in-use objects and
  bytes are the number and the total size of the live sampled blocks with that stack (as \<^verbatim>\<open>i64\<close>).
\<close>

theorem heap_inuse_exact:
  assumes "heap_run_legal A ops" and "length ops < 2 ^ 63"
  shows "let h = heap_run cfg ops (alloc_start heap_init);
      m = heap_run_spec cfg ops (alloc_start heap_init) (\<lambda>_. None);
      sites = map snd (hs_callsites (h_state h))
    in heap_abs (h_state h) = m \<and> distinct (map cd_ips sites) \<and>
      (\<exists>r. heap_report resolve now timestamp h = Inr r \<and>
         map hr_inuse_objects (hp_records r) = map (\<lambda>d. of_nat (card (blocks m (cd_ips d)))) sites \<and>
         map hr_inuse_bytes (hp_records r) = map (\<lambda>d. block_bytes m (blocks m (cd_ips d))) sites)"
proof -
  let ?start = "alloc_start heap_init"
  let ?h = "heap_run cfg ops ?start"
  have "heap_inv (h_state ?h) \<and> heap_abs (h_state ?h) = heap_run_spec cfg ops ?start (heap_abs (h_state ?start))"
    using assms
    by (intro heap_run_step [OF heap_start_ready, of A])
       (simp_all add: heap_start_state HeapState_new_inv HeapState_new_abs, simp add: HeapState_new_def)
  then have inv: "heap_inv (h_state ?h)" and abs: "heap_abs (h_state ?h) = heap_run_spec cfg ops ?start (\<lambda>_. None)"
    by (simp_all add: heap_start_state HeapState_new_abs)
  show ?thesis using heap_report_inuse [OF inv, of resolve now timestamp] abs unfolding Let_def by auto
qed

theorem heap_inuse_exact_witness:
  "let ops = [Alloc 0 [1, 2] 0x1000 100, Realloc 0 [1, 3] 0x1000 0x2000 200, Alloc 1 [1, 2] 0x1000 50]
   in heap_run_legal {} ops \<and>
      heap_abs (h_state (heap_run default_config ops (alloc_start heap_init))) 0x2000 = Some ([1, 3], 200) \<and>
      heap_abs (h_state (heap_run default_config ops (alloc_start heap_init))) 0x1000 = Some ([1, 2], 50)"
proof -
  let ?ops = "[Alloc 0 [1, 2] 0x1000 100, Realloc 0 [1, 3] 0x1000 0x2000 200, Alloc 1 [1, 2] 0x1000 50]"
  let ?start = "alloc_start heap_init"
  have legal: "heap_run_legal {} ?ops" by simp
  have tls: "sampled (heap_exec default_config (Realloc 0 [1, 3] 0x1000 0x2000 200)
      (heap_exec default_config (Alloc 0 [1, 2] 0x1000 100) ?start)) 1 50"
    by (simp add: hook_defs alloc_start_def heap_init_def)
  have first: "sampled ?start 0 100" by (simp add: hook_defs alloc_start_def heap_init_def)
  have spec: "heap_run_spec default_config ?ops ?start (\<lambda>_. None) =
      (\<lambda>_. None)(0x1000 \<mapsto> ([1, 2], 100), 0x1000 := None, 0x2000 \<mapsto> ([1, 3], 200), 0x1000 \<mapsto> ([1, 2], 50))"
    using tls first by (simp add: site_ips_def MAX_DEPTH_def default_config_def del: heap_exec.simps)
  have "heap_abs (h_state (heap_run default_config ?ops ?start)) = heap_run_spec default_config ?ops ?start (\<lambda>_. None)"
    using heap_inuse_exact [OF legal, of default_config] unfolding Let_def by simp
  with legal show ?thesis unfolding Let_def spec by simp
qed

text \<open>A thread's allocations in a row, each with its stack, pointer and size.\<close>

primrec alloc_run :: "config \<Rightarrow> nat \<Rightarrow> (usize list \<times> usize \<times> usize) list \<Rightarrow> heap \<Rightarrow> heap" where
  "alloc_run cfg tid [] h = h"
| "alloc_run cfg tid (a # as) h =
     (case a of (frames, ptr, sz) \<Rightarrow> alloc_run cfg tid as (snd (AllocProfiler_alloc cfg tid frames ptr sz h)))"

definition alloc_bytes :: "(usize list \<times> usize \<times> usize) list \<Rightarrow> nat" where
  "alloc_bytes as = (\<Sum>(frames, ptr, sz)\<leftarrow>as. unat sz)"

lemma sint_diff_small:
  assumes "0 \<le> sint (a :: isize)" and "unat b < 2 ^ 63"
  shows "sint (a - b) = sint a - int (unat b)"
proof -
  have "a - b = word_of_int (sint a - int (unat b))" by simp
  moreover have "sint a < 2 ^ 63" using sint_lt [of a] by simp
  moreover have "int (unat b) < 2 ^ 63" using assms(2) by (metis of_nat_less_iff of_nat_numeral of_nat_power)
  ultimately show ?thesis using assms(1) by (simp only:) (rule sint_word_of_int_small64; linarith)
qed

lemma alloc_run_below:
  assumes "h_profiling h" and "\<not> tl_in_alloc (h_tls h tid)" and "\<forall>(frames, ptr, sz) \<in> set as. ptr \<noteq> 0"
    and "int (alloc_bytes as) < sint (tl_bytes_left (h_tls h tid))"
  shows "h_state (alloc_run cfg tid as h) = h_state h \<and> h_profiling (alloc_run cfg tid as h) \<and>
    h_rate (alloc_run cfg tid as h) = h_rate h \<and> \<not> tl_in_alloc (h_tls (alloc_run cfg tid as h) tid) \<and>
    sint (tl_bytes_left (h_tls (alloc_run cfg tid as h) tid)) =
      sint (tl_bytes_left (h_tls h tid)) - int (alloc_bytes as)"
  using assms
proof (induction as arbitrary: h)
  case (Cons a as)
  obtain frames ptr sz where a: "a = (frames, ptr, sz)" by (cases a)
  let ?left = "tl_bytes_left (h_tls h tid)"
  have sum: "alloc_bytes ((frames, ptr, sz) # as) = unat sz + alloc_bytes as" by (simp add: alloc_bytes_def)
  note prems = Cons.prems [unfolded a]
  have "sint ?left < 2 ^ 63" using sint_lt [of ?left] by simp
  then have "int (unat sz) < 2 ^ 63" using prems(4) sum by linarith
  then have small: "unat sz < 2 ^ 63" by (metis of_nat_less_iff of_nat_numeral of_nat_power)
  have diff: "sint (?left - sz) = sint ?left - int (unat sz)"
    using prems(4) small by (intro sint_diff_small) linarith+
  let ?h = "set_tls tid ((h_tls h tid)\<lparr>tl_bytes_left := ?left - sz\<rparr>) h"
  have pos: "0 < sint (?left - sz)" using diff prems(4) sum by linarith
  then have step: "AllocProfiler_alloc cfg tid frames ptr sz h = (ptr, ?h)"
    using prems by (simp add: AllocProfiler_alloc_def Let_def)
  have "int (alloc_bytes as) < sint (tl_bytes_left (h_tls ?h tid))"
    using diff prems(4) sum by (simp add: set_tls_def)
  with Cons.IH [of ?h] prems diff step show ?case by (simp add: a set_tls_def sum)
qed (simp add: alloc_bytes_def)

text \<open>
  C37. How allocations are sampled. A thread whose counter stands at \<open>r > 0\<close> bytes records none of the next allocations as
  long as their sizes add up to less than \<open>r\<close>, and then records exactly the allocation with which the sum reaches \<open>r\<close>,
  after which the counter is the sample rate again: the sampling is periodic, at every \<^verbatim>\<open>SAMPLE_RATE\<close> bytes,
  with no randomness, and the sampled block is entered with its own size.
\<close>

theorem alloc_sampling_period:
  assumes "h_profiling h" and "\<not> tl_in_alloc (h_tls h tid)" and "\<forall>(frames, ptr, sz) \<in> set as. ptr \<noteq> 0"
    and "int (alloc_bytes as) < sint (tl_bytes_left (h_tls h tid))"
    and "ptr \<noteq> 0" and "unat sz < 2 ^ 63" and "sint (tl_bytes_left (h_tls h tid)) \<le> int (alloc_bytes as + unat sz)"
  shows "h_state (alloc_run cfg tid as h) = h_state h \<and>
    (let h' = snd (AllocProfiler_alloc cfg tid frames ptr sz (alloc_run cfg tid as h))
     in h_state h' = record_sample cfg frames ptr sz (h_state h) \<and>
        h_tls h' tid = \<lparr>tl_in_alloc = False, tl_bytes_left = h_rate h\<rparr>)"
proof -
  note run = alloc_run_below [OF assms(1-4), of cfg]
  have "sint (tl_bytes_left (h_tls (alloc_run cfg tid as h) tid) - sz) =
      sint (tl_bytes_left (h_tls (alloc_run cfg tid as h) tid)) - int (unat sz)"
    using run assms(4,6) by (intro sint_diff_small) linarith+
  then have "sint (tl_bytes_left (h_tls (alloc_run cfg tid as h) tid) - sz) \<le> 0"
    using run assms(7) by simp
  then show ?thesis using run assms(5) by (simp add: AllocProfiler_alloc_def set_tls_def Let_def)
qed

theorem alloc_sampling_period_witness:
  "let h = set_tls 0 \<lparr>tl_in_alloc = False, tl_bytes_left = 100\<rparr> (alloc_start heap_init);
       h1 = alloc_run default_config 0 [([1], 0x1000, 60)] h;
       h2 = snd (AllocProfiler_alloc default_config 0 [2] 0x2000 40 h1)
   in h_state h1 = h_state h \<and> h_state h2 = record_sample default_config [2] 0x2000 40 (h_state h)"
  using alloc_sampling_period [of "set_tls 0 \<lparr>tl_in_alloc = False, tl_bytes_left = 100\<rparr> (alloc_start heap_init)" 0
      "[([1], 0x1000, 60)]" "0x2000" 40 default_config "[2]"]
  by (simp add: set_tls_def alloc_start_def heap_init_def alloc_bytes_def Let_def)

text \<open>
  Reallocations are not sampled but always recorded: on a well-formed table, whatever the byte counter of the thread
  is, a successful \<^verbatim>\<open>realloc\<close> of a block (sampled before or not) enters the new block, and the counter stays
  as it is.
\<close>

lemma realloc_always_recorded:
  assumes "heap_ready h" and "heap_inv (h_state h)" and "unat (hs_next_callsite_id (h_state h)) < 2 ^ 64 - 1"
    and "new_ptr \<noteq> 0" and "new_ptr = ptr \<or> heap_abs (h_state h) new_ptr = None"
  shows "let h' = snd (AllocProfiler_realloc cfg tid frames ptr new_ptr sz h)
    in heap_abs (h_state h') = (heap_abs (h_state h))(ptr := None, new_ptr \<mapsto> (site_ips cfg frames, sz)) \<and>
       h_tls h' = h_tls h"
proof -
  note d = record_dealloc_spec [OF assms(2), of ptr]
  have "heap_abs (record_dealloc ptr (h_state h)) new_ptr = None" using d assms(5) by auto
  from record_sample_spec [OF _ _ this, of cfg frames sz] d assms(3)
  have "heap_abs (record_sample cfg frames new_ptr sz (record_dealloc ptr (h_state h))) =
      (heap_abs (h_state h))(ptr := None, new_ptr \<mapsto> (site_ips cfg frames, sz))" by simp
  moreover have "\<not> tl_in_alloc (h_tls h tid)" "h_profiling h" using assms(1) by (simp_all add: heap_ready_def)
  moreover have "(h_tls h)(tid := (h_tls h tid)\<lparr>tl_in_alloc := False\<rparr>) = h_tls h"
    using calculation(2) by (cases "h_tls h tid") (simp add: fun_upd_idem)
  ultimately show ?thesis
    using assms(4) by (simp add: AllocProfiler_realloc_def set_tls_def Let_def)
qed

lemma realloc_always_recorded_witness:
  "heap_abs (h_state (snd (AllocProfiler_realloc default_config 0 [7] 0x1000 0x1000 16 (alloc_start heap_init)))) 0x1000
     = Some ([7], 16)"
  using realloc_always_recorded [OF heap_start_ready, of "0x1000" "0x1000" default_config 0 "[7]" 16]
  by (simp add: heap_start_state HeapState_new_inv Let_def site_ips_def MAX_DEPTH_def default_config_def)
     (simp add: HeapState_new_def)

section \<open>Properties of heap reports\<close>

definition records_differ :: "HeapRecord list \<Rightarrow> bool" where
  "records_differ recs = sorted_wrt (\<lambda>a b. \<not> Frames_eq (hr_frames a) (hr_frames b)) recs"

lemma insert_records:
  assumes "records_differ recs" and "\<forall>q \<in> set data. \<forall>rec \<in> set recs. \<not> Frames_eq (fst q) (hr_frames rec)"
  shows "fold (\<lambda>rec data. if P rec then hm_insert Frames_eq data (hr_frames rec) (f rec) else data) recs data =
    data @ map (\<lambda>rec. (hr_frames rec, f rec)) (filter P recs)"
  using assms
proof (induction recs arbitrary: data)
  case (Cons rec recs)
  have "hm_get Frames_eq data (hr_frames rec) = None" using Cons.prems(2) by (simp add: hm_get_None_iff)
  then have ins: "hm_insert Frames_eq data (hr_frames rec) v = data @ [(hr_frames rec, v)]" for v
    by (rule hm_insert_new)
  show ?case
    using Cons.IH [of "if P rec then data @ [(hr_frames rec, f rec)] else data"] Cons.prems
    by (auto simp: ins records_differ_def)
qed simp

text \<open>
  C38. The flame-graph reports of a heap. When the stacks of the records are pairwise different, \<^verbatim>\<open>to_inuse_report\<close> has one
  entry for each record with a positive in-use size and its \<^verbatim>\<open>total_samples\<close> is \<^verbatim>\<open>total_inuse_bytes\<close>. Equal stacks are
  overwritten, not added: of two records with equal stacks and positive sizes only the second size is in the report.
\<close>

theorem inuse_report_total:
  "(records_differ (hp_records r) \<longrightarrow>
      r_data (to_inuse_report r) =
        map (\<lambda>rec. (hr_frames rec, hr_inuse_bytes rec)) (filter (\<lambda>rec. 0 < sint (hr_inuse_bytes rec)) (hp_records r)) \<and>
      Report_total_samples (to_inuse_report r) = total_inuse_bytes r) \<and>
   (hp_records r = [a, b] \<and> Frames_eq (hr_frames a) (hr_frames b) \<and>
      0 < sint (hr_inuse_bytes a) \<and> 0 < sint (hr_inuse_bytes b) \<longrightarrow>
      r_data (to_inuse_report r) = [(hr_frames a, hr_inuse_bytes b)])"
proof (intro conjI impI)
  assume "records_differ (hp_records r)"
  then show data: "r_data (to_inuse_report r) = map (\<lambda>rec. (hr_frames rec, hr_inuse_bytes rec))
      (filter (\<lambda>rec. 0 < sint (hr_inuse_bytes rec)) (hp_records r))"
    using insert_records [of "hp_records r" "[]"] by (simp add: to_inuse_report_def)
  have "(\<Sum>rec\<leftarrow>filter (\<lambda>rec. 0 < sint (hr_inuse_bytes rec)) recs. word_max0 (hr_inuse_bytes rec)) =
      (\<Sum>rec\<leftarrow>recs. word_max0 (hr_inuse_bytes rec))" for recs
  proof (induction recs)
    case (Cons rec recs)
    have "word_max0 (hr_inuse_bytes rec) = 0" if "\<not> 0 < sint (hr_inuse_bytes rec)"
    proof (cases "sint (hr_inuse_bytes rec) = 0")
      case True
      then have "hr_inuse_bytes rec = 0" by (simp add: signed_eq_0_iff)
      then show ?thesis by (simp add: word_max0_def)
    qed (use that in \<open>simp add: word_max0_def\<close>)
    with Cons show ?case by auto
  qed simp
  then show "Report_total_samples (to_inuse_report r) = total_inuse_bytes r"
    by (simp add: Report_total_samples_def values_total_def data total_inuse_bytes_def comp_def)
qed (auto simp: to_inuse_report_def)

definition demo_record :: "string list \<Rightarrow> i64 \<Rightarrow> HeapRecord" where
  "demo_record names n =
     \<lparr>hr_frames = demo_frames names, hr_alloc_objects = 1, hr_alloc_bytes = 100, hr_inuse_objects = 1, hr_inuse_bytes = n\<rparr>"

definition demo_heap_report :: "HeapRecord list \<Rightarrow> HeapReport" where
  "demo_heap_report recs = \<lparr>hp_records = recs, hp_sample_rate = DEFAULT_SAMPLE_RATE, hp_timestamp = 0\<rparr>"

theorem inuse_report_total_witness:
  "Report_total_samples (to_inuse_report (demo_heap_report [demo_record [''work''] 64, demo_record [''main''] 32])) =
     total_inuse_bytes (demo_heap_report [demo_record [''work''] 64, demo_record [''main''] 32]) \<and>
   r_data (to_inuse_report (demo_heap_report [demo_record [''work''] 64, demo_record [''work''] 32])) =
     [(demo_frames [''work''], 32)]"
proof -
  let ?r = "demo_heap_report [demo_record [''work''] 64, demo_record [''main''] 32]"
  have "records_differ (hp_records ?r)"
    by (simp add: records_differ_def demo_heap_report_def demo_record_def Frames_eq_iff demo_frames_def demo_symbol_def
        Symbol_from_def Symbol_raw_name_def)
  moreover have "Frames_eq (demo_frames [''work'']) (demo_frames [''work''])" by (simp add: Frames_eq_iff)
  ultimately show ?thesis
    using inuse_report_total [of ?r]
      inuse_report_total [of "demo_heap_report [demo_record [''work''] 64, demo_record [''work''] 32]"
        "demo_record [''work''] 64" "demo_record [''work''] 32"]
    by (simp add: demo_heap_report_def demo_record_def)
qed

definition heap_values :: "HeapRecord \<Rightarrow> i64 list" where
  "heap_values rec = [hr_alloc_objects rec, hr_alloc_bytes rec, word_max0 (hr_inuse_objects rec),
     word_max0 (hr_inuse_bytes rec)]"

definition heap_sample_of :: "symbolizer \<Rightarrow> string list \<Rightarrow> Sample \<Rightarrow> HeapRecord \<Rightarrow> bool" where
  "heap_sample_of sy ns s rec \<longleftrightarrow>
     list_all2 (names_id ns) (s_location_id s) (map (Symbol_name (sy_demangle sy)) (concat (fr_frames (hr_frames rec)))) \<and>
     s_value s = heap_values rec"

lemma heap_samples_spec:
  assumes "table_inv tbl ns st" and "\<forall>rec \<in> set recs. set (frames_strings sy (hr_frames rec)) \<subseteq> set tbl"
    and "length tbl < 2 ^ 63"
  shows "\<exists>st' ss ms. heap_samples sy (string_index tbl) st recs = Return (st', ss) \<and> table_inv tbl (ns @ ms) st' \<and>
    list_all2 (heap_sample_of sy (ns @ ms)) ss recs"
  using assms(1,2)
proof (induction recs arbitrary: st ns)
  case Nil
  then show ?case by (intro exI [of _ st] exI [of _ "[]"]) simp
next
  case (Cons rec recs)
  obtain st1 ids ms where 1: "intern_symbols sy (string_index tbl) st (concat (fr_frames (hr_frames rec))) = Return (st1, ids)"
    "table_inv tbl (ns @ ms) st1"
    "list_all2 (names_id (ns @ ms)) ids (map (Symbol_name (sy_demangle sy)) (concat (fr_frames (hr_frames rec))))"
    using intern_symbols_spec [OF Cons.prems(1) _ assms(3), of sy "concat (fr_frames (hr_frames rec))"] Cons.prems(2)
    by (auto simp: frames_strings_def)
  obtain st2 ss ms' where 2: "heap_samples sy (string_index tbl) st1 recs = Return (st2, ss)"
    "table_inv tbl ((ns @ ms) @ ms') st2" "list_all2 (heap_sample_of sy ((ns @ ms) @ ms')) ss recs"
    using Cons.IH [OF 1(2)] Cons.prems(2) by auto
  have "list_all2 (names_id ((ns @ ms) @ ms')) ids (map (Symbol_name (sy_demangle sy)) (concat (fr_frames (hr_frames rec))))"
    using 1(3) by (rule list_all2_mono) (rule names_id_append)
  then have "heap_sample_of sy ((ns @ ms) @ ms') \<lparr>s_location_id = ids, s_value = heap_values rec, s_label = []\<rparr> rec"
    by (simp add: heap_sample_of_def)
  with 1(1) 2 show ?case
    by (intro exI [of _ st2] exI [of _ "\<lparr>s_location_id = ids, s_value = heap_values rec, s_label = []\<rparr> # ss"] exI [of _ "ms @ ms'"])
       (simp add: heap_sample_def heap_values_def)
qed

lemma heap_pprof_reads_back:
  assumes "hs_order hs_iter" and "length (heap_strings sy r) < 2 ^ 62"
  shows "\<exists>p. HeapReport_pprof hs_iter sy r = Return p \<and> hd (pf_string_table p) = '''' \<and>
    distinct (map (\<lambda>f. decode_str (pf_string_table p) (f_name f)) (pf_function p)) \<and>
    map (\<lambda>s. map (decode_location (pf_string_table p) (pf_function p) (pf_location p)) (s_location_id s)) (pf_sample p) =
      map (\<lambda>rec. map (Symbol_name (sy_demangle sy)) (concat (fr_frames (hr_frames rec)))) (hp_records r) \<and>
    map s_value (pf_sample p) = map heap_values (hp_records r) \<and>
    pf_period p = hp_sample_rate r"
proof -
  let ?tbl = "string_table hs_iter (heap_strings sy r)"
  have set: "set (heap_strings sy r) \<subseteq> set ?tbl" using set_string_table [OF assms(1)] by auto
  have len: "length ?tbl < 2 ^ 63" using length_string_table [OF assms(1), of "heap_strings sy r"] assms(2) by simp
  have recs: "\<forall>rec \<in> set (hp_records r). set (frames_strings sy (hr_frames rec)) \<subseteq> set ?tbl"
    using set by (auto simp: heap_strings_def)
  obtain st ss ns where 1: "heap_samples sy (string_index ?tbl) symbol_table_empty (hp_records r) = Return (st, ss)"
    "table_inv ?tbl ns st"
    "list_all2 (heap_sample_of sy ns) ss (hp_records r)"
    using heap_samples_spec [OF table_inv_empty recs len] by auto
  have vt: "\<exists>v. value_type (string_index ?tbl) a b = Return v"
    if "a \<in> set (heap_strings sy r)" "b \<in> set (heap_strings sy r)" for a b
    using str_get_ok [OF subsetD [OF set that(1)] len] str_get_ok [OF subsetD [OF set that(2)] len]
    by (auto simp: value_type_def)
  have const: "s \<in> set (heap_strings sy r)"
    if "s \<in> {''alloc_objects'', ''alloc_space'', ''inuse_objects'', ''inuse_space'', ''count'', ''bytes'', ''space''}" for s
    using that by (auto simp: heap_strings_def)
  obtain v1 v2 v3 v4 v5 where "value_type (string_index ?tbl) ''alloc_objects'' ''count'' = Return v1"
    "value_type (string_index ?tbl) ''alloc_space'' ''bytes'' = Return v2"
    "value_type (string_index ?tbl) ''inuse_objects'' ''count'' = Return v3"
    "value_type (string_index ?tbl) ''inuse_space'' ''bytes'' = Return v4"
    "value_type (string_index ?tbl) ''space'' ''bytes'' = Return v5"
    using vt [OF const const] by (metis insertCI)
  then obtain p where p: "HeapReport_pprof hs_iter sy r = Return p" "pf_string_table p = ?tbl" "pf_function p = st_fn_tbl st"
    "pf_location p = st_loc_tbl st" "pf_sample p = ss" "pf_period p = hp_sample_rate r"
    using 1(1) by (simp add: HeapReport_pprof_def Let_def)
  have "map (\<lambda>s. map (decode_location ?tbl (st_fn_tbl st) (st_loc_tbl st)) (s_location_id s)) ss =
      map (\<lambda>rec. map (Symbol_name (sy_demangle sy)) (concat (fr_frames (hr_frames rec)))) (hp_records r) \<and>
    map s_value ss = map heap_values (hp_records r)"
    using 1(3)
    by (induction rule: list_all2_induct) (use decode_locations [OF 1(2) len] in \<open>auto simp: heap_sample_of_def\<close>)
  moreover have "hd ?tbl = ''''" by (simp add: string_table_def)
  ultimately show ?thesis using table_inv_ids(3) [OF 1(2)] p by (intro exI [of _ p]) simp
qed

text \<open>
  C15. The heap profile in pprof format says what the heap report says, for any order of the string set, any symbolizer
  and fewer than \<open>2 ^ 62\<close> strings: \<^verbatim>\<open>pprof\<close> returns (whatever the sample rate), the string table starts with the empty
  string, function names are distinct, and the samples are the records in order: their locations decode to the symbol
  names of the stack and their values are the four counters, the in-use ones at least 0.
\<close>

theorem heap_pprof_decodes:
  assumes "hs_order hs_iter" and "length (heap_strings sy r) < 2 ^ 62"
  shows "\<exists>p. HeapReport_pprof hs_iter sy r = Return p \<and> hd (pf_string_table p) = '''' \<and>
    distinct (map (\<lambda>f. decode_str (pf_string_table p) (f_name f)) (pf_function p)) \<and>
    map (\<lambda>s. map (decode_location (pf_string_table p) (pf_function p) (pf_location p)) (s_location_id s)) (pf_sample p) =
      map (\<lambda>rec. map (Symbol_name (sy_demangle sy)) (concat (fr_frames (hr_frames rec)))) (hp_records r) \<and>
    map s_value (pf_sample p) = map heap_values (hp_records r) \<and>
    pf_period p = hp_sample_rate r"
  by (rule heap_pprof_reads_back [OF assms])

theorem heap_pprof_decodes_witness:
  "\<exists>p. HeapReport_pprof (\<lambda>xs. xs) demo_symbolizer (demo_heap_report [demo_record [''work''] 64]) = Return p \<and>
     map s_value (pf_sample p) = [[1, 100, 1, 64]]"
proof -
  let ?r = "demo_heap_report [demo_record [''work''] 64]"
  have "hs_order (\<lambda>xs. xs)" by (simp add: hs_order_def)
  moreover have "length (heap_strings demo_symbolizer ?r) < 2 ^ 62"
    by (simp add: heap_strings_def frames_strings_def symbol_strings_def demo_heap_report_def demo_record_def demo_frames_def)
  ultimately have "\<exists>p. HeapReport_pprof (\<lambda>xs. xs) demo_symbolizer ?r = Return p \<and>
      map s_value (pf_sample p) = map heap_values (hp_records ?r)"
    using heap_pprof_decodes [of "\<lambda>xs. xs" demo_symbolizer ?r] by blast
  then show ?thesis by (simp add: demo_heap_report_def demo_record_def heap_values_def word_max0_def)
qed

end
