(* ===== verification/Alloc_Steps.thy ===== *)
theory Alloc_Steps
  imports Alloc
begin

text \<open>
  The heap profiler of \<^verbatim>\<open>src/src/alloc.rs\<close> with its threads interleaved. Theory \<open>Alloc\<close> runs each hook as one operation; here a
  hook is the sequence of its critical sections and atomic operations, and a schedule says which thread moves next. A
  thread's position in \<^verbatim>\<open>record_sample\<close>, \<^verbatim>\<open>record_dealloc\<close> or \<^verbatim>\<open>reset\<close> is a \<open>pc\<close> with the local variables that are live there.

  Two locks are held across steps and are part of the state: the write guard of \<^verbatim>\<open>callsite_map\<close>, kept while a new call site
  waits for \<^verbatim>\<open>callsites\<close>, and the read guards of \<^verbatim>\<open>callsites\<close>, kept over the updates of the counters and by \<^verbatim>\<open>heap_report\<close>. All other
  guards are taken and dropped within one step. A step that has to wait for a lock is not enabled.

  The wrapped allocator is the set of its blocks (\<open>c_inner\<close>): it hands out any block outside the set. Two fields are there
  for the specification only: \<open>c_live\<close> says for each block of the program whether its allocation was sampled, and with which
  stack and size; \<open>c_priv\<close> are the blocks of the profiler itself, which it allocates and frees with \<^verbatim>\<open>IN_ALLOC\<close> set.
  Those that \<^verbatim>\<open>reset\<close> drops pass through the hook, where they are not found in the table; they are left in \<open>c_priv\<close>.
\<close>

section \<open>Threads\<close>

text \<open>What follows \<^verbatim>\<open>record_dealloc\<close>: the end of \<^verbatim>\<open>dealloc\<close>, or the second half of \<^verbatim>\<open>realloc\<close>.\<close>

datatype after =
    Then_free usize
  | Then_sample "usize list" usize usize

datatype pc =
    Idle
  | At_lookup "usize list" usize usize
  | At_create "usize list" usize usize
  | At_new_site u64 "usize list" usize usize
  | At_count nat u64 "usize list" usize usize
  | At_insert u64 "usize list" usize usize
  | At_remove usize after
  | At_uncount nat u64 usize after
  | At_free usize
  | At_reset nat

record conc =
  c_heap :: heap
  c_pc :: "nat \<Rightarrow> pc"
  c_map_lock :: "nat option"
  c_sites_lock :: "nat list"
  c_inner :: "usize set"
  c_priv :: "usize set"
  c_live :: "usize \<Rightarrow> (usize list \<times> usize) option option"

abbreviation c_state :: "conc \<Rightarrow> HeapState" where
  "c_state c \<equiv> h_state (c_heap c)"

definition conc_init :: "heap \<Rightarrow> conc" where
  "conc_init h = \<lparr>c_heap = h, c_pc = (\<lambda>_. Idle), c_map_lock = None, c_sites_lock = [], c_inner = {}, c_priv = {},
     c_live = (\<lambda>_. None)\<rparr>"

definition set_pc :: "nat \<Rightarrow> pc \<Rightarrow> conc \<Rightarrow> conc" where
  "set_pc t p c = c\<lparr>c_pc := (c_pc c)(t := p)\<rparr>"

definition on_state :: "(HeapState \<Rightarrow> HeapState) \<Rightarrow> conc \<Rightarrow> conc" where
  "on_state f c = c\<lparr>c_heap := (c_heap c)\<lparr>h_state := f (h_state (c_heap c))\<rparr>\<rparr>"

definition set_in_alloc :: "nat \<Rightarrow> bool \<Rightarrow> conc \<Rightarrow> conc" where
  "set_in_alloc t b c = c\<lparr>c_heap := set_tls t ((h_tls (c_heap c) t)\<lparr>tl_in_alloc := b\<rparr>) (c_heap c)\<rparr>"

definition lock_sites :: "nat \<Rightarrow> conc \<Rightarrow> conc" where
  "lock_sites t c = c\<lparr>c_sites_lock := t # c_sites_lock c\<rparr>"

definition unlock_sites :: "nat \<Rightarrow> conc \<Rightarrow> conc" where
  "unlock_sites t c = c\<lparr>c_sites_lock := remove1 t (c_sites_lock c)\<rparr>"

definition new_site :: "u64 \<Rightarrow> usize list \<Rightarrow> HeapState \<Rightarrow> HeapState" where
  "new_site i ips s = s
     \<lparr>hs_callsites := hm_insert (=) (hs_callsites s) i
        \<lparr>cd_ips = ips, cd_alloc_objects = 0, cd_alloc_bytes = 0, cd_inuse_objects = 0, cd_inuse_bytes = 0\<rparr>,
      hs_callsite_map := hm_insert (=) (hs_callsite_map s) ips i\<rparr>"

definition shard_insert :: "usize \<Rightarrow> u64 \<times> usize \<Rightarrow> HeapState \<Rightarrow> HeapState" where
  "shard_insert ptr e s =
     s\<lparr>hs_shards := (hs_shards s)[shard_idx ptr := hm_insert (=) (hs_shards s ! shard_idx ptr) ptr e]\<rparr>"

definition shard_remove :: "usize \<Rightarrow> HeapState \<Rightarrow> HeapState" where
  "shard_remove ptr s =
     s\<lparr>hs_shards := (hs_shards s)[shard_idx ptr := hm_remove (=) (hs_shards s ! shard_idx ptr) ptr]\<rparr>"

definition shard_get :: "HeapState \<Rightarrow> usize \<Rightarrow> (u64 \<times> usize) option" where
  "shard_get s ptr = hm_get (=) (hs_shards s ! shard_idx ptr) ptr"

text \<open>The four \<^verbatim>\<open>fetch_add\<close>s of \<^verbatim>\<open>record_sample\<close> and the two \<^verbatim>\<open>fetch_sub\<close>s of \<^verbatim>\<open>record_dealloc\<close>, in program order.\<close>

definition count_step :: "nat \<Rightarrow> usize \<Rightarrow> CallsiteData \<Rightarrow> CallsiteData" where
  "count_step k sz d =
     (if k = 0 then d\<lparr>cd_alloc_objects := cd_alloc_objects d + 1\<rparr>
      else if k = 1 then d\<lparr>cd_alloc_bytes := cd_alloc_bytes d + sz\<rparr>
      else if k = 2 then d\<lparr>cd_inuse_objects := cd_inuse_objects d + 1\<rparr>
      else d\<lparr>cd_inuse_bytes := cd_inuse_bytes d + sz\<rparr>)"

definition uncount_step :: "nat \<Rightarrow> usize \<Rightarrow> CallsiteData \<Rightarrow> CallsiteData" where
  "uncount_step k sz d =
     (if k = 0 then d\<lparr>cd_inuse_objects := cd_inuse_objects d - 1\<rparr>
      else d\<lparr>cd_inuse_bytes := cd_inuse_bytes d - sz\<rparr>)"

text \<open>\<^verbatim>\<open>in_alloc\<close> is cleared before the wrapped \<^verbatim>\<open>dealloc\<close> frees the block.\<close>

definition dealloc_done :: "nat \<Rightarrow> after \<Rightarrow> conc \<Rightarrow> conc" where
  "dealloc_done t k c =
     (case k of
        Then_free ptr \<Rightarrow> set_pc t (At_free ptr) (set_in_alloc t False c)
      | Then_sample ips ptr sz \<Rightarrow> set_pc t (At_lookup ips ptr sz) c)"

definition clear_shard :: "nat \<Rightarrow> HeapState \<Rightarrow> HeapState" where
  "clear_shard k s = s\<lparr>hs_shards := (hs_shards s)[k := []]\<rparr>"

text \<open>The steps of \<^verbatim>\<open>reset\<close>: the shards one by one, then the call sites and the next number.\<close>

definition advance_reset :: "nat \<Rightarrow> nat \<Rightarrow> conc \<Rightarrow> conc option" where
  "advance_reset k t c =
     (if k < NUM_SHARDS then Some (set_pc t (At_reset (k + 1)) (on_state (clear_shard k) c))
      else if k = NUM_SHARDS
      then (if c_map_lock c \<noteq> None then None
            else Some (set_pc t (At_reset (k + 1)) (on_state (\<lambda>s. s\<lparr>hs_callsite_map := []\<rparr>) c)))
      else if k = NUM_SHARDS + 1
      then (if c_sites_lock c \<noteq> [] then None
            else Some (set_pc t (At_reset (k + 1)) (on_state (\<lambda>s. s\<lparr>hs_callsites := []\<rparr>) c)))
      else Some (set_pc t Idle (on_state (\<lambda>s. s\<lparr>hs_next_callsite_id := 1\<rparr>) c)))"

declare advance_reset_def [simp]

fun advance_pc :: "pc \<Rightarrow> nat \<Rightarrow> conc \<Rightarrow> conc option" where
  "advance_pc Idle t c = None"
| "advance_pc (At_lookup ips ptr sz) t c =
     (if c_map_lock c \<noteq> None then None
      else Some (case hm_get (=) (hs_callsite_map (c_state c)) ips of
                   Some i \<Rightarrow> set_pc t (At_count 0 i ips ptr sz) c
                 | None \<Rightarrow> set_pc t (At_create ips ptr sz) c))"
| "advance_pc (At_create ips ptr sz) t c =
     (if c_map_lock c \<noteq> None then None
      else Some (case hm_get (=) (hs_callsite_map (c_state c)) ips of
                   Some i \<Rightarrow> set_pc t (At_count 0 i ips ptr sz) c
                 | None \<Rightarrow>
                     let i = hs_next_callsite_id (c_state c)
                     in set_pc t (At_new_site i ips ptr sz)
                          ((on_state (\<lambda>s. s\<lparr>hs_next_callsite_id := i + 1\<rparr>) c)\<lparr>c_map_lock := Some t\<rparr>)))"
| "advance_pc (At_new_site i ips ptr sz) t c =
     (if c_sites_lock c \<noteq> [] then None
      else Some (set_pc t (At_count 0 i ips ptr sz) ((on_state (new_site i ips) c)\<lparr>c_map_lock := None\<rparr>)))"
| "advance_pc (At_count k i ips ptr sz) t c = Some
     (let c' = on_state (update_callsite i (count_step k sz)) c
      in if k = 0 then (if hm_get (=) (hs_callsites (c_state c)) i = None then set_pc t (At_insert i ips ptr sz) c
                        else set_pc t (At_count 1 i ips ptr sz) (lock_sites t c'))
         else if k < 3 then set_pc t (At_count (k + 1) i ips ptr sz) c'
         else set_pc t (At_insert i ips ptr sz) (unlock_sites t c'))"
| "advance_pc (At_insert i ips ptr sz) t c = Some
     (set_pc t Idle (set_in_alloc t False ((on_state (shard_insert ptr (i, sz)) c)
        \<lparr>c_live := (c_live c)(ptr \<mapsto> Some (ips, sz))\<rparr>)))"
| "advance_pc (At_remove ptr k) t c = Some
     (let c' = on_state (shard_remove ptr) c
      in case shard_get (c_state c) ptr of
           Some (i, sz) \<Rightarrow> set_pc t (At_uncount 0 i sz k) c'
         | None \<Rightarrow> dealloc_done t k c')"
| "advance_pc (At_uncount n i sz k) t c = Some
     (let c' = on_state (update_callsite i (uncount_step n sz)) c
      in if n = 0 then (if hm_get (=) (hs_callsites (c_state c)) i = None then dealloc_done t k c
                        else set_pc t (At_uncount 1 i sz k) (lock_sites t c'))
         else dealloc_done t k (unlock_sites t c'))"
| "advance_pc (At_free ptr) t c = Some (set_pc t Idle (c\<lparr>c_inner := c_inner c - {ptr}\<rparr>))"
| "advance_pc (At_reset k) t c = advance_reset k t c"

section \<open>Schedules\<close>

datatype action =
    Call_alloc nat "usize list" usize usize
  | Call_dealloc nat usize
  | Call_realloc nat "usize list" usize usize usize
  | Call_reset nat
  | Report_begin nat
  | Report_end nat
  | Set_profiling bool
  | Set_rate usize
  | Nested_alloc nat usize
  | Nested_free nat usize
  | Step nat

definition conc_alloc :: "config \<Rightarrow> nat \<Rightarrow> usize list \<Rightarrow> usize \<Rightarrow> usize \<Rightarrow> conc \<Rightarrow> conc" where
  "conc_alloc cfg t frames ptr sz c =
     (let h = c_heap c; c = c\<lparr>c_inner := insert ptr (c_inner c)\<rparr>
      in if \<not> h_profiling h then c\<lparr>c_live := (c_live c)(ptr \<mapsto> None)\<rparr>
         else let tl = h_tls h t; remaining = tl_bytes_left tl - sz
              in if sint remaining \<le> 0
                 then set_pc t (At_lookup (trace_ips (MAX_DEPTH cfg) frames []) ptr sz)
                        (c\<lparr>c_heap := set_tls t \<lparr>tl_in_alloc = True, tl_bytes_left = h_rate h\<rparr> h\<rparr>)
                 else c\<lparr>c_heap := set_tls t (tl\<lparr>tl_bytes_left := remaining\<rparr>) h, c_live := (c_live c)(ptr \<mapsto> None)\<rparr>)"

definition conc_dealloc :: "nat \<Rightarrow> usize \<Rightarrow> conc \<Rightarrow> conc" where
  "conc_dealloc t ptr c =
     (let c = c\<lparr>c_live := (c_live c)(ptr := None)\<rparr>
      in if h_profiling (c_heap c) then set_pc t (At_remove ptr (Then_free ptr)) (set_in_alloc t True c)
         else c\<lparr>c_inner := c_inner c - {ptr}\<rparr>)"

definition conc_realloc :: "config \<Rightarrow> nat \<Rightarrow> usize list \<Rightarrow> usize \<Rightarrow> usize \<Rightarrow> usize \<Rightarrow> conc \<Rightarrow> conc" where
  "conc_realloc cfg t frames ptr new_ptr new_size c =
     (let c = c\<lparr>c_inner := insert new_ptr (c_inner c - {ptr}), c_live := (c_live c)(ptr := None)\<rparr>
      in if h_profiling (c_heap c)
         then set_pc t (At_remove ptr (Then_sample (trace_ips (MAX_DEPTH cfg) frames []) new_ptr new_size))
                (set_in_alloc t True c)
         else c\<lparr>c_live := (c_live c)(new_ptr \<mapsto> None)\<rparr>)"

text \<open>
  A program calls a hook with a block it owns, a thread is in one hook at a time, and the wrapped allocator returns blocks
  that are not in use (or null, after which nothing happens). \<^verbatim>\<open>heap_report\<close> allocates while it holds its guard, so a
  thread inside it can call hooks.
\<close>

fun conc_step :: "config \<Rightarrow> action \<Rightarrow> conc \<Rightarrow> conc option" where
  "conc_step cfg (Call_alloc t frames ptr sz) c =
     (if c_pc c t \<noteq> Idle \<or> ptr \<in> c_inner c then None
      else if ptr = 0 then Some c else Some (conc_alloc cfg t frames ptr sz c))"
| "conc_step cfg (Call_dealloc t ptr) c =
     (if c_pc c t \<noteq> Idle \<or> c_live c ptr = None then None else Some (conc_dealloc t ptr c))"
| "conc_step cfg (Call_realloc t frames ptr new_ptr sz) c =
     (if c_pc c t \<noteq> Idle \<or> c_live c ptr = None \<or> new_ptr \<noteq> ptr \<and> new_ptr \<in> c_inner c then None
      else if new_ptr = 0 then Some c else Some (conc_realloc cfg t frames ptr new_ptr sz c))"
| "conc_step cfg (Call_reset t) c =
     (if c_pc c t \<noteq> Idle \<or> t \<in> set (c_sites_lock c) then None else Some (set_pc t (At_reset 0) c))"
| "conc_step cfg (Report_begin t) c =
     (if c_pc c t \<noteq> Idle \<or> t \<in> set (c_sites_lock c) then None else Some (lock_sites t c))"
| "conc_step cfg (Report_end t) c =
     (if c_pc c t \<noteq> Idle \<or> t \<notin> set (c_sites_lock c) then None else Some (unlock_sites t c))"
| "conc_step cfg (Set_profiling b) c = Some (c\<lparr>c_heap := (c_heap c)\<lparr>h_profiling := b\<rparr>\<rparr>)"
| "conc_step cfg (Set_rate r) c = Some (c\<lparr>c_heap := set_sample_rate r (c_heap c)\<rparr>)"
| "conc_step cfg (Nested_alloc t ptr) c =
     (if \<not> tl_in_alloc (h_tls (c_heap c) t) \<or> ptr = 0 \<or> ptr \<in> c_inner c then None
      else Some (c\<lparr>c_inner := insert ptr (c_inner c), c_priv := insert ptr (c_priv c)\<rparr>))"
| "conc_step cfg (Nested_free t ptr) c =
     (if \<not> tl_in_alloc (h_tls (c_heap c) t) \<or> ptr \<notin> c_priv c then None
      else Some (c\<lparr>c_inner := c_inner c - {ptr}, c_priv := c_priv c - {ptr}\<rparr>))"
| "conc_step cfg (Step t) c = advance_pc (c_pc c t) t c"

text \<open>
  A schedule runs the actions one after the other; \<open>None\<close> means that one of them was not enabled. The locale \<open>schedule_invariant\<close> is
  the contract of an invariant that may need a bound on the length of the schedule: \<open>inv n s\<close> says that it holds with \<open>n\<close> actions left.
\<close>

primrec run_schedule :: "('a \<Rightarrow> 's \<Rightarrow> 's option) \<Rightarrow> 'a list \<Rightarrow> 's \<Rightarrow> 's option" where
  "run_schedule step [] s = Some s"
| "run_schedule step (a # as) s = Option.bind (step a s) (run_schedule step as)"

lemma run_schedule_append: "run_schedule step (as @ bs) s = Option.bind (run_schedule step as s) (run_schedule step bs)"
  by (induction as arbitrary: s) (simp_all add: Option.bind_assoc cong: Option.bind_cong)

locale schedule_invariant =
  fixes step :: "'a \<Rightarrow> 's \<Rightarrow> 's option"
    and ok :: "'a \<Rightarrow> bool"
    and inv :: "nat \<Rightarrow> 's \<Rightarrow> bool"
  assumes step_inv: "inv (Suc n) s \<Longrightarrow> ok a \<Longrightarrow> step a s = Some s' \<Longrightarrow> inv n s'"
begin

lemma run_inv: "run_schedule step as s = Some s' \<Longrightarrow> \<forall>a \<in> set as. ok a \<Longrightarrow> inv (n + length as) s \<Longrightarrow> inv n s'"
  by (induction as arbitrary: s) (auto simp: bind_eq_Some_conv dest: step_inv)

end

definition conc_run :: "config \<Rightarrow> action list \<Rightarrow> conc \<Rightarrow> conc option" where
  "conc_run cfg = run_schedule (conc_step cfg)"

lemma conc_run_simps [simp]:
  "conc_run cfg [] c = Some c" "conc_run cfg (a # as) c = Option.bind (conc_step cfg a c) (conc_run cfg as)"
  by (simp_all add: conc_run_def)

lemma conc_run_append: "conc_run cfg (as @ bs) c = Option.bind (conc_run cfg as c) (conc_run cfg bs)"
  by (simp add: conc_run_def run_schedule_append)

definition quiescent :: "conc \<Rightarrow> bool" where
  "quiescent c \<longleftrightarrow> (\<forall>t. c_pc c t = Idle)"

fun action_thread :: "action \<Rightarrow> nat" where
  "action_thread (Call_alloc t frames ptr sz) = t"
| "action_thread (Call_dealloc t ptr) = t"
| "action_thread (Call_realloc t frames ptr new_ptr sz) = t"
| "action_thread (Call_reset t) = t"
| "action_thread (Report_begin t) = t"
| "action_thread (Report_end t) = t"
| "action_thread (Nested_alloc t ptr) = t"
| "action_thread (Nested_free t ptr) = t"
| "action_thread (Step t) = t"
| "action_thread _ = 0"

lemmas conc_defs = set_pc_def on_state_def set_in_alloc_def lock_sites_def unlock_sites_def set_tls_def

definition after_pc :: "after \<Rightarrow> pc" where
  "after_pc k = (case k of Then_free ptr \<Rightarrow> At_free ptr | Then_sample ips ptr sz \<Rightarrow> At_lookup ips ptr sz)"

lemma dealloc_done_pc:
  "c_pc (dealloc_done t k c) = (c_pc c)(t := case k of Then_free ptr \<Rightarrow> At_free ptr | Then_sample ips ptr sz \<Rightarrow> At_lookup ips ptr sz)"
  "c_state (dealloc_done t k c) = c_state c" "c_live (dealloc_done t k c) = c_live c"
  "c_inner (dealloc_done t k c) = c_inner c" "c_priv (dealloc_done t k c) = c_priv c"
  "c_map_lock (dealloc_done t k c) = c_map_lock c" "h_profiling (c_heap (dealloc_done t k c)) = h_profiling (c_heap c)"
  "c_sites_lock (dealloc_done t k c) = c_sites_lock c"
  "u \<noteq> t \<Longrightarrow> h_tls (c_heap (dealloc_done t k c)) u = h_tls (c_heap c) u"
  "tl_in_alloc (h_tls (c_heap (dealloc_done t k c)) t) \<longleftrightarrow> tl_in_alloc (h_tls (c_heap c) t) \<and> (\<forall>ptr. k \<noteq> Then_free ptr)"
  by (auto simp: dealloc_done_def conc_defs split: after.splits)

lemmas dealloc_done_facts = dealloc_done_pc [folded after_pc_def]

text \<open>A thread that a schedule does not name does not move.\<close>

lemma advance_pc_other: "advance_pc p t c = Some c' \<Longrightarrow> u \<noteq> t \<Longrightarrow> c_pc c' u = c_pc c u"
  by (cases p) (auto simp: conc_defs Let_def dealloc_done_facts split: if_splits option.splits)

lemma conc_step_other: "conc_step cfg a c = Some c' \<Longrightarrow> u \<noteq> action_thread a \<Longrightarrow> c_pc c' u = c_pc c u"
  by (cases a)
     (auto simp: conc_alloc_def conc_dealloc_def conc_realloc_def conc_defs Let_def split: if_splits dest: advance_pc_other)

lemma conc_run_other: "conc_run cfg sched c = Some c' \<Longrightarrow> u \<notin> action_thread ` set sched \<Longrightarrow> c_pc c' u = c_pc c u"
  by (induction sched arbitrary: c) (auto simp: bind_eq_Some_conv dest: conc_step_other)

lemma conc_run_quiescent:
  assumes "conc_run cfg sched (conc_init h) = Some c" and "list_all (\<lambda>a. action_thread a \<in> set ts) sched"
    and "map (c_pc c) ts = map (\<lambda>_. Idle) ts"
  shows "quiescent c"
  unfolding quiescent_def
proof
  fix u
  show "c_pc c u = Idle"
    using assms conc_run_other [OF assms(1), of u]
    by (cases "u \<in> action_thread ` set sched") (auto simp: conc_init_def list_all_iff)
qed

section \<open>The heap state under one step\<close>

text \<open>\<open>heap_shape\<close> is \<open>heap_inv\<close> without the counters, which are exact only when no hook is running.\<close>

definition heap_shape :: "HeapState \<Rightarrow> bool" where
  "heap_shape s \<longleftrightarrow> length (hs_shards s) = NUM_SHARDS \<and>
     (\<forall>i < NUM_SHARDS. hm_distinct (=) (hs_shards s ! i)) \<and> hm_distinct (=) (hs_callsites s) \<and>
     (\<forall>ips i. hm_get (=) (hs_callsite_map s) ips = Some i \<longleftrightarrow>
        (\<exists>d. hm_get (=) (hs_callsites s) i = Some d \<and> cd_ips d = ips)) \<and>
     (\<forall>i d. hm_get (=) (hs_callsites s) i = Some d \<longrightarrow> i < hs_next_callsite_id s) \<and>
     (\<forall>p i sz. shard_get s p = Some (i, sz) \<longrightarrow> (\<exists>d. hm_get (=) (hs_callsites s) i = Some d))"

abbreviation site :: "HeapState \<Rightarrow> u64 \<Rightarrow> CallsiteData option" where
  "site s i \<equiv> hm_get (=) (hs_callsites s) i"

lemma heap_inv_shape:
  "heap_inv s \<longleftrightarrow> heap_shape s \<and> (\<forall>i d. site s i = Some d \<longrightarrow> counters_ok (heap_abs s) d)"
  unfolding heap_inv_def heap_shape_def shard_get_def by (simp only: conj_assoc)

lemma heap_abs_shard_get:
  "heap_abs s p = (case shard_get s p of Some (i, sz) \<Rightarrow> map_option (\<lambda>d. (cd_ips d, sz)) (site s i) | None \<Rightarrow> None)"
  by (simp add: heap_abs_def shard_get_def)

lemma heap_shape_site: "heap_shape s \<Longrightarrow> shard_get s p = Some (i, sz) \<Longrightarrow> \<exists>d. site s i = Some d"
  unfolding heap_shape_def by blast

lemma heap_shape_map:
  "heap_shape s \<Longrightarrow> hm_get (=) (hs_callsite_map s) ips = Some i \<longleftrightarrow> (\<exists>d. site s i = Some d \<and> cd_ips d = ips)"
  unfolding heap_shape_def by blast

lemma heap_shape_distinct: "heap_shape s \<Longrightarrow> hm_distinct (=) (hs_shards s ! shard_idx p)"
  using shard_idx_less by (simp add: heap_shape_def)

lemma heap_shape_length: "heap_shape s \<Longrightarrow> length (hs_shards s) = NUM_SHARDS"
  by (simp add: heap_shape_def)

lemma shard_get_insert:
  assumes "heap_shape s"
  shows "shard_get (shard_insert p e s) q = (if q = p then Some e else shard_get s q)"
  using heap_shape_length [OF assms] shard_idx_less [of p]
  by (cases "shard_idx q = shard_idx p") (auto simp: shard_get_def shard_insert_def std_eq.get_insert)

lemma shard_get_remove:
  assumes "heap_shape s"
  shows "shard_get (shard_remove p s) q = (if q = p then None else shard_get s q)"
  using heap_shape_length [OF assms] shard_idx_less [of p] heap_shape_distinct [OF assms, of p]
  by (cases "shard_idx q = shard_idx p") (auto simp: shard_get_def shard_remove_def std_eq.get_remove)

lemma site_update: "site (update_callsite i f s) j = (if j = i then map_option f (site s i) else site s j)"
  by (auto simp: update_callsite_def std_eq.get_insert split: option.splits)

lemma update_callsite_other [simp]:
  "hs_shards (update_callsite i f s) = hs_shards s" "hs_callsite_map (update_callsite i f s) = hs_callsite_map s"
  "hs_next_callsite_id (update_callsite i f s) = hs_next_callsite_id s"
  "shard_get (update_callsite i f s) p = shard_get s p"
  by (simp_all add: update_callsite_def shard_get_def split: option.splits)

lemma shard_update_other [simp]:
  "hs_callsites (shard_insert p e s) = hs_callsites s" "hs_callsites (shard_remove p s) = hs_callsites s"
  "hs_callsite_map (shard_insert p e s) = hs_callsite_map s" "hs_callsite_map (shard_remove p s) = hs_callsite_map s"
  "hs_next_callsite_id (shard_insert p e s) = hs_next_callsite_id s"
  "hs_next_callsite_id (shard_remove p s) = hs_next_callsite_id s"
  by (simp_all add: shard_insert_def shard_remove_def)

lemma count_step_ips [simp]: "cd_ips (count_step k sz d) = cd_ips d" "cd_ips (uncount_step k sz d) = cd_ips d"
  by (simp_all add: count_step_def uncount_step_def)

lemma heap_shape_update:
  assumes "heap_shape s" and ips: "\<And>d. cd_ips (f d) = cd_ips d"
  shows "heap_shape (update_callsite i f s)"
proof -
  have "hm_distinct (=) (hs_callsites (update_callsite i f s))"
    using assms(1) by (auto simp: update_callsite_def heap_shape_def std_eq.distinct_insert split: option.splits)
  moreover have "(\<exists>d. site (update_callsite i f s) j = Some d \<and> cd_ips d = xs) \<longleftrightarrow> (\<exists>d. site s j = Some d \<and> cd_ips d = xs)"
    for j xs
    by (auto simp: site_update ips)
  moreover have "(\<exists>d. site (update_callsite i f s) j = Some d) \<longleftrightarrow> (\<exists>d. site s j = Some d)" for j
    by (auto simp: site_update)
  ultimately show ?thesis using assms(1) unfolding heap_shape_def by simp
qed

lemma heap_shape_shard:
  assumes "heap_shape s" and "hm_distinct (=) sh"
    and "\<And>p i sz. shard_get (s\<lparr>hs_shards := (hs_shards s)[k := sh]\<rparr>) p = Some (i, sz) \<Longrightarrow> \<exists>d. site s i = Some d"
  shows "heap_shape (s\<lparr>hs_shards := (hs_shards s)[k := sh]\<rparr>)"
proof -
  have "hm_distinct (=) ((hs_shards s)[k := sh] ! j)" if "j < NUM_SHARDS" for j
    using assms(1,2) that by (cases "j = k") (auto simp: heap_shape_def)
  with assms(1) assms(3) show ?thesis unfolding heap_shape_def by simp
qed

lemma heap_shape_insert:
  assumes "heap_shape s" and "site s i = Some d"
  shows "heap_shape (shard_insert p (i, sz) s)"
  unfolding shard_insert_def
proof (rule heap_shape_shard [OF assms(1)])
  show "hm_distinct (=) (hm_insert (=) (hs_shards s ! shard_idx p) p (i, sz))"
    by (rule std_eq.distinct_insert [OF heap_shape_distinct [OF assms(1)]])
  show "\<exists>d. site s j = Some d" if
    "shard_get (s\<lparr>hs_shards := (hs_shards s)[shard_idx p := hm_insert (=) (hs_shards s ! shard_idx p) p (i, sz)]\<rparr>) q = Some (j, n)"
    for q j n
    using that shard_get_insert [OF assms(1), of p "(i, sz)" q] heap_shape_site [OF assms(1), of q j n] assms(2)
    by (auto simp: shard_insert_def split: if_splits)
qed

lemma heap_shape_remove:
  assumes "heap_shape s"
  shows "heap_shape (shard_remove p s)"
  unfolding shard_remove_def
proof (rule heap_shape_shard [OF assms])
  show "hm_distinct (=) (hm_remove (=) (hs_shards s ! shard_idx p) p)"
    by (rule std_eq.distinct_remove [OF heap_shape_distinct [OF assms]])
  show "\<exists>d. site s j = Some d" if
    "shard_get (s\<lparr>hs_shards := (hs_shards s)[shard_idx p := hm_remove (=) (hs_shards s ! shard_idx p) p]\<rparr>) q = Some (j, n)"
    for q j n
    using that shard_get_remove [OF assms, of p q] heap_shape_site [OF assms, of q j n]
    by (auto simp: shard_remove_def split: if_splits)
qed

lemma site_new_site:
  "site (new_site i ips s) j = (if j = i then Some \<lparr>cd_ips = ips, cd_alloc_objects = 0, cd_alloc_bytes = 0,
     cd_inuse_objects = 0, cd_inuse_bytes = 0\<rparr> else site s j)"
  by (simp add: new_site_def std_eq.get_insert)

lemma new_site_other [simp]:
  "hs_shards (new_site i ips s) = hs_shards s" "hs_next_callsite_id (new_site i ips s) = hs_next_callsite_id s"
  "shard_get (new_site i ips s) p = shard_get s p"
  "hm_get (=) (hs_callsite_map (new_site i ips s)) xs = (if xs = ips then Some i else hm_get (=) (hs_callsite_map s) xs)"
  by (auto simp: new_site_def shard_get_def std_eq.get_insert)

lemma heap_shape_new_site:
  assumes "heap_shape s" and "site s i = None" and "i < hs_next_callsite_id s" and "hm_get (=) (hs_callsite_map s) ips = None"
  shows "heap_shape (new_site i ips s)"
proof -
  have no: "cd_ips d \<noteq> ips" if "site s j = Some d" for j d
    using heap_shape_map [OF assms(1), of ips j] assms(4) that by auto
  have "hm_distinct (=) (hs_callsites (new_site i ips s))"
    using assms(1) by (simp add: new_site_def heap_shape_def std_eq.distinct_insert)
  moreover have "(if xs = ips then Some i else hm_get (=) (hs_callsite_map s) xs) = Some j \<longleftrightarrow>
      (\<exists>d. site (new_site i ips s) j = Some d \<and> cd_ips d = xs)" for xs j
    using heap_shape_map [OF assms(1), of xs j] no [of j] assms(2) by (auto simp: site_new_site)
  moreover have "j < hs_next_callsite_id s" if "site (new_site i ips s) j = Some d" for j d
    using that assms(1,3) unfolding heap_shape_def by (auto simp: site_new_site split: if_splits)
  moreover have "\<exists>d. site (new_site i ips s) j = Some d" if "shard_get s p = Some (j, sz)" for p j sz
    using heap_shape_site [OF assms(1) that] by (simp add: site_new_site)
  ultimately show ?thesis using assms(1) unfolding heap_shape_def by simp
qed

lemma heap_shape_next_id:
  assumes "heap_shape s" and "unat (hs_next_callsite_id s) < 2 ^ 64 - 1"
  shows "heap_shape (s\<lparr>hs_next_callsite_id := hs_next_callsite_id s + 1\<rparr>)"
    and "hs_next_callsite_id s < hs_next_callsite_id s + 1" and "site s (hs_next_callsite_id s) = None"
proof -
  have "unat (hs_next_callsite_id s + 1) = Suc (unat (hs_next_callsite_id s))"
    using assms(2) by (simp add: unat_word_ariths)
  then show lt: "hs_next_callsite_id s < hs_next_callsite_id s + 1" by (simp add: word_less_nat_alt)
  have ids: "i < hs_next_callsite_id s" if "site s i = Some d" for i d
    using assms(1) that unfolding heap_shape_def by blast
  then have "i < hs_next_callsite_id s + 1" if "site s i = Some d" for i d
    using that lt by (meson less_trans)
  then show "heap_shape (s\<lparr>hs_next_callsite_id := hs_next_callsite_id s + 1\<rparr>)"
    using assms(1) unfolding heap_shape_def shard_get_def by simp
  show "site s (hs_next_callsite_id s) = None" using ids [of "hs_next_callsite_id s"] by fastforce
qed

section \<open>A hook alone\<close>

text \<open>When one thread runs, its steps are the operations of theory \<open>Alloc\<close>.\<close>

definition runs_to :: "nat \<Rightarrow> conc \<Rightarrow> conc \<Rightarrow> bool" where
  "runs_to t c c' \<longleftrightarrow> (\<exists>n. \<forall>cfg. conc_run cfg (replicate n (Step t)) c = Some c')"

lemma runs_to_refl: "runs_to t c c"
  unfolding runs_to_def by (rule exI [of _ 0]) simp

lemma runs_to_one: "advance_pc (c_pc c t) t c = Some c' \<Longrightarrow> runs_to t c c'"
  unfolding runs_to_def by (rule exI [of _ 1]) simp

lemma runs_to_trans [trans]:
  assumes "runs_to t a b" and "runs_to t b c"
  shows "runs_to t a c"
proof -
  obtain n m where "\<forall>cfg. conc_run cfg (replicate n (Step t)) a = Some b" "\<forall>cfg. conc_run cfg (replicate m (Step t)) b = Some c"
    using assms unfolding runs_to_def by blast
  then show ?thesis
    unfolding runs_to_def by (intro exI [of _ "n + m"]) (simp add: replicate_add conc_run_append)
qed

lemma hm_insert_twice: "hm_insert (=) (hm_insert (=) m k a) k b = hm_insert (=) m k b"
  by (induction m) auto

lemma update_callsite_twice: "update_callsite i g (update_callsite i f s) = update_callsite i (\<lambda>d. g (f d)) s"
  by (auto simp: update_callsite_def std_eq.get_insert hm_insert_twice split: option.splits)

definition count_all :: "usize \<Rightarrow> CallsiteData \<Rightarrow> CallsiteData" where
  "count_all sz d = d\<lparr>cd_alloc_objects := cd_alloc_objects d + 1, cd_alloc_bytes := cd_alloc_bytes d + sz,
     cd_inuse_objects := cd_inuse_objects d + 1, cd_inuse_bytes := cd_inuse_bytes d + sz\<rparr>"

lemma count_steps: "count_step 3 sz (count_step 2 sz (count_step 1 sz (count_step 0 sz d))) = count_all sz d"
  by (simp add: count_step_def count_all_def)

text \<open>A thread at \<open>p\<close> with the locks free, as a function of the rest of its state.\<close>

definition at_pc :: "conc \<Rightarrow> nat \<Rightarrow> pc \<Rightarrow> HeapState \<Rightarrow> conc" where
  "at_pc c t p s = c\<lparr>c_pc := (c_pc c)(t := p), c_heap := (c_heap c)\<lparr>h_state := s\<rparr>\<rparr>"

lemma at_pc_simps [simp]:
  "c_pc (at_pc c t p s) t = p" "c_state (at_pc c t p s) = s" "c_map_lock (at_pc c t p s) = c_map_lock c"
  "c_sites_lock (at_pc c t p s) = c_sites_lock c" "c_live (at_pc c t p s) = c_live c" "c_inner (at_pc c t p s) = c_inner c"
  "set_pc t q (at_pc c t p s) = at_pc c t q s" "on_state f (at_pc c t p s) = at_pc c t p (f s)"
  "unlock_sites t (lock_sites t (at_pc c t p s)) = at_pc c t p s" "at_pc (at_pc c t p s) t q r = at_pc c t q r"
  by (simp_all add: at_pc_def conc_defs)

lemma at_pc_locks:
  "lock_sites t (at_pc c t p s) = at_pc (lock_sites t c) t p s" "unlock_sites t (at_pc c t p s) = at_pc (unlock_sites t c) t p s"
  "unlock_sites t (lock_sites t c) = c" "(at_pc c t p s)\<lparr>c_map_lock := l\<rparr> = at_pc (c\<lparr>c_map_lock := l\<rparr>) t p s"
  by (simp_all add: at_pc_def conc_defs)

lemma update_none: "site s i = None \<Longrightarrow> update_callsite i f s = s"
  by (simp add: update_callsite_def)

lemma count_runs:
  "runs_to t (at_pc c t (At_count 0 i ips ptr sz) s) (at_pc c t (At_insert i ips ptr sz) (update_callsite i (count_all sz) s))"
proof (cases "site s i")
  case None
  then show ?thesis by (intro runs_to_one) (simp add: update_none)
next
  case (Some d)
  let ?u = "\<lambda>k. update_callsite i (count_step k sz)"
  have sum: "?u 3 (?u 2 (?u 1 (?u 0 s))) = update_callsite i (count_all sz) s"
    by (simp only: update_callsite_twice count_steps)
  have "runs_to t (at_pc c t (At_count 0 i ips ptr sz) s) (at_pc (lock_sites t c) t (At_count 1 i ips ptr sz) (?u 0 s))"
    using Some by (intro runs_to_one) (simp add: at_pc_locks)
  also have "runs_to t \<dots> (at_pc (lock_sites t c) t (At_count 2 i ips ptr sz) (?u 1 (?u 0 s)))"
    by (intro runs_to_one) (simp add: numeral_2_eq_2)
  also have "runs_to t \<dots> (at_pc (lock_sites t c) t (At_count 3 i ips ptr sz) (?u 2 (?u 1 (?u 0 s))))"
    by (intro runs_to_one) simp
  also have "runs_to t \<dots> (at_pc c t (At_insert i ips ptr sz) (?u 3 (?u 2 (?u 1 (?u 0 s)))))"
    by (intro runs_to_one) (simp add: at_pc_locks)
  finally show ?thesis unfolding sum .
qed

lemma lookup_runs:
  assumes "c_map_lock c = None" and "c_sites_lock c = []"
  shows "runs_to t (at_pc c t (At_lookup ips ptr sz) s)
    (at_pc c t (At_count 0 (snd (callsite_of s ips)) ips ptr sz) (fst (callsite_of s ips)))"
proof (cases "hm_get (=) (hs_callsite_map s) ips")
  case (Some i)
  then show ?thesis using assms by (intro runs_to_one) (simp add: callsite_of_def)
next
  case None
  let ?i = "hs_next_callsite_id s"
  let ?s = "s\<lparr>hs_next_callsite_id := ?i + 1\<rparr>"
  have "runs_to t (at_pc c t (At_lookup ips ptr sz) s) (at_pc c t (At_create ips ptr sz) s)"
    using None assms(1) by (intro runs_to_one) simp
  also have "runs_to t \<dots> (at_pc (c\<lparr>c_map_lock := Some t\<rparr>) t (At_new_site ?i ips ptr sz) ?s)"
    using None assms(1) by (intro runs_to_one) (simp add: at_pc_locks Let_def)
  also have "runs_to t \<dots> (at_pc (c\<lparr>c_map_lock := None\<rparr>) t (At_count 0 ?i ips ptr sz) (new_site ?i ips ?s))"
    using assms(2) by (intro runs_to_one) (simp add: at_pc_locks)
  also have "c\<lparr>c_map_lock := None\<rparr> = c" using assms(1) by simp
  finally show ?thesis using None by (simp add: callsite_of_def new_site_def Let_def)
qed

lemma sample_runs:
  assumes "c_map_lock c = None" and "c_sites_lock c = []"
  shows "runs_to t (at_pc c t (At_lookup (trace_ips (MAX_DEPTH cfg) frames []) ptr sz) s)
    (set_in_alloc t False ((at_pc c t Idle (record_sample cfg frames ptr sz s))
      \<lparr>c_live := (c_live c)(ptr \<mapsto> Some (trace_ips (MAX_DEPTH cfg) frames [], sz))\<rparr>))"
proof -
  let ?ips = "trace_ips (MAX_DEPTH cfg) frames []"
  let ?i = "snd (callsite_of s ?ips)"
  have "record_sample cfg frames ptr sz s = shard_insert ptr (?i, sz) (update_callsite ?i (count_all sz) (fst (callsite_of s ?ips)))"
    by (simp add: record_sample_def shard_insert_def count_all_def [abs_def] split_beta Let_def)
  then have "runs_to t (at_pc c t (At_insert ?i ?ips ptr sz) (update_callsite ?i (count_all sz) (fst (callsite_of s ?ips))))
      (set_in_alloc t False ((at_pc c t Idle (record_sample cfg frames ptr sz s))\<lparr>c_live := (c_live c)(ptr \<mapsto> Some (?ips, sz))\<rparr>))"
    by (intro runs_to_one) (simp add: at_pc_def conc_defs)
  with runs_to_trans [OF lookup_runs [OF assms] count_runs] show ?thesis by (rule runs_to_trans)
qed

lemma dealloc_runs:
  "runs_to t (at_pc c t (At_remove ptr k) s) (dealloc_done t k (at_pc c t (At_remove ptr k) (record_dealloc ptr s)))"
proof (cases "shard_get s ptr")
  case None
  then show ?thesis
    by (intro runs_to_one) (simp add: record_dealloc_def shard_get_def shard_remove_def Let_def)
next
  case (Some e)
  obtain i sz where e: "e = (i, sz)" by (cases e)
  let ?s = "shard_remove ptr s"
  have done_eq: "dealloc_done t k (at_pc c t p s) = dealloc_done t k (at_pc c t q s)" for p q s
    by (simp add: dealloc_done_def at_pc_def conc_defs split: after.splits)
  have rd: "record_dealloc ptr s = update_callsite i (\<lambda>d. uncount_step 1 sz (uncount_step 0 sz d)) ?s"
    using Some e by (simp add: record_dealloc_def shard_get_def shard_remove_def uncount_step_def Let_def)
  have first: "runs_to t (at_pc c t (At_remove ptr k) s) (at_pc c t (At_uncount 0 i sz k) ?s)"
    using Some e by (intro runs_to_one) simp
  show ?thesis
  proof (rule runs_to_trans [OF first], cases "site ?s i")
    case None
    then show "runs_to t (at_pc c t (At_uncount 0 i sz k) ?s) (dealloc_done t k (at_pc c t (At_remove ptr k) (record_dealloc ptr s)))"
      unfolding rd done_eq [where p = "At_remove ptr k" and q = "At_uncount 0 i sz k"]
      by (intro runs_to_one) (simp add: update_none)
  next
    case (Some d)
    then have "runs_to t (at_pc c t (At_uncount 0 i sz k) ?s)
        (at_pc (lock_sites t c) t (At_uncount 1 i sz k) (update_callsite i (uncount_step 0 sz) ?s))"
      by (intro runs_to_one) (simp add: at_pc_locks)
    also have "runs_to t \<dots> (dealloc_done t k (at_pc c t (At_uncount 1 i sz k) (record_dealloc ptr s)))"
      by (intro runs_to_one) (simp add: at_pc_locks update_callsite_twice rd)
    finally show "runs_to t (at_pc c t (At_uncount 0 i sz k) ?s) (dealloc_done t k (at_pc c t (At_remove ptr k) (record_dealloc ptr s)))"
      unfolding done_eq [where p = "At_remove ptr k" and q = "At_uncount 1 i sz k"] .
  qed
qed

lemma clear_shards_runs:
  assumes "length (hs_shards s) = NUM_SHARDS"
  shows "k \<le> NUM_SHARDS \<Longrightarrow> runs_to t (at_pc c t (At_reset 0) s)
    (at_pc c t (At_reset k) (s\<lparr>hs_shards := replicate k [] @ drop k (hs_shards s)\<rparr>))"
proof (induction k)
  case 0
  then show ?case by (simp add: runs_to_refl)
next
  case (Suc k)
  then have "runs_to t (at_pc c t (At_reset 0) s) (at_pc c t (At_reset k) (s\<lparr>hs_shards := replicate k [] @ drop k (hs_shards s)\<rparr>))"
    by simp
  also have "runs_to t \<dots> (at_pc c t (At_reset (Suc k)) (s\<lparr>hs_shards := replicate (Suc k) [] @ drop (Suc k) (hs_shards s)\<rparr>))"
  proof -
    have "drop k (hs_shards s) = hs_shards s ! k # drop (Suc k) (hs_shards s)"
      using Suc.prems assms by (simp add: Cons_nth_drop_Suc)
    then show ?thesis
      using Suc.prems
      by (intro runs_to_one) (simp add: clear_shard_def list_update_append replicate_app_Cons_same)
  qed
  finally show ?case .
qed

lemma reset_runs:
  assumes "length (hs_shards s) = NUM_SHARDS" and "c_map_lock c = None" and "c_sites_lock c = []"
  shows "runs_to t (at_pc c t (At_reset 0) s) (at_pc c t Idle (HeapState_reset s))"
proof -
  let ?s = "s\<lparr>hs_shards := replicate NUM_SHARDS []\<rparr>"
  have "runs_to t (at_pc c t (At_reset 0) s) (at_pc c t (At_reset NUM_SHARDS) ?s)"
    using clear_shards_runs [OF assms(1), of NUM_SHARDS t c] assms(1) by simp
  also have "runs_to t \<dots> (at_pc c t (At_reset (NUM_SHARDS + 1)) (?s\<lparr>hs_callsite_map := []\<rparr>))"
    using assms(2) by (intro runs_to_one) simp
  also have "runs_to t \<dots> (at_pc c t (At_reset (NUM_SHARDS + 2)) (?s\<lparr>hs_callsite_map := [], hs_callsites := []\<rparr>))"
    using assms(3) by (intro runs_to_one) simp
  also have "runs_to t \<dots> (at_pc c t Idle (HeapState_reset s))"
  proof -
    have "HeapState_reset s = ?s\<lparr>hs_callsite_map := [], hs_callsites := [], hs_next_callsite_id := 1\<rparr>"
      using assms(1) by (cases s) (simp add: HeapState_reset_def map_replicate_const)
    then show ?thesis by (intro runs_to_one) simp
  qed
  finally show ?thesis .
qed

definition solo :: "config \<Rightarrow> nat \<Rightarrow> action \<Rightarrow> conc \<Rightarrow> heap \<Rightarrow> bool" where
  "solo cfg t a c h \<longleftrightarrow> (\<exists>n c'. conc_run cfg (a # replicate n (Step t)) c = Some c' \<and> c_heap c' = h \<and> c_pc c' = c_pc c \<and>
     c_map_lock c' = None \<and> c_sites_lock c' = [])"

lemma soloI:
  assumes "conc_step cfg a c = Some c1" and "runs_to t c1 c'" and "c_heap c' = h" and "c_pc c' = c_pc c" and "c_map_lock c' = None"
    and "c_sites_lock c' = []"
  shows "solo cfg t a c h"
proof -
  obtain n where "conc_run cfg (replicate n (Step t)) c1 = Some c'" using assms(2) unfolding runs_to_def by blast
  with assms show ?thesis unfolding solo_def by (intro exI [of _ n] exI [of _ c']) simp
qed

lemma soloI0:
  assumes "conc_step cfg a c = Some c1" and "c_heap c1 = h" and "c_pc c1 = c_pc c" and "c_map_lock c1 = None"
    and "c_sites_lock c1 = []"
  shows "solo cfg t a c h"
  by (rule soloI [OF assms(1) runs_to_refl assms(2-5)])

lemma solo_alloc:
  assumes idle: "c_pc c t = Idle" "\<not> tl_in_alloc (h_tls (c_heap c) t)" and free: "c_map_lock c = None" "c_sites_lock c = []"
    and new: "ptr \<notin> c_inner c"
  shows "solo cfg t (Call_alloc t frames ptr sz) c (snd (AllocProfiler_alloc cfg t frames ptr sz (c_heap c)))"
proof -
  let ?ips = "trace_ips (MAX_DEPTH cfg) frames []"
  have pc: "(c_pc c)(t := Idle) = c_pc c" using idle by (simp add: fun_upd_idem)
  consider "ptr = 0" | "ptr \<noteq> 0" "h_profiling (c_heap c)" "sampled (c_heap c) t sz"
    | "ptr \<noteq> 0" "\<not> (h_profiling (c_heap c) \<and> sampled (c_heap c) t sz)" by blast
  then show ?thesis
  proof cases
    case 1
    then show ?thesis using new idle free by (intro soloI0 [of _ _ _ c]) (simp_all add: AllocProfiler_alloc_def)
  next
    case 2
    let ?c = "c\<lparr>c_inner := insert ptr (c_inner c), c_heap := set_tls t \<lparr>tl_in_alloc = True, tl_bytes_left = h_rate (c_heap c)\<rparr> (c_heap c)\<rparr>"
    have step: "conc_step cfg (Call_alloc t frames ptr sz) c = Some (at_pc ?c t (At_lookup ?ips ptr sz) (c_state c))"
      using 2 new idle by (simp add: conc_alloc_def sampled_def Let_def at_pc_def conc_defs)
    show ?thesis
      by (rule soloI [OF step sample_runs])
         (use 2 idle free in \<open>simp_all add: at_pc_def conc_defs pc AllocProfiler_alloc_def sampled_def Let_def\<close>)
  next
    case 3
    then show ?thesis
      using new idle free
      by (intro soloI0 [of _ _ _ "conc_alloc cfg t frames ptr sz c"])
         (auto simp: conc_alloc_def sampled_def Let_def AllocProfiler_alloc_def conc_defs)
  qed
qed

lemma solo_dealloc:
  assumes idle: "c_pc c t = Idle" "\<not> tl_in_alloc (h_tls (c_heap c) t)" and free: "c_map_lock c = None" "c_sites_lock c = []"
    and live: "c_live c ptr \<noteq> None"
  shows "solo cfg t (Call_dealloc t ptr) c (AllocProfiler_dealloc t ptr (c_heap c))"
proof (cases "h_profiling (c_heap c)")
  case True
  let ?c = "set_in_alloc t True (c\<lparr>c_live := (c_live c)(ptr := None)\<rparr>)"
  have pc: "(c_pc c)(t := Idle) = c_pc c" using idle by (simp add: fun_upd_idem)
  have step: "conc_step cfg (Call_dealloc t ptr) c = Some (at_pc ?c t (At_remove ptr (Then_free ptr)) (c_state c))"
    using True live idle by (simp add: conc_dealloc_def Let_def at_pc_def conc_defs)
  let ?d = "dealloc_done t (Then_free ptr) (at_pc ?c t (At_remove ptr (Then_free ptr)) (record_dealloc ptr (c_state c)))"
  have "runs_to t ?d (set_pc t Idle (?d\<lparr>c_inner := c_inner ?d - {ptr}\<rparr>))"
    by (rule runs_to_one) (simp add: dealloc_done_facts(1), simp add: after_pc_def)
  from soloI [OF step runs_to_trans [OF dealloc_runs this]] show ?thesis
    using True idle free by (simp add: dealloc_done_def at_pc_def conc_defs pc AllocProfiler_dealloc_def Let_def)
next
  case False
  then show ?thesis
    using live idle free
    by (intro soloI0 [of _ _ _ "conc_dealloc t ptr c"]) (auto simp: conc_dealloc_def Let_def AllocProfiler_dealloc_def)
qed

lemma solo_realloc:
  assumes idle: "c_pc c t = Idle" "\<not> tl_in_alloc (h_tls (c_heap c) t)" and free: "c_map_lock c = None" "c_sites_lock c = []"
    and live: "c_live c ptr \<noteq> None" and new: "new_ptr = ptr \<or> new_ptr \<notin> c_inner c"
  shows "solo cfg t (Call_realloc t frames ptr new_ptr sz) c (snd (AllocProfiler_realloc cfg t frames ptr new_ptr sz (c_heap c)))"
proof -
  let ?ips = "trace_ips (MAX_DEPTH cfg) frames []"
  have pc: "(c_pc c)(t := Idle) = c_pc c" using idle by (simp add: fun_upd_idem)
  consider "new_ptr = 0" | "new_ptr \<noteq> 0" "h_profiling (c_heap c)" | "new_ptr \<noteq> 0" "\<not> h_profiling (c_heap c)" by blast
  then show ?thesis
  proof cases
    case 1
    then show ?thesis using new live idle free by (intro soloI0 [of _ _ _ c]) (auto simp: AllocProfiler_realloc_def)
  next
    case 2
    let ?c = "set_in_alloc t True (c\<lparr>c_inner := insert new_ptr (c_inner c - {ptr}), c_live := (c_live c)(ptr := None)\<rparr>)"
    let ?k = "Then_sample ?ips new_ptr sz"
    have step: "conc_step cfg (Call_realloc t frames ptr new_ptr sz) c = Some (at_pc ?c t (At_remove ptr ?k) (c_state c))"
      using 2 new live idle by (auto simp: conc_realloc_def Let_def at_pc_def conc_defs)
    have "dealloc_done t ?k (at_pc ?c t (At_remove ptr ?k) s) = at_pc ?c t (At_lookup ?ips new_ptr sz) s" for s
      by (simp add: dealloc_done_def)
    then have "runs_to t (at_pc ?c t (At_remove ptr ?k) (c_state c)) (at_pc ?c t (At_lookup ?ips new_ptr sz) (record_dealloc ptr (c_state c)))"
      using dealloc_runs [of t ?c ptr ?k "c_state c"] by simp
    from soloI [OF step runs_to_trans [OF this sample_runs]] show ?thesis
      using 2 idle free by (simp add: at_pc_def conc_defs pc AllocProfiler_realloc_def Let_def)
  next
    case 3
    then show ?thesis
      using new live idle free
      by (intro soloI0 [of _ _ _ "conc_realloc cfg t frames ptr new_ptr sz c"])
         (auto simp: conc_realloc_def Let_def AllocProfiler_realloc_def)
  qed
qed

lemma solo_reset:
  assumes idle: "c_pc c t = Idle" and free: "c_map_lock c = None" "c_sites_lock c = []"
    and len: "length (hs_shards (c_state c)) = NUM_SHARDS"
  shows "solo cfg t (Call_reset t) c (alloc_reset (c_heap c))"
proof -
  have step: "conc_step cfg (Call_reset t) c = Some (at_pc c t (At_reset 0) (c_state c))"
    using idle free by (simp add: at_pc_def set_pc_def)
  have "(c_pc c)(t := Idle) = c_pc c" using idle by (simp add: fun_upd_idem)
  then show ?thesis
    by (intro soloI [OF step reset_runs]) (use len free in \<open>simp_all add: at_pc_def alloc_reset_def\<close>)
qed

text \<open>
  The steps are those of the hooks. When the locks are free and a thread that is outside the hooks runs without interruption,
  then each of \<^verbatim>\<open>alloc\<close>, \<^verbatim>\<open>dealloc\<close>, \<^verbatim>\<open>realloc\<close> and \<^verbatim>\<open>reset\<close>, run step by step to its end, has exactly the effect on the profiler's
  state that theory \<open>Alloc\<close> gives it as one operation, and leaves the locks free; with profiling on or off, sampled or not, with a new
  call site or a known one.
\<close>

lemma hooks_solo:
  assumes "c_pc c t = Idle" and "\<not> tl_in_alloc (h_tls (c_heap c) t)" and "c_map_lock c = None" and "c_sites_lock c = []"
  shows "(ptr \<notin> c_inner c \<longrightarrow> solo cfg t (Call_alloc t frames ptr sz) c (snd (AllocProfiler_alloc cfg t frames ptr sz (c_heap c)))) \<and>
    (c_live c ptr \<noteq> None \<longrightarrow> solo cfg t (Call_dealloc t ptr) c (AllocProfiler_dealloc t ptr (c_heap c))) \<and>
    (c_live c ptr \<noteq> None \<and> (new_ptr = ptr \<or> new_ptr \<notin> c_inner c) \<longrightarrow>
       solo cfg t (Call_realloc t frames ptr new_ptr sz) c (snd (AllocProfiler_realloc cfg t frames ptr new_ptr sz (c_heap c)))) \<and>
    (length (hs_shards (c_state c)) = NUM_SHARDS \<longrightarrow> solo cfg t (Call_reset t) c (alloc_reset (c_heap c)))"
  using solo_alloc [OF assms] solo_dealloc [OF assms] solo_realloc [OF assms] solo_reset [OF assms(1,3,4)] by blast

lemma hooks_solo_witness:
  "solo default_config 0 (Call_alloc 0 [1] 0x1000 64) (conc_init (alloc_start heap_init))
     (snd (AllocProfiler_alloc default_config 0 [1] 0x1000 64 (alloc_start heap_init))) \<and>
   solo default_config 0 (Call_reset 0) (conc_init (alloc_start heap_init)) (alloc_reset (alloc_start heap_init))"
  using hooks_solo [of "conc_init (alloc_start heap_init)" 0 "0x1000" default_config "[1]" 64]
  by (simp add: conc_init_def alloc_start_def heap_init_def HeapState_new_def)

end
