(* ===== verification/Alloc_Wait.thy ===== *)
theory Alloc_Wait
  imports Alloc_Steps
begin

text \<open>
  The locks of the interleaved heap profiler: who waits for whom. The hooks and \<^verbatim>\<open>reset\<close> take their locks in one order and always end;
  \<^verbatim>\<open>heap_report\<close> takes them in another and can block itself.
\<close>

section \<open>Waiting\<close>

text \<open>
  \<open>stuck t p c\<close>: thread \<open>t\<close> holds a read guard of \<^verbatim>\<open>callsites\<close> and waits for the write guard of the same lock, with \<^verbatim>\<open>callsite_map\<close>
  locked. No step of any thread ends this.
\<close>

definition stuck :: "nat \<Rightarrow> pc \<Rightarrow> conc \<Rightarrow> bool" where
  "stuck t p c \<longleftrightarrow> c_pc c t = p \<and> (\<exists>i ips ptr sz. p = At_new_site i ips ptr sz) \<and> t \<in> set (c_sites_lock c) \<and> c_map_lock c = Some t"

lemma advance_pc_locks:
  assumes "advance_pc q u c = Some c'" and "t \<in> set (c_sites_lock c)" and "u \<noteq> t" and "c_map_lock c \<noteq> None"
  shows "t \<in> set (c_sites_lock c') \<and> c_map_lock c' = c_map_lock c"
  using assms
  by (cases q) (auto simp: conc_defs Let_def dealloc_done_facts in_set_remove1 split: if_splits option.splits)

lemma conc_step_stuck:
  assumes "stuck t p c" and "conc_step cfg a c = Some c'"
  shows "stuck t p c'"
proof (cases a)
  case (Step u)
  from assms(1) have st: "c_pc c t = p" "\<exists>i ips ptr sz. p = At_new_site i ips ptr sz" "t \<in> set (c_sites_lock c)"
    "c_map_lock c = Some t" by (simp_all add: stuck_def)
  have "u \<noteq> t" using assms(2) Step st by (auto split: if_splits)
  with advance_pc_locks [of "c_pc c u" u c c' t] advance_pc_other [of "c_pc c u" u c c' t] assms(2) Step st
  show ?thesis by (simp add: stuck_def)
next
  case (Report_end u)
  with assms have "u \<noteq> t" by (auto simp: stuck_def)
  with assms Report_end show ?thesis by (auto simp: stuck_def conc_defs in_set_remove1 split: if_splits)
qed (use assms in \<open>auto simp: stuck_def conc_alloc_def conc_dealloc_def conc_realloc_def conc_defs Let_def in_set_remove1
       split: if_splits\<close>)

interpretation waiting: schedule_invariant "conc_step cfg" "\<lambda>_. True" "\<lambda>_. stuck t p" for cfg t p
  by unfold_locales (rule conc_step_stuck)

text \<open>
  C24. \<^verbatim>\<open>heap_report\<close> can block itself and the whole program. It allocates while it holds the read guard of \<^verbatim>\<open>callsites\<close>, outside
  \<^verbatim>\<open>IN_ALLOC\<close>: when such an allocation is sampled and its stack is new, \<^verbatim>\<open>record_sample\<close> waits for the write guard of the same lock.
  From then on, whatever the threads do, the thread never leaves this point and never finishes the report, and no other thread
  gets past the lookup of a call site, because \<^verbatim>\<open>callsite_map\<close> stays locked.
\<close>

theorem report_blocks_itself:
  assumes "c_pc c t = Idle" and "t \<in> set (c_sites_lock c)" and "c_map_lock c = None" and "h_profiling (c_heap c)"
    and "ptr \<noteq> 0" and "ptr \<notin> c_inner c" and "sampled (c_heap c) t sz"
    and "hm_get (=) (hs_callsite_map (c_state c)) (site_ips cfg frames) = None"
  shows "\<exists>c1. conc_run cfg [Call_alloc t frames ptr sz, Step t, Step t] c = Some c1 \<and>
    (\<forall>sched c2. conc_run cfg sched c1 = Some c2 \<longrightarrow>
       c_pc c2 t = c_pc c1 t \<and> conc_step cfg (Step t) c2 = None \<and> conc_step cfg (Report_end t) c2 = None \<and>
       (\<forall>u ips p n. c_pc c2 u = At_lookup ips p n \<longrightarrow> conc_step cfg (Step u) c2 = None))"
proof -
  let ?p = "At_new_site (hs_next_callsite_id (c_state c)) (site_ips cfg frames) ptr sz"
  obtain c1 where run: "conc_run cfg [Call_alloc t frames ptr sz, Step t, Step t] c = Some c1" and st: "stuck t ?p c1"
    using assms by (simp add: conc_alloc_def Let_def sampled_def trace_ips_site conc_defs stuck_def)
  have "c_pc c2 t = c_pc c1 t \<and> conc_step cfg (Step t) c2 = None \<and> conc_step cfg (Report_end t) c2 = None \<and>
      (\<forall>u ips p n. c_pc c2 u = At_lookup ips p n \<longrightarrow> conc_step cfg (Step u) c2 = None)"
    if "conc_run cfg sched c1 = Some c2" for sched c2
    using waiting.run_inv [OF that [unfolded conc_run_def]] st by (auto simp: stuck_def)
  with run show ?thesis by blast
qed

theorem report_blocks_itself_witness:
  "\<exists>c c1. conc_run default_config [Report_begin 0] (conc_init (alloc_start heap_init)) = Some c \<and>
     conc_run default_config [Call_alloc 0 [1] 0x1000 64, Step 0, Step 0] c = Some c1 \<and>
     (\<forall>sched c2. conc_run default_config sched c1 = Some c2 \<longrightarrow> conc_step default_config (Report_end 0) c2 = None)"
proof -
  let ?c = "lock_sites 0 (conc_init (alloc_start heap_init))"
  have c: "conc_run default_config [Report_begin 0] (conc_init (alloc_start heap_init)) = Some ?c" by (simp add: conc_init_def)
  have "sampled (c_heap ?c) 0 64" by (simp add: sampled_def lock_sites_def conc_init_def alloc_start_def heap_init_def)
  then obtain c1 where "conc_run default_config [Call_alloc 0 [1] 0x1000 64, Step 0, Step 0] ?c = Some c1"
    "\<forall>sched c2. conc_run default_config sched c1 = Some c2 \<longrightarrow> conc_step default_config (Report_end 0) c2 = None"
    using report_blocks_itself [of ?c 0 "0x1000" 64 default_config "[1]"]
    by (auto simp: lock_sites_def conc_init_def alloc_start_def heap_init_def HeapState_new_def)
  with c show ?thesis by blast
qed

text \<open>Which lock a thread holds at a position.\<close>

fun holds_sites :: "pc \<Rightarrow> bool" where
  "holds_sites (At_count k i ips ptr sz) \<longleftrightarrow> 0 < k"
| "holds_sites (At_uncount n i sz k) \<longleftrightarrow> 0 < n"
| "holds_sites _ \<longleftrightarrow> False"

fun holds_map :: "pc \<Rightarrow> bool" where
  "holds_map (At_new_site i ips ptr sz) \<longleftrightarrow> True"
| "holds_map _ \<longleftrightarrow> False"

definition locks_ok :: "conc \<Rightarrow> bool" where
  "locks_ok c \<longleftrightarrow> distinct (c_sites_lock c) \<and> (\<forall>t. t \<in> set (c_sites_lock c) \<longleftrightarrow> holds_sites (c_pc c t)) \<and>
     (\<forall>t. c_map_lock c = Some t \<longleftrightarrow> holds_map (c_pc c t))"

lemma after_pc_holds [simp]: "\<not> holds_sites (after_pc k)" "\<not> holds_map (after_pc k)"
  by (simp_all add: after_pc_def split: after.splits)

lemma locks_move:
  assumes "locks_ok c" and pc: "c_pc c' = (c_pc c)(t := p)"
    and "c_sites_lock c' = (if holds_sites p then (if holds_sites (c_pc c t) then c_sites_lock c else t # c_sites_lock c)
           else if holds_sites (c_pc c t) then remove1 t (c_sites_lock c) else c_sites_lock c)"
    and "c_map_lock c' = (if holds_map p then Some t else if holds_map (c_pc c t) then None else c_map_lock c)"
    and "holds_map p \<Longrightarrow> c_map_lock c = None \<or> holds_map (c_pc c t)"
  shows "locks_ok c'"
proof -
  from assms(1) have d: "distinct (c_sites_lock c)" and s: "\<And>u. u \<in> set (c_sites_lock c) \<longleftrightarrow> holds_sites (c_pc c u)"
    and m: "\<And>u. c_map_lock c = Some u \<longleftrightarrow> holds_map (c_pc c u)"
    by (simp_all add: locks_ok_def)
  have uniq: "u = t" if "holds_map (c_pc c t)" "holds_map (c_pc c u)" for u
    using m [of t] m [of u] that by simp
  have "distinct (c_sites_lock c')" using d s [of t] by (auto simp: assms(3))
  moreover have "u \<in> set (c_sites_lock c') \<longleftrightarrow> holds_sites (c_pc c' u)" for u
    using d s [of u] s [of t] by (cases "u = t") (auto simp: assms(3) pc in_set_remove1 set_remove1_eq)
  moreover have "c_map_lock c' = Some u \<longleftrightarrow> holds_map (c_pc c' u)" for u
    using m [of u] m [of t] uniq [of u] assms(5) by (cases "u = t") (auto simp: assms(4) pc)
  ultimately show ?thesis by (simp add: locks_ok_def)
qed

lemma advance_pc_locks_ok:
  assumes "locks_ok c" and "advance_pc (c_pc c t) t c = Some c'"
  shows "locks_ok c'"
proof -
  have "c_pc c' = (c_pc c)(t := c_pc c' t)" using advance_pc_other [OF assms(2)] by auto
  from locks_move [OF assms(1) this] assms(2) show ?thesis
    by (cases "c_pc c t")
       (auto simp: conc_defs Let_def dealloc_done_facts split: if_splits option.splits)
qed

fun no_report :: "action \<Rightarrow> bool" where
  "no_report (Report_begin t) \<longleftrightarrow> False"
| "no_report a \<longleftrightarrow> True"

lemma locks_call: "locks_ok c \<Longrightarrow> c_pc c t = Idle \<Longrightarrow> c_pc c' = (c_pc c)(t := p) \<Longrightarrow> \<not> holds_sites p \<Longrightarrow> \<not> holds_map p \<Longrightarrow>
    c_sites_lock c' = c_sites_lock c \<Longrightarrow> c_map_lock c' = c_map_lock c \<Longrightarrow> locks_ok c'"
  by (rule locks_move [of c c' t p]) simp_all

lemma locks_frame: "locks_ok c \<Longrightarrow> c_pc c' = c_pc c \<Longrightarrow> c_sites_lock c' = c_sites_lock c \<Longrightarrow> c_map_lock c' = c_map_lock c \<Longrightarrow> locks_ok c'"
  by (simp add: locks_ok_def)

lemma conc_step_locks:
  assumes ok: "locks_ok c" and "no_report a" and step: "conc_step cfg a c = Some c'"
  shows "locks_ok c'"
proof (cases a)
  case (Call_alloc t frames ptr sz)
  with step have "c_pc c t = Idle" "c' = c \<or> c' = conc_alloc cfg t frames ptr sz c" by (auto split: if_splits)
  moreover have "locks_ok (conc_alloc cfg t frames ptr sz c)" if "c_pc c t = Idle"
    by (rule locks_call [OF ok that, where p = "c_pc (conc_alloc cfg t frames ptr sz c) t"])
       (use that in \<open>auto simp: conc_alloc_def Let_def conc_defs\<close>)
  ultimately show ?thesis using ok by blast
next
  case (Call_dealloc t ptr)
  with step have idle: "c_pc c t = Idle" and "c' = conc_dealloc t ptr c" by (auto split: if_splits)
  moreover have "(c_pc c)(t := Idle) = c_pc c" using idle by (simp add: fun_upd_idem)
  ultimately show ?thesis
    using locks_call [OF ok idle, of c' "c_pc c' t"] by (auto simp: conc_dealloc_def Let_def conc_defs)
next
  case (Call_realloc t frames ptr new_ptr sz)
  with step have "c_pc c t = Idle" "c' = c \<or> c' = conc_realloc cfg t frames ptr new_ptr sz c" by (auto split: if_splits)
  moreover have "locks_ok (conc_realloc cfg t frames ptr new_ptr sz c)" if "c_pc c t = Idle"
    by (rule locks_call [OF ok that, where p = "c_pc (conc_realloc cfg t frames ptr new_ptr sz c) t"])
       (use that in \<open>auto simp: conc_realloc_def Let_def conc_defs\<close>)
  ultimately show ?thesis using ok by blast
next
  case (Call_reset t)
  with step have idle: "c_pc c t = Idle" and "c' = set_pc t (At_reset 0) c" by (auto split: if_splits)
  with locks_call [OF ok idle, of c' "At_reset 0"] show ?thesis by (simp add: conc_defs)
next
  case (Report_end t)
  with step ok show ?thesis by (auto simp: locks_ok_def split: if_splits)
next
  case (Step t)
  with step advance_pc_locks_ok [OF ok] show ?thesis by simp
qed (use assms(2) step in \<open>auto intro!: locks_frame [OF ok] simp: conc_defs set_sample_rate_def split: if_splits\<close>)

interpretation locking: schedule_invariant "conc_step cfg" no_report "\<lambda>_. locks_ok" for cfg
  by unfold_locales (rule conc_step_locks)

lemma conc_init_locks: "locks_ok (conc_init h)"
  by (simp add: locks_ok_def conc_init_def)

text \<open>The locks are always taken in the same order, so that somebody can move.\<close>

lemma some_thread_moves:
  assumes ok: "locks_ok c" and busy: "\<not> quiescent c"
  shows "\<exists>t c'. conc_step cfg (Step t) c = Some c'"
proof (cases "c_sites_lock c")
  case (Cons t ts)
  then have "holds_sites (c_pc c t)" using ok unfolding locks_ok_def by (metis list.set_intros(1))
  then have "\<exists>c'. advance_pc (c_pc c t) t c = Some c'" by (cases "c_pc c t") simp_all
  then show ?thesis by auto
next
  case Nil
  show ?thesis
  proof (cases "c_map_lock c")
    case (Some t)
    then have "holds_map (c_pc c t)" using ok unfolding locks_ok_def by blast
    then have "\<exists>c'. advance_pc (c_pc c t) t c = Some c'" using Nil by (cases "c_pc c t") simp_all
    then show ?thesis by auto
  next
    case None
    obtain t where "c_pc c t \<noteq> Idle" using busy by (auto simp: quiescent_def)
    then have "\<exists>c'. advance_pc (c_pc c t) t c = Some c'" using Nil None by (cases "c_pc c t") simp_all
    then show ?thesis by auto
  qed
qed

text \<open>The steps a thread still needs.\<close>

fun after_work :: "after \<Rightarrow> nat" where
  "after_work (Then_free ptr) = 1"
| "after_work (Then_sample ips ptr sz) = 8"

fun work :: "pc \<Rightarrow> nat" where
  "work Idle = 0"
| "work (At_lookup ips ptr sz) = 8"
| "work (At_create ips ptr sz) = 7"
| "work (At_new_site i ips ptr sz) = 6"
| "work (At_count k i ips ptr sz) = 1 + max 1 (4 - k)"
| "work (At_insert i ips ptr sz) = 1"
| "work (At_remove ptr k) = 3 + after_work k"
| "work (At_uncount n i sz k) = max 1 (2 - n) + after_work k"
| "work (At_free ptr) = 1"
| "work (At_reset k) = 1 + (NUM_SHARDS + 2 - k)"

lemma work_after_pc: "work (after_pc k) = after_work k"
  by (simp add: after_pc_def split: after.splits)

lemma work_bound: "work p \<le> NUM_SHARDS + 3"
proof -
  have after: "after_work k \<le> 8" for k by (cases k) simp_all
  show ?thesis
  proof (cases p)
    case (At_uncount n i sz k)
    have "max 1 (2 - n) \<le> 2" by simp
    with after [of k] At_uncount show ?thesis unfolding NUM_SHARDS_def by (simp only: work.simps)
  next
    case (At_remove ptr k)
    with after [of k] show ?thesis by (simp add: NUM_SHARDS_def)
  qed (simp_all add: NUM_SHARDS_def le_diff_conv)
qed

lemma work_idle: "work p = 0 \<longleftrightarrow> p = Idle"
  by (cases p) simp_all

lemma advance_pc_work: "advance_pc (c_pc c t) t c = Some c' \<Longrightarrow> work (c_pc c' t) < work (c_pc c t)"
  by (cases "c_pc c t")
     (auto simp: conc_defs Let_def dealloc_done_facts work_after_pc split: if_splits option.splits)

definition busy :: "conc \<Rightarrow> nat set" where
  "busy c = {t. c_pc c t \<noteq> Idle}"

definition total_work :: "conc \<Rightarrow> nat" where
  "total_work c = (\<Sum>t \<in> busy c. work (c_pc c t))"

lemma advance_total_work:
  assumes "finite (busy c)" and step: "conc_step cfg (Step t) c = Some c'"
  shows "busy c' \<subseteq> busy c" and "total_work c' < total_work c"
proof -
  have adv: "advance_pc (c_pc c t) t c = Some c'" using step by simp
  then have t: "t \<in> busy c" by (cases "c_pc c t") (simp_all add: busy_def)
  have other: "c_pc c' u = c_pc c u" if "u \<noteq> t" for u using advance_pc_other [OF adv that] .
  show sub: "busy c' \<subseteq> busy c" using t other by (auto simp: busy_def) metis
  have le: "total_work c' \<le> (\<Sum>u \<in> busy c. work (c_pc c' u))"
    unfolding total_work_def by (rule sum_mono2 [OF assms(1) sub]) simp
  also have "\<dots> = work (c_pc c' t) + (\<Sum>u \<in> busy c - {t}. work (c_pc c' u))" by (rule sum.remove [OF assms(1) t])
  also have "(\<Sum>u \<in> busy c - {t}. work (c_pc c' u)) = (\<Sum>u \<in> busy c - {t}. work (c_pc c u))"
    by (rule sum.cong) (simp_all add: other)
  also have "work (c_pc c' t) + (\<Sum>u \<in> busy c - {t}. work (c_pc c u)) < work (c_pc c t) + (\<Sum>u \<in> busy c - {t}. work (c_pc c u))"
    using advance_pc_work [OF adv] by simp
  also have "\<dots> = total_work c" unfolding total_work_def by (rule sum.remove [OF assms(1) t, symmetric])
  finally show "total_work c' < total_work c" .
qed

lemma steps_total_work:
  assumes "conc_run cfg (map Step ts) c = Some c'" and "finite (busy c)"
  shows "total_work c' + length ts \<le> total_work c"
  using assms
proof (induction ts arbitrary: c)
  case (Cons t ts)
  then obtain c1 where c1: "conc_step cfg (Step t) c = Some c1" "conc_run cfg (map Step ts) c1 = Some c'"
    by (auto simp: bind_eq_Some_conv simp del: conc_step.simps)
  note w = advance_total_work [OF Cons.prems(2) c1(1)]
  from Cons.IH [OF c1(2) finite_subset [OF w(1) Cons.prems(2)]] w(2) show ?case by simp
qed simp

lemma steps_to_quiescence:
  assumes "locks_ok c" and "finite (busy c)"
  shows "\<exists>ts c'. conc_run cfg (map Step ts) c = Some c' \<and> quiescent c'"
  using assms
proof (induction "total_work c" arbitrary: c rule: less_induct)
  case less
  show ?case
  proof (cases "quiescent c")
    case True
    then show ?thesis by (intro exI [of _ "[]"] exI [of _ c]) simp
  next
    case False
    obtain t c1 where c1: "conc_step cfg (Step t) c = Some c1"
      using some_thread_moves [OF less.prems(1) False, of cfg] by blast
    note w = advance_total_work [OF less.prems(2) c1]
    obtain ts c' where "conc_run cfg (map Step ts) c1 = Some c'" "quiescent c'"
      using less.hyps [OF w(2) conc_step_locks [OF less.prems(1) _ c1] finite_subset [OF w(1) less.prems(2)]] by auto
    with c1 show ?thesis by (intro exI [of _ "t # ts"] exI [of _ c']) (simp del: conc_step.simps)
  qed
qed

lemma busy_bound:
  assumes "conc_run cfg sched (conc_init h) = Some c"
  shows "finite (busy c)"
proof (rule finite_subset)
  show "busy c \<subseteq> action_thread ` set sched"
    using conc_run_other [OF assms] by (fastforce simp: busy_def conc_init_def)
qed simp



end
