(* ===== verification/Pprof_Valid.thy ===== *)
theory Pprof_Valid
  imports Alloc
begin

text \<open>
  The exported profiles are valid in the sense of the comments of \<^verbatim>\<open>src/proto/perftools.profiles.rs\<close>, which \<open>profile_ok\<close>
  collects: the string table starts with the empty string and every string is an index into it; ids of functions and
  locations are unique and not zero, and every id that is used is defined; every sample has as many values as there are sample types.
\<close>

section \<open>Validity\<close>

definition str_ok :: "string list \<Rightarrow> i64 \<Rightarrow> bool" where
  "str_ok tbl i \<longleftrightarrow> unat i < length tbl"

definition ids_ok :: "u64 list \<Rightarrow> bool" where
  "ids_ok ids \<longleftrightarrow> 0 \<notin> set ids \<and> distinct ids"

definition function_ok :: "string list \<Rightarrow> Function \<Rightarrow> bool" where
  "function_ok tbl f \<longleftrightarrow> str_ok tbl (f_name f) \<and> str_ok tbl (f_system_name f) \<and> str_ok tbl (f_filename f)"

definition location_ok :: "Function list \<Rightarrow> Mapping list \<Rightarrow> Location \<Rightarrow> bool" where
  "location_ok fns ms l \<longleftrightarrow> (loc_mapping_id l = 0 \<or> loc_mapping_id l \<in> m_id ` set ms) \<and>
     list_all (\<lambda>n. l_function_id n \<in> f_id ` set fns) (loc_line l)"

definition label_ok :: "string list \<Rightarrow> Label \<Rightarrow> bool" where
  "label_ok tbl l \<longleftrightarrow> str_ok tbl (lb_key l) \<and> str_ok tbl (lb_str l) \<and> str_ok tbl (lb_num_unit l)"

definition sample_ok :: "string list \<Rightarrow> u64 set \<Rightarrow> nat \<Rightarrow> Sample \<Rightarrow> bool" where
  "sample_ok tbl locs n s \<longleftrightarrow> set (s_location_id s) \<subseteq> locs \<and> length (s_value s) = n \<and> list_all (label_ok tbl) (s_label s)"

definition value_type_ok :: "string list \<Rightarrow> ValueType \<Rightarrow> bool" where
  "value_type_ok tbl v \<longleftrightarrow> str_ok tbl (vt_ty v) \<and> str_ok tbl (vt_unit v)"

definition profile_ok :: "Profile \<Rightarrow> bool" where
  "profile_ok p \<longleftrightarrow>
     (let tbl = pf_string_table p
      in tbl \<noteq> [] \<and> hd tbl = '''' \<and>
         ids_ok (map f_id (pf_function p)) \<and> ids_ok (map loc_id (pf_location p)) \<and>
         list_all (function_ok tbl) (pf_function p) \<and>
         list_all (location_ok (pf_function p) (pf_mapping p)) (pf_location p) \<and>
         list_all (sample_ok tbl (loc_id ` set (pf_location p)) (length (pf_sample_type p))) (pf_sample p) \<and>
         list_all (value_type_ok tbl) (pf_sample_type p) \<and> list_all (value_type_ok tbl) (case pf_period_type p of Some v \<Rightarrow> [v] | None \<Rightarrow> []) \<and>
         list_all (str_ok tbl) (pf_comment p) \<and>
         str_ok tbl (pf_drop_frames p) \<and> str_ok tbl (pf_keep_frames p) \<and> str_ok tbl (pf_default_sample_type p))"

section \<open>The tables\<close>

lemma str_get_range:
  assumes "str_get (string_index tbl) s = Return i" and "length tbl < 2 ^ 63"
  shows "str_ok tbl i"
proof -
  have "s \<in> set tbl" using assms(1) by (auto simp: str_get_def string_index_get split: option.splits if_splits)
  from str_get_ok [OF this assms(2)] assms(1) show ?thesis by (auto simp: str_ok_def)
qed

text \<open>The symbol table with its functions, and the ids that samples may use.\<close>

definition symbols_ok :: "string list \<Rightarrow> symbol_table \<Rightarrow> bool" where
  "symbols_ok tbl st \<longleftrightarrow> (\<exists>ns. table_inv tbl ns st) \<and> list_all (function_ok tbl) (st_fn_tbl st) \<and>
     list_all (\<lambda>l. loc_mapping_id l = 0) (st_loc_tbl st)"

definition grows :: "symbol_table \<Rightarrow> symbol_table \<Rightarrow> bool" where
  "grows st st' \<longleftrightarrow> loc_id ` set (st_loc_tbl st) \<subseteq> loc_id ` set (st_loc_tbl st')"

lemma symbols_ok_empty: "symbols_ok tbl symbol_table_empty"
  unfolding symbols_ok_def using table_inv_empty [of tbl] by (auto simp: symbol_table_empty_def)

lemma grows_refl: "grows st st" and grows_trans: "grows a b \<Longrightarrow> grows b c \<Longrightarrow> grows a c"
  by (auto simp: grows_def)

lemma names_id_location:
  assumes "table_inv tbl ns st" and "names_id ns i n"
  shows "i \<in> loc_id ` set (st_loc_tbl st)"
proof -
  obtain k where k: "k < length ns" "i = of_nat (Suc k)" using assms(2) by (auto simp: names_id_def)
  then have "st_loc_tbl st ! k \<in> set (st_loc_tbl st)" "loc_id (st_loc_tbl st ! k) = i"
    using assms(1) by (simp_all add: table_inv_def)
  then show ?thesis by force
qed

lemma intern_symbol_ok:
  assumes "symbols_ok tbl st" and "set (symbol_strings sy s) \<subseteq> set tbl" and len: "length tbl < 2 ^ 63"
    and ret: "intern_symbol sy (string_index tbl) st s = Return (st', i)"
  shows "symbols_ok tbl st' \<and> grows st st' \<and> i \<in> loc_id ` set (st_loc_tbl st')"
proof -
  obtain ns where ns: "table_inv tbl ns st" using assms(1) by (auto simp: symbols_ok_def)
  obtain ms where ms: "table_inv tbl (ns @ ms) st'" "names_id (ns @ ms) i (Symbol_name (sy_demangle sy) s)"
    using intern_symbol_spec [OF ns assms(2) len] ret by auto
  have "list_all (function_ok tbl) (st_fn_tbl st') \<and> list_all (\<lambda>l. loc_mapping_id l = 0) (st_loc_tbl st') \<and> grows st st'"
  proof (cases "hm_get (=) (st_functions st) (Symbol_name (sy_demangle sy) s)")
    case None
    with ret obtain n m f where str: "str_get (string_index tbl) (Symbol_name (sy_demangle sy) s) = Return n"
      "str_get (string_index tbl) (Symbol_sys_name s) = Return m" "str_get (string_index tbl) (Symbol_filename s) = Return f"
      by (auto simp: intern_symbol_def Let_def obind_Return_iff)
    have "function_ok tbl \<lparr>f_id = j, f_name = n, f_system_name = m, f_filename = f, f_start_line = 0\<rparr>" for j
      using str [THEN str_get_range [OF _ len]] by (simp add: function_ok_def)
    with None ret str assms(1) show ?thesis by (auto simp: intern_symbol_def Let_def symbols_ok_def grows_def)
  next
    case (Some j)
    with ret assms(1) show ?thesis by (auto simp: intern_symbol_def Let_def symbols_ok_def grows_refl)
  qed
  with ms(1) names_id_location [OF ms] show ?thesis by (auto simp: symbols_ok_def)
qed

lemma intern_symbols_ok:
  assumes "symbols_ok tbl st" and "set (concat (map (symbol_strings sy) ss)) \<subseteq> set tbl" and len: "length tbl < 2 ^ 63"
    and ret: "intern_symbols sy (string_index tbl) st ss = Return (st', ids)"
  shows "symbols_ok tbl st' \<and> grows st st' \<and> set ids \<subseteq> loc_id ` set (st_loc_tbl st')"
  using assms(1,2) ret
proof (induction ss arbitrary: st ids)
  case Nil
  then show ?case by (simp add: grows_refl)
next
  case (Cons s ss)
  from Cons.prems(3) obtain st1 i rest where 1: "intern_symbol sy (string_index tbl) st s = Return (st1, i)"
    "intern_symbols sy (string_index tbl) st1 ss = Return (st', rest)" "ids = i # rest"
    by (auto simp: obind_Return_iff)
  have a: "symbols_ok tbl st1 \<and> grows st st1 \<and> i \<in> loc_id ` set (st_loc_tbl st1)"
    using intern_symbol_ok [OF Cons.prems(1) _ len 1(1)] Cons.prems(2) by simp
  have b: "symbols_ok tbl st' \<and> grows st1 st' \<and> set rest \<subseteq> loc_id ` set (st_loc_tbl st')"
    using Cons.IH [OF _ _ 1(2)] a Cons.prems(2) by simp
  with a 1(3) grows_trans [of st st1 st'] show ?case by (simp add: grows_def subset_iff)
qed

lemma sample_ok_grows: "grows st st' \<Longrightarrow> sample_ok tbl (loc_id ` set (st_loc_tbl st)) n s \<Longrightarrow>
    sample_ok tbl (loc_id ` set (st_loc_tbl st')) n s"
  by (auto simp: sample_ok_def grows_def)

section \<open>Samples\<close>

lemma pprof_sample_ok:
  assumes "symbols_ok tbl st" and "set (frames_strings sy (fst e)) \<subseteq> set tbl" and len: "length tbl < 2 ^ 63"
    and ret: "pprof_sample sy (string_index tbl) f st e = Return (st', s)"
  shows "symbols_ok tbl st' \<and> grows st st' \<and> sample_ok tbl (loc_id ` set (st_loc_tbl st')) 2 s"
proof -
  obtain key count where e: "e = (key, count)" by (cases e)
  from ret obtain ids k l v where 1: "intern_symbols sy (string_index tbl) st (concat (fr_frames key)) = Return (st', ids)"
    "str_get (string_index tbl) ''thread'' = Return k" "str_get (string_index tbl) (Frames_thread_name_or_id key) = Return l"
    "s = \<lparr>s_location_id = ids, s_value = [count, v], s_label = [\<lparr>lb_key = k, lb_str = l, lb_num = 0, lb_num_unit = 0\<rparr>]\<rparr>"
    by (auto simp: pprof_sample_def e obind_Return_iff)
  note str = 1(2,3) [THEN str_get_range [OF _ len]]
  have "str_ok tbl 0" using str(1) by (cases tbl) (simp_all add: str_ok_def)
  with str have "label_ok tbl \<lparr>lb_key = k, lb_str = l, lb_num = 0, lb_num_unit = 0\<rparr>" by (simp add: label_ok_def)
  with intern_symbols_ok [OF assms(1) _ len 1(1)] assms(2) show ?thesis
    by (simp add: 1(4) sample_ok_def frames_strings_def e)
qed

lemma heap_sample_ok:
  assumes "symbols_ok tbl st" and "set (frames_strings sy (hr_frames rec)) \<subseteq> set tbl" and len: "length tbl < 2 ^ 63"
    and ret: "heap_sample sy (string_index tbl) st rec = Return (st', s)"
  shows "symbols_ok tbl st' \<and> grows st st' \<and> sample_ok tbl (loc_id ` set (st_loc_tbl st')) 4 s"
proof -
  from ret obtain ids where 1: "intern_symbols sy (string_index tbl) st (concat (fr_frames (hr_frames rec))) = Return (st', ids)"
    "s_location_id s = ids" "length (s_value s) = 4" "s_label s = []"
    by (auto simp: heap_sample_def obind_Return_iff)
  with intern_symbols_ok [OF assms(1) _ len 1(1)] assms(2) show ?thesis
    by (simp add: sample_ok_def frames_strings_def)
qed

text \<open>Both loops over the stacks are this loop.\<close>

primrec sample_loop :: "(symbol_table \<Rightarrow> 'e \<Rightarrow> (symbol_table \<times> Sample) outcome) \<Rightarrow> symbol_table \<Rightarrow> 'e list \<Rightarrow> (symbol_table \<times> Sample list) outcome" where
  "sample_loop f st [] = Return (st, [])"
| "sample_loop f st (e # es) = obind (f st e) (\<lambda>(st, s). obind (sample_loop f st es) (\<lambda>(st, ss). Return (st, s # ss)))"

lemma pprof_samples_loop: "pprof_samples sy strings f st es = sample_loop (pprof_sample sy strings f) st es"
  by (induction es arbitrary: st) simp_all

lemma heap_samples_loop: "heap_samples sy strings st es = sample_loop (heap_sample sy strings) st es"
  by (induction es arbitrary: st) simp_all

lemma sample_loop_ok:
  assumes step: "\<And>st e st' s. e \<in> set es \<Longrightarrow> symbols_ok tbl st \<Longrightarrow> f st e = Return (st', s) \<Longrightarrow>
      symbols_ok tbl st' \<and> grows st st' \<and> sample_ok tbl (loc_id ` set (st_loc_tbl st')) n s"
    and "symbols_ok tbl st" and "sample_loop f st es = Return (st', ss)"
  shows "symbols_ok tbl st' \<and> grows st st' \<and> list_all (sample_ok tbl (loc_id ` set (st_loc_tbl st')) n) ss"
  using assms
proof (induction es arbitrary: st ss)
  case Nil
  then show ?case by (simp add: grows_refl)
next
  case (Cons e es)
  from Cons.prems(3) obtain st1 s rest where 1: "f st e = Return (st1, s)" "sample_loop f st1 es = Return (st', rest)" "ss = s # rest"
    by (auto simp: obind_Return_iff)
  have a: "symbols_ok tbl st1 \<and> grows st st1 \<and> sample_ok tbl (loc_id ` set (st_loc_tbl st1)) n s"
    using Cons.prems(1) [OF _ Cons.prems(2) 1(1)] by simp
  have b: "symbols_ok tbl st' \<and> grows st1 st' \<and> list_all (sample_ok tbl (loc_id ` set (st_loc_tbl st')) n) rest"
  proof (rule Cons.IH [OF _ _ 1(2)])
    show "symbols_ok tbl u' \<and> grows u u' \<and> sample_ok tbl (loc_id ` set (st_loc_tbl u')) n x"
      if "y \<in> set es" "symbols_ok tbl u" "f u y = Return (u', x)" for u y u' x
      using Cons.prems(1) [OF _ that(2,3)] that(1) by simp
  qed (use a in simp)
  with a 1(3) grows_trans [of st st1 st'] sample_ok_grows [of st1 st' tbl n s] show ?case by simp
qed

section \<open>Profiles\<close>

lemma symbols_ok_profile:
  assumes "symbols_ok tbl st" and "length tbl < 2 ^ 63"
  shows "ids_ok (map f_id (st_fn_tbl st)) \<and> ids_ok (map loc_id (st_loc_tbl st)) \<and> list_all (function_ok tbl) (st_fn_tbl st) \<and>
    list_all (location_ok (st_fn_tbl st) []) (st_loc_tbl st)"
proof -
  obtain ns where inv: "table_inv tbl ns st" using assms(1) by (auto simp: symbols_ok_def)
  have len: "length (st_fn_tbl st) = length ns" "length (st_loc_tbl st) = length ns" "length ns < 2 ^ 63"
    using inv table_inv_length [OF inv] assms(2) by (simp_all add: table_inv_def)
  have unat: "unat (of_nat k :: u64) = k" if "k \<in> {1..<Suc (length ns)}" for k
    using that len(3) by (intro unat_of_nat_small) simp
  have "inj_on (of_nat :: nat \<Rightarrow> u64) {1..<Suc (length ns)}" by (rule inj_on_inverseI [of _ unat]) (rule unat)
  moreover have "(0 :: u64) \<notin> of_nat ` {1..<Suc (length ns)}"
  proof
    assume "(0 :: u64) \<in> of_nat ` {1..<Suc (length ns)}"
    then obtain k where "k \<in> {1..<Suc (length ns)}" "(of_nat k :: u64) = 0" by force
    with unat [of k] show False by simp
  qed
  ultimately have "ids_ok (map of_nat [1..<Suc (length ns)])" by (simp add: ids_ok_def distinct_map del: upt_Suc)
  then have ids: "ids_ok (map f_id (st_fn_tbl st))" "ids_ok (map loc_id (st_loc_tbl st))"
    using table_inv_ids [OF inv] len by simp_all
  have "location_ok (st_fn_tbl st) [] l" if l: "l \<in> set (st_loc_tbl st)" for l
  proof -
    obtain k where k: "k < length ns" "l = st_loc_tbl st ! k" using l len(2) by (auto simp: in_set_conv_nth)
    then have "map l_function_id (loc_line l) = [f_id (st_fn_tbl st ! k)]" using inv by (simp add: table_inv_def)
    moreover have "st_fn_tbl st ! k \<in> set (st_fn_tbl st)" using k len by simp
    ultimately have "list_all (\<lambda>n. l_function_id n \<in> f_id ` set (st_fn_tbl st)) (loc_line l)"
      by (cases "loc_line l") auto
    moreover have "loc_mapping_id l = 0" using assms(1) l by (simp add: symbols_ok_def list_all_iff)
    ultimately show ?thesis by (simp add: location_ok_def)
  qed
  then show ?thesis using ids assms(1) by (simp add: symbols_ok_def list_all_iff)
qed

lemma Report_pprof_ok:
  assumes order: "hs_order hs_iter" and small: "length (pprof_strings sy r) < 2 ^ 62" and ret: "Report_pprof hs_iter sy r = Return p"
  shows "profile_ok p"
proof -
  let ?tbl = "string_table hs_iter (pprof_strings sy r)"
  note tbl = pprof_table [OF order small]
  note range = str_get_range [OF _ tbl(1)]
  from ret obtain st ss a b c d m q where 1: "pprof_samples sy (string_index ?tbl) (rt_frequency (r_timing r)) symbol_table_empty (r_data r) = Return (st, ss)"
    "str_get (string_index ?tbl) ''samples'' = Return a" "str_get (string_index ?tbl) ''count'' = Return b"
    "str_get (string_index ?tbl) ''cpu'' = Return c" "str_get (string_index ?tbl) ''nanoseconds'' = Return d"
    "str_get (string_index ?tbl) (missed_comment r) = Return m"
    and p: "p = \<lparr>pf_sample_type = [\<lparr>vt_ty = a, vt_unit = b\<rparr>, \<lparr>vt_ty = c, vt_unit = d\<rparr>], pf_sample = ss, pf_mapping = [],
      pf_location = st_loc_tbl st, pf_function = st_fn_tbl st, pf_string_table = ?tbl,
      pf_drop_frames = 0, pf_keep_frames = 0, pf_time_nanos = time_nanos (rt_start_time (r_timing r)),
      pf_duration_nanos = of_nat (rt_duration (r_timing r)), pf_period_type = Some \<lparr>vt_ty = c, vt_unit = d\<rparr>,
      pf_period = q, pf_comment = [m], pf_default_sample_type = 0\<rparr>"
    by (auto simp: Report_pprof_def Let_def obind_Return_iff)
  have st: "symbols_ok ?tbl st \<and> list_all (sample_ok ?tbl (loc_id ` set (st_loc_tbl st)) 2) ss"
    using sample_loop_ok [OF _ symbols_ok_empty 1(1) [unfolded pprof_samples_loop]] pprof_sample_ok [OF _ _ tbl(1)] tbl(2) by blast
  have "?tbl \<noteq> []" "hd ?tbl = ''''" "str_ok ?tbl 0" by (simp_all add: string_table_def str_ok_def)
  then show ?thesis
    using st symbols_ok_profile [of ?tbl st] tbl(1) 1(2-6) [THEN range]
    by (simp add: profile_ok_def p Let_def value_type_ok_def numeral_2_eq_2)
qed

lemma HeapReport_pprof_ok:
  assumes order: "hs_order hs_iter" and small: "length (heap_strings sy r) < 2 ^ 62" and ret: "HeapReport_pprof hs_iter sy r = Return p"
  shows "profile_ok p"
proof -
  let ?tbl = "string_table hs_iter (heap_strings sy r)"
  have set: "set (heap_strings sy r) \<subseteq> set ?tbl" using set_string_table [OF order] by auto
  have len: "length ?tbl < 2 ^ 63" using length_string_table [OF order, of "heap_strings sy r"] small by simp
  have recs: "set (frames_strings sy (hr_frames rec)) \<subseteq> set ?tbl" if "rec \<in> set (hp_records r)" for rec
    using set that by (auto simp: heap_strings_def)
  have vt: "value_type_ok ?tbl v" if "value_type (string_index ?tbl) x y = Return v" for x y v
    using that str_get_range [OF _ len] by (auto simp: value_type_def value_type_ok_def obind_Return_iff)
  from ret obtain st ss v1 v2 v3 v4 v5 where 1: "heap_samples sy (string_index ?tbl) symbol_table_empty (hp_records r) = Return (st, ss)"
    "value_type (string_index ?tbl) ''alloc_objects'' ''count'' = Return v1" "value_type (string_index ?tbl) ''alloc_space'' ''bytes'' = Return v2"
    "value_type (string_index ?tbl) ''inuse_objects'' ''count'' = Return v3" "value_type (string_index ?tbl) ''inuse_space'' ''bytes'' = Return v4"
    "value_type (string_index ?tbl) ''space'' ''bytes'' = Return v5"
    and p: "p = \<lparr>pf_sample_type = [v1, v2, v3, v4], pf_sample = ss, pf_mapping = [],
      pf_location = st_loc_tbl st, pf_function = st_fn_tbl st, pf_string_table = ?tbl,
      pf_drop_frames = 0, pf_keep_frames = 0, pf_time_nanos = time_nanos (hp_timestamp r),
      pf_duration_nanos = 0, pf_period_type = Some v5, pf_period = hp_sample_rate r,
      pf_comment = [], pf_default_sample_type = 0\<rparr>"
    by (auto simp: HeapReport_pprof_def Let_def obind_Return_iff)
  have st: "symbols_ok ?tbl st \<and> list_all (sample_ok ?tbl (loc_id ` set (st_loc_tbl st)) 4) ss"
    using sample_loop_ok [OF _ symbols_ok_empty 1(1) [unfolded heap_samples_loop]] heap_sample_ok [OF _ recs len] by blast
  then have four: "list_all (sample_ok ?tbl (loc_id ` set (st_loc_tbl st)) (Suc (Suc (Suc (Suc 0))))) ss"
    by (simp add: eval_nat_numeral)
  have "?tbl \<noteq> []" "hd ?tbl = ''''" "str_ok ?tbl 0" by (simp_all add: string_table_def str_ok_def)
  then show ?thesis
    using st symbols_ok_profile [of ?tbl st] len 1(2-6) [THEN vt] four
    by (simp add: profile_ok_def p Let_def)
qed

text \<open>
  C16. Whatever \<^verbatim>\<open>pprof\<close> returns is a valid profile, for CPU and for heap reports, any order of the string set, any symbolizer and any
  stacks with fewer than \<open>2 ^ 62\<close> strings: the string table starts with the empty string and every string reference is an index
  into it, the ids of functions and of locations are unique and not zero, every line refers to a function and every sample to
  locations that are in the profile, and every sample has one value for each sample type.
\<close>

theorem pprof_well_formed:
  assumes "hs_order hs_iter"
  shows "(length (pprof_strings sy r) < 2 ^ 62 \<and> Report_pprof hs_iter sy r = Return p \<longrightarrow> profile_ok p) \<and>
    (length (heap_strings sy hr) < 2 ^ 62 \<and> HeapReport_pprof hs_iter sy hr = Return q \<longrightarrow> profile_ok q)"
  using Report_pprof_ok [OF assms] HeapReport_pprof_ok [OF assms] by blast

definition returns :: "'a outcome \<Rightarrow> bool" where
  "returns x = (case x of Return _ \<Rightarrow> True | Panic _ \<Rightarrow> False)"

theorem pprof_well_formed_witness:
  "\<exists>p q. Report_pprof (\<lambda>xs. xs) demo_symbolizer demo_report = Return p \<and> profile_ok p \<and>
     HeapReport_pprof (\<lambda>xs. xs) demo_symbolizer (demo_heap_report [demo_record [''work''] 64]) = Return q \<and> profile_ok q"
proof -
  let ?h = "demo_heap_report [demo_record [''work''] 64]"
  have "returns (Report_pprof (\<lambda>xs. xs) demo_symbolizer demo_report)" by code_simp
  moreover have "returns (HeapReport_pprof (\<lambda>xs. xs) demo_symbolizer ?h)" by code_simp
  ultimately obtain p q where ret: "Report_pprof (\<lambda>xs. xs) demo_symbolizer demo_report = Return p"
    "HeapReport_pprof (\<lambda>xs. xs) demo_symbolizer ?h = Return q"
    by (auto simp: returns_def split: outcome.splits)
  have "hs_order (\<lambda>xs. xs)" by (simp add: hs_order_def)
  moreover have "length (pprof_strings demo_symbolizer demo_report) < 2 ^ 62" "length (heap_strings demo_symbolizer ?h) < 2 ^ 62"
    by (simp_all add: pprof_strings_def heap_strings_def frames_strings_def symbol_strings_def demo_report_def demo_frames_def
        demo_heap_report_def demo_record_def)
  ultimately show ?thesis using pprof_well_formed [of "\<lambda>xs. xs" demo_symbolizer demo_report p ?h q] ret by blast
qed

end
