(* ===== verification/Pprof_Lines.thy ===== *)
theory Pprof_Lines
  imports Pprof_Valid
begin

text \<open>
  Which source lines an exported profile shows. \<^verbatim>\<open>pprof\<close> makes one function and one location for each symbol name, with the line of
  the first symbol of that name; \<open>first_symbols\<close> is this list of first symbols.
\<close>

section \<open>First symbols\<close>

definition add_first :: "(string \<Rightarrow> string) \<Rightarrow> Symbol \<Rightarrow> Symbol list \<Rightarrow> Symbol list" where
  "add_first demangle s fs =
     (if Symbol_name demangle s \<in> Symbol_name demangle ` set fs then fs else fs @ [s])"

definition first_symbols :: "(string \<Rightarrow> string) \<Rightarrow> Symbol list \<Rightarrow> Symbol list" where
  "first_symbols demangle ss = fold (add_first demangle) ss []"

definition report_symbols :: "Report \<Rightarrow> Symbol list" where
  "report_symbols r = concat (map (\<lambda>(key, _). concat (fr_frames key)) (r_data r))"

definition heap_symbols :: "HeapReport \<Rightarrow> Symbol list" where
  "heap_symbols r = concat (map (\<lambda>rec. concat (fr_frames (hr_frames rec))) (hp_records r))"

definition location_lines :: "Profile \<Rightarrow> i64 list list" where
  "location_lines p = map (\<lambda>l. map l_line (loc_line l)) (pf_location p)"

definition symbol_lines :: "Symbol list \<Rightarrow> i64 list list" where
  "symbol_lines fs = map (\<lambda>s. [ucast (Symbol_lineno s)]) fs"

text \<open>Every name of the symbols is the name of exactly one of the first symbols, which comes first among them.\<close>

lemma fold_add_first_names: "Symbol_name d ` set (fold (add_first d) ss fs) = Symbol_name d ` set fs \<union> Symbol_name d ` set ss"
  by (induction ss arbitrary: fs) (auto simp: add_first_def)

lemma fold_add_first_distinct: "distinct (map (Symbol_name d) fs) \<Longrightarrow> distinct (map (Symbol_name d) (fold (add_first d) ss fs))"
  by (induction ss arbitrary: fs) (auto simp: add_first_def)

lemma first_symbols_names:
  "distinct (map (Symbol_name d) (first_symbols d ss))" "Symbol_name d ` set (first_symbols d ss) = Symbol_name d ` set ss"
  by (simp_all add: first_symbols_def fold_add_first_distinct fold_add_first_names)

lemma fold_add_first_find:
  "find (\<lambda>s. Symbol_name d s = n) (fold (add_first d) ss fs) =
     (case find (\<lambda>s. Symbol_name d s = n) fs of Some s \<Rightarrow> Some s | None \<Rightarrow> find (\<lambda>s. Symbol_name d s = n) ss)"
proof (induction ss arbitrary: fs)
  case Nil
  then show ?case by (simp split: option.splits)
next
  case (Cons s ss)
  have app: "find P (xs @ ys) = (case find P xs of Some x \<Rightarrow> Some x | None \<Rightarrow> find P ys)" for P and xs ys :: "Symbol list"
    by (induction xs) auto
  have none: "find (\<lambda>s. Symbol_name d s = n) fs = None \<longleftrightarrow> n \<notin> Symbol_name d ` set fs" by (auto simp: find_None_iff)
  have "find (\<lambda>s. Symbol_name d s = n) (add_first d s fs) =
      (case find (\<lambda>s. Symbol_name d s = n) fs of Some x \<Rightarrow> Some x | None \<Rightarrow> if Symbol_name d s = n then Some s else None)"
    using none by (cases "find (\<lambda>s. Symbol_name d s = n) fs") (auto simp: add_first_def app)
  then show ?case by (simp add: Cons.IH split: option.splits)
qed

lemma first_symbols_find: "find (\<lambda>s. Symbol_name d s = n) (first_symbols d ss) = find (\<lambda>s. Symbol_name d s = n) ss"
  by (simp add: first_symbols_def fold_add_first_find)

section \<open>The tables hold the first symbols\<close>

definition first_inv :: "(string \<Rightarrow> string) \<Rightarrow> Symbol list \<Rightarrow> symbol_table \<Rightarrow> bool" where
  "first_inv demangle fs st \<longleftrightarrow> map (\<lambda>l. map l_line (loc_line l)) (st_loc_tbl st) = symbol_lines fs \<and>
     (\<forall>n. hm_get (=) (st_functions st) n \<noteq> None \<longleftrightarrow> n \<in> Symbol_name demangle ` set fs)"

lemma first_inv_empty: "first_inv d [] symbol_table_empty"
  by (simp add: first_inv_def symbol_table_empty_def symbol_lines_def)

lemma intern_symbol_first:
  assumes "first_inv (sy_demangle sy) fs st" and "intern_symbol sy strings st s = Return (st', i)"
  shows "first_inv (sy_demangle sy) (add_first (sy_demangle sy) s fs) st'"
proof (cases "hm_get (=) (st_functions st) (Symbol_name (sy_demangle sy) s)")
  case (Some j)
  with assms show ?thesis by (auto simp: intern_symbol_def Let_def first_inv_def add_first_def)
next
  case None
  then have new: "Symbol_name (sy_demangle sy) s \<notin> Symbol_name (sy_demangle sy) ` set fs"
    using assms(1) unfolding first_inv_def by blast
  with None assms show ?thesis
    by (auto simp: intern_symbol_def Let_def first_inv_def add_first_def obind_Return_iff std_eq.get_insert symbol_lines_def
        split: if_splits)
qed

lemma intern_symbols_first:
  "first_inv (sy_demangle sy) fs st \<Longrightarrow> intern_symbols sy strings st ss = Return (st', ids) \<Longrightarrow>
     first_inv (sy_demangle sy) (fold (add_first (sy_demangle sy)) ss fs) st'"
  by (induction ss arbitrary: fs st ids) (auto simp: obind_Return_iff dest: intern_symbol_first)

lemma sample_loop_first:
  assumes step: "\<And>st e st' s fs. first_inv d fs st \<Longrightarrow> f st e = Return (st', s) \<Longrightarrow> first_inv d (fold (add_first d) (syms e) fs) st'"
    and "first_inv d fs st" and "sample_loop f st es = Return (st', ss)"
  shows "first_inv d (fold (add_first d) (concat (map syms es)) fs) st'"
  using assms(2,3)
  by (induction es arbitrary: fs st ss) (auto simp: obind_Return_iff dest: step)


text \<open>Two samples of one function, at lines 10 and 20: both refer to the location with line 10.\<close>

definition lines_report :: Report where
  "lines_report =
     \<lparr>r_data = map (\<lambda>n. ((demo_frames [])\<lparr>fr_frames := [[Symbol_from ((demo_symbol ''work'')\<lparr>bt_lineno := Some n\<rparr>)]]\<rparr>, 1)) [10, 20],
      r_timing = ReportTiming_default, r_missed_samples = 0\<rparr>"


end
