(* ===== verification/Report_Rates.thy ===== *)
theory Report_Rates
  imports Report Complex_Main
begin

text \<open>
  \<^verbatim>\<open>samples_per_second\<close> of the two reports of \<^verbatim>\<open>src/src/report.rs\<close>, in double precision: every operation on \<^verbatim>\<open>f64\<close> is the operation on real
  numbers followed by \<open>f64_round\<close>, rounding to the nearest multiple of the last of 53 binary digits, halves to even. Underflow and
  overflow are left out: the numbers here are 0 or between \<open>10 ^ (-29)\<close> and \<open>10 ^ 28\<close> in size.
\<close>

section \<open>Double precision\<close>

definition round_half_even :: "real \<Rightarrow> int" where
  "round_half_even y =
     (let f = \<lfloor>y\<rfloor>; r = y - of_int f
      in if r < 1 / 2 then f else if 1 / 2 < r then f + 1 else if even f then f else f + 1)"

definition f64_ulp :: "real \<Rightarrow> real" where
  "f64_ulp x = 2 powr of_int (\<lfloor>log 2 \<bar>x\<bar>\<rfloor> - 52)"

definition f64_round :: "real \<Rightarrow> real" where
  "f64_round x = (if x = 0 then 0 else of_int (round_half_even (x / f64_ulp x)) * f64_ulp x)"

lemma round_half_even_int: "round_half_even (of_int k) = k"
  by (simp add: round_half_even_def)

text \<open>Integers of at most 53 binary digits are exact.\<close>

lemma f64_round_int:
  assumes "\<bar>k\<bar> < 2 ^ 53"
  shows "f64_round (of_int k) = of_int k"
proof (cases "k = 0")
  case False
  let ?e = "\<lfloor>log 2 \<bar>of_int k :: real\<bar>\<rfloor>"
  have pos: "1 \<le> \<bar>of_int k :: real\<bar>" using False by linarith
  have "\<bar>of_int k :: real\<bar> < 2 ^ 53"
    using assms by (metis of_int_abs of_int_less_iff of_int_numeral of_int_power)
  then have "log 2 \<bar>of_int k :: real\<bar> < 53" using pos by (subst log_less_iff) (simp_all add: powr_numeral)
  then have e: "?e \<le> 52" by linarith
  have "0 \<le> ?e" using pos by (simp add: zero_le_log_cancel_iff)
  define n where "n = nat (52 - ?e)"
  have ulp: "f64_ulp (of_int k) = inverse (2 ^ n)"
  proof -
    have "real_of_int (?e - 52) = - real n" using e by (simp add: n_def)
    then show ?thesis unfolding f64_ulp_def by (simp only: powr_minus powr_realpow)
  qed
  have "(of_int k :: real) / f64_ulp (of_int k) = of_int (k * 2 ^ n)" by (simp add: ulp field_simps)
  then have "f64_round (of_int k) = of_int (k * 2 ^ n) * f64_ulp (of_int k)"
    using False by (simp only: f64_round_def round_half_even_int of_int_eq_0_iff if_False)
  then show ?thesis by (simp add: ulp)
qed (simp add: f64_round_def)

section \<open>Rates\<close>

text \<open>\<^verbatim>\<open>Duration::as_secs_f64\<close>: whole seconds plus nanoseconds over \<open>10 ^ 9\<close>.\<close>

definition as_secs_f64 :: "nat \<Rightarrow> real" where
  "as_secs_f64 d = f64_round (f64_round (of_nat (d div 10 ^ 9)) + f64_round (f64_round (of_nat (d mod 10 ^ 9)) / 10 ^ 9))"

definition Report_samples_per_second :: "Report \<Rightarrow> real" where
  "Report_samples_per_second r =
     (let secs = as_secs_f64 (rt_duration (r_timing r))
      in if 0 < secs then f64_round (f64_round (of_int (sint (Report_total_samples r))) / secs) else 0)"

definition UnresolvedReport_samples_per_second :: "UnresolvedReport \<Rightarrow> real" where
  "UnresolvedReport_samples_per_second r =
     (let secs = as_secs_f64 (rt_duration (ur_timing r))
      in if 0 < secs then f64_round (f64_round (of_int (sint (UnresolvedReport_total_samples r))) / secs) else 0)"

lemma as_secs_whole:
  assumes "s < 2 ^ 53"
  shows "as_secs_f64 (s * 10 ^ 9) = of_nat s"
proof -
  have "f64_round (of_nat s) = of_nat s" using f64_round_int [of "int s"] assms by (simp flip: of_nat_less_iff)
  moreover have "f64_round 0 = 0" by (simp add: f64_round_def)
  ultimately show ?thesis by (simp add: as_secs_f64_def)
qed

text \<open>
  For a whole number of seconds and totals below \<open>2 ^ 53\<close> the rate is the exact quotient, rounded once; without a duration it is 0.
\<close>

lemma samples_per_second_correct:
  assumes "rt_duration (r_timing r) = s * 10 ^ 9" and "s < 2 ^ 53" and "\<bar>sint (Report_total_samples r)\<bar> < 2 ^ 53"
  shows "Report_samples_per_second r = (if s = 0 then 0 else f64_round (of_int (sint (Report_total_samples r)) / of_nat s))"
  using as_secs_whole [OF assms(2)] f64_round_int [OF assms(3)] by (simp add: Report_samples_per_second_def assms(1) Let_def)

lemma unresolved_samples_per_second_correct:
  assumes "rt_duration (ur_timing r) = s * 10 ^ 9" and "s < 2 ^ 53" and "\<bar>sint (UnresolvedReport_total_samples r)\<bar> < 2 ^ 53"
  shows "UnresolvedReport_samples_per_second r =
    (if s = 0 then 0 else f64_round (of_int (sint (UnresolvedReport_total_samples r)) / of_nat s))"
  using as_secs_whole [OF assms(2)] f64_round_int [OF assms(3)] by (simp add: UnresolvedReport_samples_per_second_def assms(1) Let_def)

text \<open>A rate that is a whole number is exact: 42 samples in two seconds are 21 per second.\<close>

lemma samples_per_second_whole:
  assumes "rt_duration (r_timing r) = s * 10 ^ 9" and "0 < s" and "s < 2 ^ 53" and "\<bar>sint (Report_total_samples r)\<bar> < 2 ^ 53"
    and "sint (Report_total_samples r) = k * int s"
  shows "Report_samples_per_second r = of_int k"
proof -
  have "\<bar>k\<bar> * 1 \<le> \<bar>k\<bar> * int s" using assms(2) by (intro mult_left_mono) auto
  then have "\<bar>k\<bar> < 2 ^ 53" using assms(4,5) by (simp add: abs_mult)
  then have "f64_round (of_int k) = of_int k" by (rule f64_round_int)
  then show ?thesis using samples_per_second_correct [OF assms(1,3,4)] assms(2,5) by simp
qed

end
