(* ===== verification/Perfmap.thy ===== *)
theory Perfmap
  imports Report_Formats
begin

text \<open>
  \<^verbatim>\<open>src/src/perfmap.rs\<close>, and \<^verbatim>\<open>resolve_in_perfmap\<close> of \<^verbatim>\<open>src/src/frames.rs\<close>: the symbols a just-in-time compiler writes to
  \<^verbatim>\<open>/tmp/perf-<pid>.map\<close>. Text is a list of bytes in UTF-8; \<open>ws_len\<close> recognises the white space characters of Unicode in it, as
  \<^verbatim>\<open>split_whitespace\<close> does. The file is its bytes, whether reading them ends in an error, and its modification time. The sum of
  start and length wraps, as in a release build.
\<close>

section \<open>Text\<close>

definition ws_byte :: "nat \<Rightarrow> bool" where
  "ws_byte a \<longleftrightarrow> 9 \<le> a \<and> a \<le> 13 \<or> a = 32"

definition ws_two :: "nat \<Rightarrow> nat \<Rightarrow> bool" where
  "ws_two a b \<longleftrightarrow> a = 0xC2 \<and> (b = 0x85 \<or> b = 0xA0)"

definition ws_three :: "nat \<Rightarrow> nat \<Rightarrow> nat \<Rightarrow> bool" where
  "ws_three a b c \<longleftrightarrow>
     a = 0xE1 \<and> b = 0x9A \<and> c = 0x80
     \<or> a = 0xE2 \<and> b = 0x80 \<and> (0x80 \<le> c \<and> c \<le> 0x8A \<or> c = 0xA8 \<or> c = 0xA9 \<or> c = 0xAF)
     \<or> a = 0xE2 \<and> b = 0x81 \<and> c = 0x9F
     \<or> a = 0xE3 \<and> b = 0x80 \<and> c = 0x80"

text \<open>The number of bytes of the white space character at the front, 0 if there is none.\<close>

fun ws_len :: "string \<Rightarrow> nat" where
  "ws_len [] = 0"
| "ws_len (a # s) =
     (if ws_byte (of_char a) then 1
      else case s of
             [] \<Rightarrow> 0
           | b # s \<Rightarrow>
               if ws_two (of_char a) (of_char b) then 2
               else (case s of [] \<Rightarrow> 0 | c # _ \<Rightarrow> if ws_three (of_char a) (of_char b) (of_char c) then 3 else 0))"

function split_ws :: "string \<Rightarrow> string \<Rightarrow> string list" where
  "split_ws word [] = (if word = [] then [] else [word])"
| "split_ws word (c # s) =
     (let n = ws_len (c # s)
      in if n = 0 then split_ws (word @ [c]) s
         else (if word = [] then [] else [word]) @ split_ws [] (drop n (c # s)))"
  by pat_completeness auto
termination
  by (relation "measure (\<lambda>(w, s). length s)") auto

definition split_whitespace :: "string \<Rightarrow> string list" where
  "split_whitespace s = split_ws [] s"

definition hex_digit :: "char \<Rightarrow> nat option" where
  "hex_digit c =
     (let n = of_char c :: nat
      in if 48 \<le> n \<and> n \<le> 57 then Some (n - 48)
         else if 97 \<le> n \<and> n \<le> 102 then Some (n - 87)
         else if 65 \<le> n \<and> n \<le> 70 then Some (n - 55)
         else None)"

primrec hex_digits :: "nat \<Rightarrow> string \<Rightarrow> nat option" where
  "hex_digits acc [] = Some acc"
| "hex_digits acc (c # s) =
     (case hex_digit c of
        None \<Rightarrow> None
      | Some d \<Rightarrow> if acc * 16 + d < 2 ^ 64 then hex_digits (acc * 16 + d) s else None)"

text \<open>\<^verbatim>\<open>usize::from_str_radix(s, 16)\<close>: a leading plus sign is allowed, an overflow is an error.\<close>

definition from_str_radix16 :: "string \<Rightarrow> usize option" where
  "from_str_radix16 s =
     (let digits = (if s \<noteq> [] \<and> hd s = CHR ''+'' then tl s else s)
      in if digits = [] then None else map_option of_nat (hex_digits 0 digits))"

definition strip_cr :: "string \<Rightarrow> string" where
  "strip_cr l = (if l \<noteq> [] \<and> last l = CHR 0x0D then butlast l else l)"

function lines_of :: "string \<Rightarrow> string list" where
  "lines_of s =
     (if s = [] then []
      else let l = takeWhile (\<lambda>c. c \<noteq> CHR 0x0A) s; r = dropWhile (\<lambda>c. c \<noteq> CHR 0x0A) s
           in if r = [] then [l] else strip_cr l # lines_of (tl r))"
  by pat_completeness auto
termination
proof (relation "measure length")
  fix s :: string and l r assume "r = dropWhile (\<lambda>c. c \<noteq> CHR 0x0A) s" "r \<noteq> []"
  then show "(tl r, s) \<in> measure length"
    using length_dropWhile_le [of "\<lambda>c. c \<noteq> CHR 0x0A" s] by (cases "dropWhile (\<lambda>c. c \<noteq> CHR 0x0A) s") simp_all
qed simp

declare lines_of.simps [simp del]

section \<open>The map\<close>

record PerfMap =
  pm_ranges :: "(usize \<times> usize \<times> string) list"

definition parse_perf_line :: "string \<Rightarrow> (usize \<times> usize \<times> string) option" where
  "parse_perf_line l =
     (case split_whitespace l of
        a # b # name \<Rightarrow>
          (case from_str_radix16 a of
             None \<Rightarrow> None
           | Some start \<Rightarrow>
               (case from_str_radix16 b of
                  None \<Rightarrow> None
                | Some len \<Rightarrow> Some (start, start + len, join '' '' name)))
      | _ \<Rightarrow> None)"

text \<open>A line that is not UTF-8, and an error of the reader, are \<open>None\<close>.\<close>

primrec parse_lines :: "string option list \<Rightarrow> (usize \<times> usize \<times> string) list option" where
  "parse_lines [] = Some []"
| "parse_lines (l # ls) =
     (case l of
        None \<Rightarrow> None
      | Some s \<Rightarrow> (case parse_perf_line s of None \<Rightarrow> None | Some r \<Rightarrow> map_option (Cons r) (parse_lines ls)))"

record perf_file =
  pf_content :: string
  pf_read_error :: bool
  pf_mtime :: "u64 option"

definition file_lines :: "perf_file \<Rightarrow> string option list" where
  "file_lines f =
     map (\<lambda>l. if utf8_valid l then Some l else None) (lines_of (pf_content f)) @ (if pf_read_error f then [None] else [])"

definition PerfMap_new :: "perf_file \<Rightarrow> PerfMap option" where
  "PerfMap_new f = map_option (\<lambda>rs. \<lparr>pm_ranges = rs\<rparr>) (parse_lines (file_lines f))"

primrec find_range :: "(usize \<times> usize \<times> string) list \<Rightarrow> usize \<Rightarrow> string option" where
  "find_range [] addr = None"
| "find_range (r # rs) addr =
     (case r of (start, finish, name) \<Rightarrow> if start \<le> addr \<and> addr < finish then Some name else find_range rs addr)"

definition PerfMap_find :: "PerfMap \<Rightarrow> usize \<Rightarrow> string option" where
  "PerfMap_find m addr = find_range (pm_ranges m) addr"

definition Symbol_from_perfmap :: "string \<Rightarrow> Symbol" where
  "Symbol_from_perfmap symbol = \<lparr>sym_name = Some symbol, sym_addr = None, sym_lineno = None, sym_filename = None\<rparr>"

section \<open>The resolver\<close>

text \<open>
  The file, the static \<^verbatim>\<open>MTIME\<close>, and \<^verbatim>\<open>RESOLVER\<close>, which is \<open>None\<close> until it is first used. \<open>touch\<close> opens the file to write and
  truncates it; \<open>now\<close> is the time the file system gives to the write, and \<open>ok\<close> whether the open succeeds.
\<close>

record perf_state =
  ps_file :: "perf_file option"
  ps_mtime :: u64
  ps_resolver :: "PerfMap option option"

definition touch :: "u64 \<Rightarrow> bool \<Rightarrow> perf_state \<Rightarrow> perf_state" where
  "touch now ok s =
     (if ok then s\<lparr>ps_file := Some \<lparr>pf_content = [], pf_read_error = False, pf_mtime = Some now\<rparr>\<rparr> else s)"

definition init_resolver :: "perf_state \<Rightarrow> perf_state \<times> PerfMap option" where
  "init_resolver s =
     (case ps_file s of
        None \<Rightarrow> (s, None)
      | Some f \<Rightarrow>
          (case pf_mtime f of
             None \<Rightarrow> (s, None)
           | Some mtime \<Rightarrow> if ps_mtime s = mtime then (s, None) else (s\<lparr>ps_mtime := mtime\<rparr>, PerfMap_new f)))"

definition force_resolver :: "u64 \<Rightarrow> bool \<Rightarrow> perf_state \<Rightarrow> perf_state" where
  "force_resolver now ok s =
     (case ps_resolver s of
        Some _ \<Rightarrow> s
      | None \<Rightarrow> (case init_resolver (touch now ok s) of (s, m) \<Rightarrow> s\<lparr>ps_resolver := Some m\<rparr>))"

text \<open>
  The body of the thread that every call starts, in two steps: reading the file, and storing what was read. \<open>get_resolver\<close>
  itself only loads what is stored at that time.
\<close>

definition refresh_store :: "u64 \<Rightarrow> bool \<Rightarrow> PerfMap option \<Rightarrow> perf_state \<Rightarrow> perf_state" where
  "refresh_store now ok perf_map s =
     (if perf_map = None then s else (force_resolver now ok s)\<lparr>ps_resolver := Some perf_map\<rparr>)"

definition get_resolver :: "u64 \<Rightarrow> bool \<Rightarrow> perf_state \<Rightarrow> perf_state \<times> PerfMap option" where
  "get_resolver now ok s = (let s = force_resolver now ok s in (s, the (ps_resolver s)))"

definition resolve_in_perfmap :: "PerfMap option \<Rightarrow> usize \<Rightarrow> Symbol option" where
  "resolve_in_perfmap resolver addr =
     (case resolver of
        None \<Rightarrow> None
      | Some m \<Rightarrow> (case PerfMap_find m addr of Some symbol \<Rightarrow> Some (Symbol_from_perfmap symbol) | None \<Rightarrow> None))"

section \<open>Round trip\<close>

text \<open>What a compiler writes: start and length in hexadecimal and the name, one symbol on each line.\<close>

fun show_hex :: "nat \<Rightarrow> string" where
  "show_hex n = (if n < 16 then [digit_char n] else show_hex (n div 16) @ [digit_char (n mod 16)])"

declare show_hex.simps [simp del]

definition perf_line :: "usize \<times> usize \<times> string \<Rightarrow> string" where
  "perf_line = (\<lambda>(start, len, name). show_hex (unat start) @ '' '' @ show_hex (unat len) @ '' '' @ name)"

definition perf_text :: "(usize \<times> usize \<times> string) list \<Rightarrow> string" where
  "perf_text es = concat (map (\<lambda>e. perf_line e @ [CHR 0x0A]) es)"

text \<open>Names that the format can carry: single spaces between words, and UTF-8.\<close>

definition name_ok :: "string \<Rightarrow> bool" where
  "name_ok name \<longleftrightarrow> join '' '' (split_whitespace name) = name \<and> utf8_valid name"

definition plain :: "char \<Rightarrow> bool" where
  "plain c \<longleftrightarrow> 33 \<le> (of_char c :: nat) \<and> (of_char c :: nat) \<le> 126"

lemma hex_digit_char:
  assumes "d < 16"
  shows "hex_digit (digit_char d) = Some d" "plain (digit_char d)" "digit_char d \<noteq> CHR ''+''"
proof -
  have "d < 10 \<or> 10 \<le> d" by linarith
  then have n: "(of_char (digit_char d) :: nat) = (if d < 10 then 48 + d else 87 + d)"
    using assms by (auto simp: digit_char_def)
  then show "hex_digit (digit_char d) = Some d" "plain (digit_char d)"
    using assms by (auto simp: hex_digit_def plain_def Let_def)
  show "digit_char d \<noteq> CHR ''+''"
  proof
    assume "digit_char d = CHR ''+''"
    with n have "(if d < 10 then 48 + d else 87 + d) = (43 :: nat)" by simp
    then show False by (simp split: if_splits)
  qed
qed

lemma hex_digits_append:
  "hex_digits acc (s @ t) = (case hex_digits acc s of None \<Rightarrow> None | Some n \<Rightarrow> hex_digits n t)"
  by (induction s arbitrary: acc) (auto split: option.split)

lemma show_hex_digits:
  "n < 2 ^ 64 \<Longrightarrow> hex_digits 0 (show_hex n) = Some n \<and> list_all plain (show_hex n) \<and> show_hex n \<noteq> []
     \<and> hd (show_hex n) \<noteq> CHR ''+''"
proof (induction n rule: show_hex.induct)
  case (1 n)
  show ?case
  proof (cases "n < 16")
    case True
    with "1.prems" hex_digit_char [OF True] show ?thesis by (subst (1 2 3 4) show_hex.simps) simp
  next
    case False
    with 1 have IH: "hex_digits 0 (show_hex (n div 16)) = Some (n div 16)" "list_all plain (show_hex (n div 16))"
      "show_hex (n div 16) \<noteq> []" "hd (show_hex (n div 16)) \<noteq> CHR ''+''"
      using "1.prems" by auto
    have "n mod 16 < 16" by simp
    note digit = hex_digit_char [OF this]
    from False IH digit "1.prems" show ?thesis
      by (simp add: show_hex.simps [of n] hex_digits_append)
  qed
qed

lemma show_hex_usize: "unat (w :: usize) < 2 ^ 64"
  using unsigned_less [of w] by simp

lemma from_str_show_hex: "from_str_radix16 (show_hex (unat w)) = Some w"
  using show_hex_digits [OF show_hex_usize] by (simp add: from_str_radix16_def Let_def)

lemma ws_len_plain: "plain c \<Longrightarrow> ws_len (c # s) = 0"
  by (auto simp: plain_def ws_byte_def ws_two_def ws_three_def split: list.split)

lemma split_ws_plain: "list_all plain xs \<Longrightarrow> split_ws w (xs @ s) = split_ws (w @ xs) s"
proof (induction xs arbitrary: w)
  case (Cons c xs)
  then have "split_ws w ((c # xs) @ s) = split_ws (w @ [c]) (xs @ s)"
    by (simp add: ws_len_plain del: ws_len.simps)
  with Cons show ?case by simp
qed simp

lemma split_ws_space: "split_ws w ('' '' @ s) = (if w = [] then [] else [w]) @ split_ws [] s"
  by (simp add: ws_byte_def)

lemma split_perf_line:
  "split_whitespace (perf_line (start, len, name)) = [show_hex (unat start), show_hex (unat len)] @ split_whitespace name"
proof -
  have hex: "list_all plain (show_hex (unat w)) \<and> show_hex (unat w) \<noteq> []" for w :: usize
    using show_hex_digits [OF show_hex_usize] by blast
  then show ?thesis
    by (simp only: perf_line_def prod.case split_whitespace_def split_ws_plain split_ws_space append_Nil) simp
qed

text \<open>No word has a white space byte, so a name has no line break.\<close>

lemma split_ws_bytes:
  "\<forall>b \<in> set w. \<not> ws_byte (of_char b) \<Longrightarrow> x \<in> set (split_ws w s) \<Longrightarrow> b \<in> set x \<Longrightarrow> \<not> ws_byte (of_char b)"
proof (induction w s rule: split_ws.induct)
  case (2 w c s)
  show ?case
  proof (cases "ws_len (c # s) = 0")
    case True
    then have "\<not> ws_byte (of_char c)" by (auto split: if_splits)
    with 2 True show ?thesis by (simp del: ws_len.simps)
  next
    case False
    with 2 show ?thesis by (auto simp: Let_def simp del: ws_len.simps split: if_splits)
  qed
qed (auto split: if_splits)

definition no_break :: "string \<Rightarrow> bool" where
  "no_break l \<longleftrightarrow> CHR 0x0A \<notin> set l \<and> CHR 0x0D \<notin> set l"

lemma set_join: "set (join sep ws) \<subseteq> set sep \<union> \<Union> (set ` set ws)"
  by (induction sep ws rule: join.induct) auto

lemma name_no_break: "name_ok name \<Longrightarrow> no_break name"
proof -
  assume "name_ok name"
  then have "set name \<subseteq> set '' '' \<union> \<Union> (set ` set (split_whitespace name))"
    using set_join [of "'' ''" "split_whitespace name"] by (simp add: name_ok_def)
  moreover have "CHR 0x0A \<notin> set w \<and> CHR 0x0D \<notin> set w" if "w \<in> set (split_whitespace name)" for w
    using split_ws_bytes [of "[]" w name "CHR 0x0A"] split_ws_bytes [of "[]" w name "CHR 0x0D"] that
    by (auto simp: split_whitespace_def ws_byte_def)
  ultimately show ?thesis by (auto simp: no_break_def)
qed

lemma plain_no_break: "list_all plain l \<Longrightarrow> no_break l"
  by (auto simp: no_break_def list_all_iff plain_def)

lemma no_break_append: "no_break (s @ t) \<longleftrightarrow> no_break s \<and> no_break t"
  by (auto simp: no_break_def)

lemma utf8_valid_ascii: "\<forall>c \<in> set xs. byte_in 0 127 c \<Longrightarrow> utf8_valid s \<Longrightarrow> utf8_valid (xs @ s)"
proof (induction xs)
  case (Cons c xs)
  then show ?case using utf8_valid_step [of "[c]" "xs @ s"] by simp
qed simp

lemma show_hex_ascii: "c \<in> set (show_hex (unat (w :: usize))) \<Longrightarrow> byte_in 0 127 c"
  using show_hex_digits [OF show_hex_usize, of w] by (auto simp: list_all_iff plain_def byte_in_def)

lemma perf_line_ok:
  assumes "name_ok name"
  shows "no_break (perf_line (start, len, name))" "utf8_valid (perf_line (start, len, name))"
    "parse_perf_line (perf_line (start, len, name)) = Some (start, start + len, name)"
proof -
  have "no_break (show_hex (unat w))" for w :: usize
    using show_hex_digits [OF show_hex_usize] plain_no_break by blast
  moreover have "no_break '' ''" by (simp add: no_break_def)
  ultimately show "no_break (perf_line (start, len, name))"
    using name_no_break [OF assms] by (simp only: perf_line_def prod.case no_break_append simp_thms)
  let ?front = "show_hex (unat start) @ '' '' @ show_hex (unat len) @ '' ''"
  have "byte_in 0 127 (CHR '' '')" by (simp add: byte_in_def)
  then have "\<forall>c \<in> set ?front. byte_in 0 127 c" by (auto dest: show_hex_ascii)
  from utf8_valid_ascii [OF this] assms show "utf8_valid (perf_line (start, len, name))"
    by (simp add: perf_line_def name_ok_def)
  show "parse_perf_line (perf_line (start, len, name)) = Some (start, start + len, name)"
    using assms by (simp add: parse_perf_line_def split_perf_line from_str_show_hex name_ok_def)
qed

lemma lines_of_concat: "\<forall>l \<in> set ls. no_break l \<Longrightarrow> lines_of (concat (map (\<lambda>l. l @ [CHR 0x0A]) ls)) = ls"
proof (induction ls)
  case (Cons l ls)
  let ?rest = "concat (map (\<lambda>l. l @ [CHR 0x0A]) ls)"
  have l: "\<forall>c \<in> set l. c \<noteq> CHR 0x0A" "strip_cr l = l"
    using Cons.prems by (auto simp: no_break_def strip_cr_def) (metis last_in_set)
  then have "takeWhile (\<lambda>c. c \<noteq> CHR 0x0A) (l @ CHR 0x0A # ?rest) = l"
    "dropWhile (\<lambda>c. c \<noteq> CHR 0x0A) (l @ CHR 0x0A # ?rest) = CHR 0x0A # ?rest"
    by (simp_all add: takeWhile_append2 dropWhile_append2)
  with Cons l(2) show ?case by (subst lines_of.simps) simp
qed (simp add: lines_of.simps)

lemma parse_lines_entries:
  "\<forall>e \<in> set es. name_ok (snd (snd e)) \<Longrightarrow>
     parse_lines (map (\<lambda>l. if utf8_valid l then Some l else None) (map perf_line es))
       = Some (map (\<lambda>(start, len, name). (start, start + len, name)) es)"
  by (induction es) (auto simp: perf_line_ok)

lemma PerfMap_new_text:
  assumes "\<forall>e \<in> set es. name_ok (snd (snd e))"
  shows "PerfMap_new \<lparr>pf_content = perf_text es, pf_read_error = False, pf_mtime = t\<rparr>
    = Some \<lparr>pm_ranges = map (\<lambda>(start, len, name). (start, start + len, name)) es\<rparr>"
proof -
  have "lines_of (perf_text es) = map perf_line es"
    using lines_of_concat [of "map perf_line es"] assms perf_line_ok(1) by (fastforce simp: perf_text_def comp_def)
  then show ?thesis
    using parse_lines_entries [OF assms] by (simp add: PerfMap_new_def file_lines_def)
qed

section \<open>Resolution\<close>

type_synonym perf_entry = "usize \<times> usize \<times> string"

definition covers :: "perf_entry \<Rightarrow> usize \<Rightarrow> bool" where
  "covers e a \<longleftrightarrow> unat (fst e) \<le> unat a \<and> unat a < unat (fst e) + unat (fst (snd e))"

definition disjoint_entries :: "perf_entry list \<Rightarrow> bool" where
  "disjoint_entries es \<longleftrightarrow> list_all (\<lambda>e. unat (fst e) + unat (fst (snd e)) < 2 ^ 64) es \<and>
     sorted_wrt (\<lambda>d e. unat (fst d) + unat (fst (snd d)) \<le> unat (fst e) \<or> unat (fst e) + unat (fst (snd e)) \<le> unat (fst d)) es"

lemma in_range_iff:
  assumes "unat start + unat len < 2 ^ 64"
  shows "start \<le> addr \<and> addr < start + len \<longleftrightarrow> covers (start, len, name) addr"
proof -
  have "unat (start + len) = unat start + unat len" using assms by (simp add: unat_word_ariths)
  then show ?thesis by (simp add: covers_def word_le_nat_alt word_less_nat_alt)
qed

lemma find_range_entries:
  "list_all (\<lambda>e. unat (fst e) + unat (fst (snd e)) < 2 ^ 64) es \<Longrightarrow>
     find_range (map (\<lambda>(start, len, name). (start, start + len, name)) es) a
       = map_option (\<lambda>e. snd (snd e)) (find (\<lambda>e. covers e a) es)"
proof (induction es)
  case (Cons e es)
  obtain start len name where "e = (start, len, name)" by (cases e)
  with Cons in_range_iff [of start len a name] show ?case by simp
qed simp

lemma find_disjoint:
  assumes "disjoint_entries es" "e \<in> set es" "covers e a"
  shows "find (\<lambda>e. covers e a) es = Some e"
  using assms
proof (induction es)
  case (Cons d es)
  show ?case
  proof (cases "d = e")
    case False
    with Cons.prems have "e \<in> set es" "\<not> covers d a" by (auto simp: disjoint_entries_def covers_def)
    with Cons show ?thesis by (simp add: disjoint_entries_def)
  qed (use Cons.prems in simp)
qed simp

text \<open>
  C21. What a compiler writes to the perf map is what the profiler reads from it: of a file that lists disjoint symbols, one on
  each line, an address inside a symbol resolves to the name of that symbol, and any other address to nothing. Names may
  have spaces in them.
\<close>

theorem perfmap_resolves:
  assumes "\<forall>e \<in> set es. name_ok (snd (snd e))" "disjoint_entries es"
  shows "\<exists>m. PerfMap_new \<lparr>pf_content = perf_text es, pf_read_error = False, pf_mtime = t\<rparr> = Some m \<and>
    (\<forall>e \<in> set es. \<forall>a. covers e a \<longrightarrow> resolve_in_perfmap (Some m) a = Some (Symbol_from_perfmap (snd (snd e)))) \<and>
    (\<forall>a. (\<forall>e \<in> set es. \<not> covers e a) \<longrightarrow> resolve_in_perfmap (Some m) a = None)"
proof -
  let ?m = "\<lparr>pm_ranges = map (\<lambda>(start, len, name). (start, start + len, name)) es\<rparr>"
  have look: "PerfMap_find ?m a = map_option (\<lambda>e. snd (snd e)) (find (\<lambda>e. covers e a) es)" for a
    using find_range_entries assms(2) by (simp add: PerfMap_find_def disjoint_entries_def)
  have "PerfMap_find ?m a = Some (snd (snd e))" if "e \<in> set es" "covers e a" for e a
    using find_disjoint [OF assms(2) that] by (simp add: look)
  moreover have "PerfMap_find ?m a = None" if "\<forall>e \<in> set es. \<not> covers e a" for a
    using that by (simp add: look find_None_iff)
  ultimately show ?thesis
    using PerfMap_new_text [OF assms(1)] by (intro exI [of _ ?m]) (simp add: resolve_in_perfmap_def)
qed

theorem perfmap_resolves_witness:
  "\<exists>m. PerfMap_new \<lparr>pf_content = perf_text [(0x1000, 0x20, ''f''), (0x2000, 0x10, ''g h'')], pf_read_error = False,
      pf_mtime = None\<rparr> = Some m \<and>
    resolve_in_perfmap (Some m) 0x2004 = Some (Symbol_from_perfmap ''g h'') \<and> resolve_in_perfmap (Some m) 0x1020 = None"
proof -
  let ?es = "[(0x1000, 0x20, ''f''), (0x2000, 0x10, ''g h'')] :: perf_entry list"
  have "utf8_valid s" if "\<forall>c \<in> set s. byte_in 0 127 c" for s using utf8_valid_ascii [OF that, of "[]"] by simp
  then have "\<forall>e \<in> set ?es. name_ok (snd (snd e))"
    by (simp add: name_ok_def split_whitespace_def ws_byte_def ws_two_def ws_three_def byte_in_def Let_def)
  moreover have "disjoint_entries ?es" by (simp add: disjoint_entries_def)
  ultimately obtain m where "PerfMap_new \<lparr>pf_content = perf_text ?es, pf_read_error = False, pf_mtime = None\<rparr> = Some m"
      "\<forall>e \<in> set ?es. \<forall>a. covers e a \<longrightarrow> resolve_in_perfmap (Some m) a = Some (Symbol_from_perfmap (snd (snd e)))"
      "\<forall>a. (\<forall>e \<in> set ?es. \<not> covers e a) \<longrightarrow> resolve_in_perfmap (Some m) a = None"
    using perfmap_resolves [of ?es None] by blast
  moreover have "covers (0x2000, 0x10, ''g h'') 0x2004" "\<forall>e \<in> set ?es. \<not> covers e 0x1020" by (simp_all add: covers_def)
  ultimately show ?thesis by (intro exI [of _ m]) auto
qed

section \<open>Errors\<close>

lemma parse_lines_all: "parse_lines ls = Some rs \<Longrightarrow> l \<in> set ls \<Longrightarrow> \<exists>s. l = Some s \<and> parse_perf_line s \<noteq> None"
  by (induction ls arbitrary: rs) (auto split: option.splits)

text \<open>
  C23. One bad line costs the whole map. If any line of the file is blank, is not UTF-8, lacks the length, or has an address that
  is not hexadecimal or does not fit, or if reading fails at the end, then there is no map at all, and no address resolves.
\<close>

theorem perfmap_all_or_nothing:
  assumes "pf_read_error f \<or> (\<exists>l \<in> set (lines_of (pf_content f)). \<not> utf8_valid l \<or> parse_perf_line l = None)"
  shows "PerfMap_new f = None \<and> resolve_in_perfmap (PerfMap_new f) a = None"
proof -
  have "parse_lines (file_lines f) = None"
  proof (rule ccontr)
    assume "parse_lines (file_lines f) \<noteq> None"
    then have good: "\<exists>s. l = Some s \<and> parse_perf_line s \<noteq> None" if "l \<in> set (file_lines f)" for l
      using parse_lines_all that by blast
    have "utf8_valid l \<and> parse_perf_line l \<noteq> None" if "l \<in> set (lines_of (pf_content f))" for l
    proof -
      have "(if utf8_valid l then Some l else None) \<in> set (file_lines f)" using that unfolding file_lines_def by auto
      from good [OF this] show ?thesis by (auto split: if_splits)
    qed
    moreover have "\<not> pf_read_error f" using good [of None] by (auto simp: file_lines_def)
    ultimately show False using assms by blast
  qed
  then show ?thesis by (simp add: PerfMap_new_def resolve_in_perfmap_def)
qed

lemma blank_line: "parse_perf_line [] = None"
  by (simp add: parse_perf_line_def split_whitespace_def)

theorem perfmap_all_or_nothing_witness:
  "PerfMap_new \<lparr>pf_content = [CHR 0x0A], pf_read_error = False, pf_mtime = None\<rparr> = None"
proof -
  have "[] \<in> set (lines_of [CHR 0x0A])" by (simp add: lines_of.simps [of "[CHR 0x0A]"] strip_cr_def)
  then show ?thesis
    using perfmap_all_or_nothing [of "\<lparr>pf_content = [CHR 0x0A], pf_read_error = False, pf_mtime = None\<rparr>"] blank_line by auto
qed

text \<open>
  A later refresh that finds a changed file which parses makes its map the one in use; a refresh that finds nothing new, or a file
  that does not parse, keeps the map.
\<close>

lemma refresh_stores:
  assumes "ps_resolver s = Some old" "ps_file s = Some f" "pf_mtime f = Some t" "t \<noteq> ps_mtime s" "PerfMap_new f = Some m"
    and "init_resolver s = (s1, perf_map)"
  shows "snd (get_resolver now ok (refresh_store now ok perf_map s1)) = Some m"
  using assms by (auto simp: init_resolver_def refresh_store_def get_resolver_def force_resolver_def)

lemma refresh_keeps:
  assumes "ps_resolver s = Some old" "init_resolver s = (s1, None)"
  shows "snd (get_resolver now ok (refresh_store now ok None s1)) = old"
  using assms by (auto simp: init_resolver_def refresh_store_def get_resolver_def force_resolver_def split: option.splits if_splits)



end
