(* ===== verification/Profiler_States.thy ===== *)
theory Profiler_States
  imports Profiler
begin

text \<open>
  The profiler as a state machine: guards are built and dropped, signals arrive, and the lock is taken and
  released, in any order. The locale \<open>kernel_laws\<close> extends \<open>itimer_os\<close> with what \<^verbatim>\<open>sigaction(2)\<close> documents, through an observer
  of the installed actions; \<open>sim_kernel\<close> is an instance. \<open>phase\<close> is the part of the profiler that decides whether it
  runs. The invariant relates it to the live guards, the installed actions and the armed timers.
\<close>

section \<open>The kernel\<close>

definition is_perf :: "SigAction \<Rightarrow> bool" where
  "is_perf a \<longleftrightarrow> sa_handler a = SigActionFn PerfSignalHandler"

locale kernel_laws = itimer_os setitimer period
  for setitimer :: "'os setitimer_fn" and period :: "'os \<Rightarrow> int \<Rightarrow> int" +
  fixes sigaction :: "'os sigaction_fn" and disp :: "'os \<Rightarrow> Signal \<Rightarrow> SigAction"
  assumes sigaction_ok: "sigaction os sig a = (os', Inr old) \<Longrightarrow>
      old = disp os sig \<and> disp os' = (disp os)(sig := a) \<and> period os' = period os"
    and sigaction_err: "sigaction os sig a = (os', Inl e) \<Longrightarrow> disp os' = disp os \<and> period os' = period os"
    and setitimer_disp: "disp (setitimer os which v) = disp os"

text \<open>A simulated kernel with the two tables; \<^verbatim>\<open>sigaction\<close> fails when told to.\<close>

record sim_kernel =
  sk_timers :: "int \<Rightarrow> Itimerval"
  sk_actions :: "Signal \<Rightarrow> SigAction"
  sk_fail :: "int option"

definition sk_setitimer :: "sim_kernel setitimer_fn" where
  "sk_setitimer os which v = os\<lparr>sk_timers := sim_setitimer (sk_timers os) which v\<rparr>"

definition sk_period :: "sim_kernel \<Rightarrow> int \<Rightarrow> int" where
  "sk_period os = sim_period (sk_timers os)"

definition sk_sigaction :: "sim_kernel sigaction_fn" where
  "sk_sigaction os sig a =
     (case sk_fail os of
        Some e \<Rightarrow> (os, Inl e)
      | None \<Rightarrow> (os\<lparr>sk_actions := (sk_actions os)(sig := a)\<rparr>, Inr (sk_actions os sig)))"

interpretation sim_kernel: kernel_laws sk_setitimer sk_period sk_sigaction sk_actions
  using sim_itimer.set_valid sim_itimer.set_invalid sim_itimer.set_other
  by unfold_locales
     (auto simp: sk_setitimer_def sk_period_def sk_sigaction_def split: option.splits)

section \<open>Phases\<close>

datatype phase = Idle | Busy ClockType "SigAction option"

definition phase :: "'os world \<Rightarrow> phase" where
  "phase w =
     (case w_profiler w of
        Some (Inr p) \<Rightarrow> (if p_running p then Busy (p_clock_type p) (p_old_sigaction p) else Idle)
      | _ \<Rightarrow> Idle)"

lemma phase_force [simp]: "phase (force_profiler pl e now w) = phase w"
  by (auto simp: force_profiler_def phase_def Profiler_new_def split: option.splits sum.splits)

lemma force_profiler_frame [simp]:
  "w_os (force_profiler pl e now w) = w_os w" "w_locked (force_profiler pl e now w) = w_locked w"
  "w_missed (force_profiler pl e now w) = w_missed w"
  by (auto simp: force_profiler_def split: option.splits)

lemma handle_signal_phase:
  assumes "handle_signal pl env p = Return p'"
  shows "p_running p' = p_running p \<and> p_clock_type p' = p_clock_type p \<and> p_old_sigaction p' = p_old_sigaction p"
  using assms
  by (auto simp: handle_signal_def Profiler_sample_def obind_Return_iff Let_def split: if_splits option.splits prod.splits)

lemma perf_signal_handler_phase:
  assumes "perf_signal_handler pl env w = Return w'"
  shows "phase w' = phase w \<and> w_os w' = w_os w"
proof -
  let ?w = "force_profiler pl (se_create env) (se_now env) w"
  have "phase w' = phase ?w"
    using assms handle_signal_phase
    by (force simp: perf_signal_handler_def ErrnoProtector_new_def ErrnoProtector_drop_def phase_def
        obind_Return_iff Let_def split: if_splits option.splits sum.splits)
  moreover have "w_os w' = w_os w"
    using assms
    by (auto simp: perf_signal_handler_def ErrnoProtector_new_def ErrnoProtector_drop_def
        obind_Return_iff Let_def split: if_splits option.splits sum.splits)
  ultimately show ?thesis by simp
qed

section \<open>Building a guard\<close>

text \<open>The five ways in which \<^verbatim>\<open>build\<close> ends.\<close>

definition configure :: "platform \<Rightarrow> ProfilerGuardBuilder \<Rightarrow> Profiler \<Rightarrow> Profiler" where
  "configure pl b p =
     p\<lparr>p_on_stack := if frame_pointer_feature (pl_cfg pl) then b_on_stack b else p_on_stack p,
       p_blocklist_segments := b_blocklist_segments b\<rparr>"

definition armed :: "ProfilerGuardBuilder \<Rightarrow> Profiler \<Rightarrow> Profiler" where
  "armed b p = p\<lparr>p_clock_type := b_clock_type b, p_thread_blocklist := b_thread_blocklist b\<rparr>"

lemma configure_frame [simp]:
  "p_running (configure pl b p) = p_running p" "p_data (configure pl b p) = p_data p"
  "p_clock_type (configure pl b p) = p_clock_type p" "p_old_sigaction (configure pl b p) = p_old_sigaction p"
  "p_blocklist_segments (configure pl b p) = b_blocklist_segments b"
  by (simp_all add: configure_def)

lemma armed_frame [simp]:
  "p_running (armed b p) = p_running p" "p_data (armed b p) = p_data p"
  "p_clock_type (armed b p) = b_clock_type b" "p_old_sigaction (armed b p) = p_old_sigaction p"
  "p_on_stack (armed b p) = p_on_stack p" "p_thread_blocklist (armed b p) = b_thread_blocklist b"
  "p_blocklist_segments (armed b p) = p_blocklist_segments p"
  by (simp_all add: armed_def)

lemma build_cases:
  assumes "ProfilerGuardBuilder_build setitimer sigaction pl ce b w = (w', r)"
  obtains
    (creating) "\<And>p. w_profiler (trigger_lazy pl ce w) \<noteq> Some (Inr p)"
      "w' = trigger_lazy pl ce w" "r = Return (Inl CreatingError)"
  | (busy) p where "w_profiler (trigger_lazy pl ce w) = Some (Inr p)" "p_running p"
      "w' = (trigger_lazy pl ce w)\<lparr>w_profiler := Some (Inr (configure pl b p))\<rparr>" "r = Return (Inl Running)"
  | (refused) p os e where "w_profiler (trigger_lazy pl ce w) = Some (Inr p)" "\<not> p_running p"
      "sigaction (w_os w) (clock_signal (b_clock_type b)) (perf_sigaction (pl_cfg pl) (p_on_stack (configure pl b p)))
         = (os, Inl e)"
      "w' = (trigger_lazy pl ce w)\<lparr>w_profiler := Some (Inr (armed b (configure pl b p))), w_os := os\<rparr>"
      "r = Return (Inl (NixError e))"
  | (registered) p os old where "w_profiler (trigger_lazy pl ce w) = Some (Inr p)" "\<not> p_running p"
      "sigaction (w_os w) (clock_signal (b_clock_type b)) (perf_sigaction (pl_cfg pl) (p_on_stack (configure pl b p)))
         = (os, Inr old)"
      "w_profiler w' = Some (Inr ((armed b (configure pl b p))\<lparr>p_old_sigaction := Some old, p_running := True\<rparr>))"
      "w_missed w' = 0" "w_locked w' = w_locked w"
      "(sint (b_frequency b) = 0 \<and> r = Panic DivideByZero \<and> w_os w' = os) \<or>
       (sint (b_frequency b) \<noteq> 0 \<and> (\<exists>t. r = Return (Inr \<lparr>g_timer = Some t\<rparr>) \<and> tm_clock_type t = b_clock_type b \<and>
          tm_frequency t = b_frequency b \<and>
          w_os w' = setitimer os (clock_itimer (b_clock_type b))
            \<lparr>it_interval = freq_interval (b_frequency b), it_value = freq_interval (b_frequency b)\<rparr>))"
proof -
  let ?w = "trigger_lazy pl ce w"
  have os: "w_os ?w = w_os w" "w_locked ?w = w_locked w" by (simp_all add: trigger_lazy_def)
  have self: "?w\<lparr>w_profiler := x, w_os := w_os w\<rparr> = ?w\<lparr>w_profiler := x\<rparr>" for x
    using os by (cases ?w) simp
  consider (no) "\<And>p. w_profiler ?w \<noteq> Some (Inr p)" | (yes) p where "w_profiler ?w = Some (Inr p)" by blast
  then show ?thesis
  proof cases
    case no
    then have "w' = ?w \<and> r = Return (Inl CreatingError)"
      using assms by (cases "w_profiler ?w")
        (auto simp: ProfilerGuardBuilder_build_def Let_def split: sum.splits)
    with no creating show ?thesis by blast
  next
    case (yes p)
    obtain os1 res where sa: "sigaction (w_os w) (clock_signal (b_clock_type b))
        (perf_sigaction (pl_cfg pl) (p_on_stack (configure pl b p))) = (os1, res)" by fastforce
    note defs = ProfilerGuardBuilder_build_def Profiler_start_def register_signal_handler_def Let_def
    show ?thesis
    proof (cases "p_running p")
      case True
      with assms yes os show ?thesis
        by (intro busy [of p]) (auto simp: defs configure_def self)
    next
      case False
      show ?thesis
      proof (cases res)
        case (Inl e)
        with assms yes os sa False show ?thesis
          by (intro refused [of p os1 e]) (simp_all add: defs configure_def armed_def)
      next
        case (Inr old)
        note ok = assms yes os sa False Inr
        show ?thesis
        proof (cases "sint (b_frequency b) = 0")
          case True
          with ok show ?thesis
            by (intro registered [of p os1 old])
               (auto simp: defs configure_def armed_def Timer_with_clock_type_def)
        next
          case False
          with ok show ?thesis
            by (intro registered [of p os1 old])
               (auto simp: defs configure_def armed_def Timer_with_clock_type_eq)
        qed
      qed
    qed
  qed
qed

section \<open>Dropping a guard\<close>

lemma drop_cases:
  assumes "ProfilerGuard_drop setitimer sigaction pl ce \<lparr>g_timer = Some t\<rparr> w = (w', r)"
    and "phase w = Busy ct (Some old)"
  defines "os0 \<equiv> Timer_drop setitimer (w_os w) t"
    and "a \<equiv> if sa_handler old = SigDfl then ignore_sigaction else old"
  obtains
    (refused) os e where "sigaction os0 (clock_signal ct) a = (os, Inl e)"
      "phase w' = Busy ct None" "w_os w' = os" "r = Inl (NixError e)"
  | (no_file) os x e where "sigaction os0 (clock_signal ct) a = (os, Inr x)" "ce_create ce = Some e"
      "phase w' = Busy ct None" "w_os w' = os" "r = Inl (IoError e)"
  | (stopped) os x p data where "sigaction os0 (clock_signal ct) a = (os, Inr x)" "ce_create ce = None"
      "phase w' = Idle" "w_os w' = os" "r = Inr ()" "w_profiler w' = Some (Inr p)" "p_data p = data"
      "Collector_new (pl_buffer_length pl) (UnresolvedFrames_default (ce_now ce)) None = Inr data"
proof -
  obtain p where p: "w_profiler w = Some (Inr p)" "p_running p" "p_clock_type p = ct" "p_old_sigaction p = Some old"
    using assms(2) by (auto simp: phase_def split: option.splits sum.splits if_splits)
  obtain os1 res where sa: "sigaction os0 (clock_signal ct) a = (os1, res)" by fastforce
  note defs = ProfilerGuard_drop_def force_profiler_def Profiler_stop_def unregister_signal_handler_def
    Profiler_init_def Collector_new_def TempFdArray_new_def Let_def phase_def
  show ?thesis
  proof (cases res)
    case (Inl e)
    with p sa assms(1) show ?thesis
      by (intro refused [of os1 e]) (auto simp: defs os0_def a_def)
  next
    case (Inr x)
    show ?thesis
    proof (cases "ce_create ce")
      case None
      with p sa assms(1) Inr show ?thesis
        by (intro stopped [of os1 x]) (auto simp: defs os0_def a_def)
    next
      case (Some e)
      with p sa assms(1) Inr show ?thesis
        by (intro no_file [of os1 x e]) (auto simp: defs os0_def a_def)
    qed
  qed
qed

section \<open>Steps\<close>

type_synonym 'os sys = "'os world \<times> ProfilerGuard list"

inductive prof_step :: "'os setitimer_fn \<Rightarrow> 'os sigaction_fn \<Rightarrow> ('os \<Rightarrow> Signal \<Rightarrow> SigAction) \<Rightarrow> platform
    \<Rightarrow> 'os sys \<Rightarrow> 'os sys \<Rightarrow> bool"
  for setitimer sigaction disp pl where
  build_ok: "\<not> w_locked w \<Longrightarrow>
    ProfilerGuardBuilder_build setitimer sigaction pl ce b w = (w', Return (Inr g)) \<Longrightarrow>
    prof_step setitimer sigaction disp pl (w, gs) (w', g # gs)"
| build_err: "\<not> w_locked w \<Longrightarrow>
    ProfilerGuardBuilder_build setitimer sigaction pl ce b w = (w', Return (Inl e)) \<Longrightarrow>
    prof_step setitimer sigaction disp pl (w, gs) (w', gs)"
| build_panic: "\<not> w_locked w \<Longrightarrow>
    ProfilerGuardBuilder_build setitimer sigaction pl ce b w = (w', Panic x) \<Longrightarrow>
    prof_step setitimer sigaction disp pl (w, gs) (w', gs)"
| drop_guard: "\<not> w_locked w \<Longrightarrow> ProfilerGuard_drop setitimer sigaction pl ce g w = (w', r) \<Longrightarrow>
    prof_step setitimer sigaction disp pl (w, gs1 @ g # gs2) (w', gs1 @ gs2)"
| signal: "is_perf (disp (w_os w) sig) \<Longrightarrow> perf_signal_handler pl env w = Return w' \<Longrightarrow>
    prof_step setitimer sigaction disp pl (w, gs) (w', gs)"
| lock: "\<not> w_locked w \<Longrightarrow> prof_step setitimer sigaction disp pl (w, gs) (w\<lparr>w_locked := True\<rparr>, gs)"
| unlock: "w_locked w \<Longrightarrow> prof_step setitimer sigaction disp pl (w, gs) (w\<lparr>w_locked := False\<rparr>, gs)"

inductive_cases prof_stepE: "prof_step setitimer sigaction disp pl s s'"

definition prof_init :: "('os \<Rightarrow> int \<Rightarrow> int) \<Rightarrow> ('os \<Rightarrow> Signal \<Rightarrow> SigAction) \<Rightarrow> 'os sys \<Rightarrow> bool" where
  "prof_init period disp s \<longleftrightarrow> w_profiler (fst s) = None \<and> snd s = [] \<and>
     (\<forall>sig. \<not> is_perf (disp (w_os (fst s)) sig)) \<and> (\<forall>ct. period (w_os (fst s)) (clock_itimer ct) = 0)"

definition guards_match :: "phase \<Rightarrow> ProfilerGuard list \<Rightarrow> bool" where
  "guards_match ph gs \<longleftrightarrow> gs = [] \<or>
     (\<exists>ct old t. ph = Busy ct (Some old) \<and> gs = [\<lparr>g_timer = Some t\<rparr>] \<and> tm_clock_type t = ct)"

definition prof_inv :: "('os \<Rightarrow> int \<Rightarrow> int) \<Rightarrow> ('os \<Rightarrow> Signal \<Rightarrow> SigAction) \<Rightarrow> 'os sys \<Rightarrow> bool" where
  "prof_inv period disp s \<longleftrightarrow>
     (case s of (w, gs) \<Rightarrow>
        guards_match (phase w) gs \<and>
        (case phase w of
           Idle \<Rightarrow> \<forall>sig. \<not> is_perf (disp (w_os w) sig)
         | Busy ct old \<Rightarrow> (\<forall>sig. sig \<noteq> clock_signal ct \<longrightarrow> \<not> is_perf (disp (w_os w) sig)) \<and>
             (\<forall>a. old = Some a \<longrightarrow> \<not> is_perf a \<and> is_perf (disp (w_os w) (clock_signal ct)))) \<and>
        (\<forall>ct. gs = [] \<or> (\<forall>old. phase w \<noteq> Busy ct old) \<longrightarrow> period (w_os w) (clock_itimer ct) = 0))"

lemma clock_itimer_inj: "clock_itimer a = clock_itimer b \<longleftrightarrow> a = b"
  by (cases a; cases b) (auto simp: ITIMER_REAL_def ITIMER_PROF_def)

lemma prof_inv_cong:
  assumes "phase w' = phase w" and "w_os w' = w_os w"
  shows "prof_inv period disp (w', gs) = prof_inv period disp (w, gs)"
  unfolding prof_inv_def prod.case assms ..

context kernel_laws
begin

lemma build_inv:
  assumes "prof_inv period disp (w, gs)"
    and "ProfilerGuardBuilder_build setitimer sigaction pl ce b w = (w', r)"
  shows "prof_inv period disp (w', (case r of Return (Inr g) \<Rightarrow> g # gs | _ \<Rightarrow> gs))"
  using assms(2)
proof (cases rule: build_cases)
  case creating
  then show ?thesis
    using assms(1) prof_inv_cong [of w' w] by (simp add: trigger_lazy_def)
next
  case (busy p)
  have "phase w' = phase w"
    using busy phase_force [of pl "ce_create ce" "ce_now ce" w]
    by (simp add: trigger_lazy_def phase_def)
  then show ?thesis using assms(1) busy prof_inv_cong [of w' w] by (simp add: trigger_lazy_def)
next
  case (refused p os e)
  have "phase w = Idle" "phase w' = Idle"
    using refused phase_force [of pl "ce_create ce" "ce_now ce" w]
    by (simp_all add: trigger_lazy_def phase_def)
  then show ?thesis
    using assms(1) refused sigaction_err [OF refused(3)] by (simp add: prof_inv_def trigger_lazy_def)
next
  case (registered p os old)
  have ph: "phase w = Idle" "phase w' = Busy (b_clock_type b) (Some old)"
    using registered(1,2,4) phase_force [of pl "ce_create ce" "ce_now ce" w]
    by (simp_all add: trigger_lazy_def phase_def)
  have gs: "gs = []" using assms(1) ph(1) by (auto simp: prof_inv_def guards_match_def)
  note sa = sigaction_ok [OF registered(3)]
  have disp: "disp (w_os w') = (disp (w_os w))(clock_signal (b_clock_type b) :=
      perf_sigaction (pl_cfg pl) (p_on_stack (configure pl b p)))"
    using sa registered(7) setitimer_disp by auto
  have old: "\<not> is_perf old" and idle: "\<forall>sig. \<not> is_perf (disp (w_os w) sig)"
    and zero: "\<forall>ct. period (w_os w) (clock_itimer ct) = 0"
    using assms(1) ph(1) sa by (auto simp: prof_inv_def gs)
  have perf: "is_perf (perf_sigaction (pl_cfg pl) x)" for x by (simp add: is_perf_def perf_sigaction_def)
  have other: "period (w_os w') (clock_itimer ct) = 0" if "ct \<noteq> b_clock_type b" for ct
    using registered(7) that sa zero set_other clock_itimer_inj by auto
  show ?thesis
    using registered(7) ph disp old idle perf other sa zero
    by (auto simp: prof_inv_def gs guards_match_def)
qed

lemma drop_inv:
  assumes "prof_inv period disp (w, gs1 @ g # gs2)"
    and "ProfilerGuard_drop setitimer sigaction pl ce g w = (w', r)"
  shows "prof_inv period disp (w', gs1 @ gs2)"
proof -
  obtain ct old t where ph: "phase w = Busy ct (Some old)" and g: "g = \<lparr>g_timer = Some t\<rparr>" "tm_clock_type t = ct"
    and gs: "gs1 = []" "gs2 = []"
    using assms(1) by (auto simp: prof_inv_def guards_match_def append_eq_Cons_conv)
  let ?os = "Timer_drop setitimer (w_os w) t"
  have disp0: "disp ?os = disp (w_os w)" by (simp add: Timer_drop_def setitimer_disp Let_def)
  have per0: "period ?os (clock_itimer c) = 0" for c
    using Timer_drop_disarms [of "w_os w" t] assms(1) ph g clock_itimer_inj [of c ct]
    by (cases "c = ct") (auto simp: prof_inv_def)
  have inv: "\<forall>sig. sig \<noteq> clock_signal ct \<longrightarrow> \<not> is_perf (disp (w_os w) sig)" "\<not> is_perf old"
    using assms(1) ph by (auto simp: prof_inv_def)
  let ?a = "if sa_handler old = SigDfl then ignore_sigaction else old"
  have a: "\<not> is_perf ?a" using inv(2) by (simp add: is_perf_def ignore_sigaction_def)
  note drop = assms(2) [unfolded g(1)]
  show ?thesis
    using drop ph
  proof (cases rule: drop_cases)
    case (refused os e)
    then show ?thesis
      using sigaction_err [OF refused(1)] disp0 per0 inv by (simp add: prof_inv_def gs guards_match_def)
  next
    case (no_file os x e)
    then show ?thesis
      using sigaction_ok [OF no_file(1)] disp0 per0 inv by (simp add: prof_inv_def gs guards_match_def)
  next
    case (stopped os x p data)
    then show ?thesis
      using sigaction_ok [OF stopped(1)] disp0 per0 inv a by (auto simp: prof_inv_def gs guards_match_def)
  qed
qed

lemma step_inv:
  assumes "prof_step setitimer sigaction disp pl s s'" and "prof_inv period disp s"
  shows "prof_inv period disp s'"
  using assms
proof (induction rule: prof_step.induct)
  case (build_ok w ce b w' g gs)
  then show ?case using build_inv [of w gs pl ce b w' "Return (Inr g)"] by simp
next
  case (build_err w ce b w' e gs)
  then show ?case using build_inv [of w gs pl ce b w' "Return (Inl e)"] by simp
next
  case (build_panic w ce b w' x gs)
  then show ?case using build_inv [of w gs pl ce b w' "Panic x"] by simp
next
  case (drop_guard w ce g w' r gs1 gs2)
  then show ?case using drop_inv by blast
next
  case (signal w sig env w' gs)
  then show ?case using perf_signal_handler_phase [OF signal(2)] prof_inv_cong [of w' w] by simp
next
  case (lock w gs)
  have "phase (w\<lparr>w_locked := True\<rparr>) = phase w" by (simp add: phase_def)
  then show ?case using lock prof_inv_cong [of "w\<lparr>w_locked := True\<rparr>" w] by simp
next
  case (unlock w gs)
  have "phase (w\<lparr>w_locked := False\<rparr>) = phase w" by (simp add: phase_def)
  then show ?case using unlock prof_inv_cong [of "w\<lparr>w_locked := False\<rparr>" w] by simp
qed

lemma reachable_inv:
  assumes "prof_init period disp s0" and "(prof_step setitimer sigaction disp pl)\<^sup>*\<^sup>* s0 s"
  shows "prof_inv period disp s"
  using assms(2)
proof (induction rule: rtranclp_induct)
  case base
  then show ?case using assms(1) by (cases s0) (auto simp: prof_inv_def prof_init_def phase_def guards_match_def)
qed (rule step_inv)

end

section \<open>Properties\<close>

text \<open>
  C9. The profiler is exclusive and cleans up. In every state that building guards (successfully or not),
  dropping them, signals and locking can reach, on any kernel that keeps what \<^verbatim>\<open>setitimer(2)\<close> and \<^verbatim>\<open>sigaction(2)\<close> document:
  at most one guard is alive; while one is alive the profiler is running, the handler is installed
  for the signal of its clock and the action to restore is remembered; the handler is never installed
  for the other signal, nor for any signal while the profiler is not running; and without a guard
  both timers are disarmed.
\<close>

theorem profiler_invariant:
  assumes "kernel_laws setitimer period sigaction disp" and "prof_init period disp s0"
    and "(prof_step setitimer sigaction disp pl)\<^sup>*\<^sup>* s0 (w, gs)"
  shows "length gs \<le> 1 \<and>
    (gs \<noteq> [] \<longrightarrow> (\<exists>p. w_profiler w = Some (Inr p) \<and> p_running p \<and> p_old_sigaction p \<noteq> None \<and>
        is_perf (disp (w_os w) (clock_signal (p_clock_type p))))) \<and>
    (\<forall>sig. is_perf (disp (w_os w) sig) \<longrightarrow>
       (\<exists>p. w_profiler w = Some (Inr p) \<and> p_running p \<and> sig = clock_signal (p_clock_type p))) \<and>
    (gs = [] \<longrightarrow> period (w_os w) ITIMER_PROF = 0 \<and> period (w_os w) ITIMER_REAL = 0)"
proof -
  have inv: "prof_inv period disp (w, gs)" by (rule kernel_laws.reachable_inv [OF assms])
  have busy: "\<exists>p. w_profiler w = Some (Inr p) \<and> p_running p \<and> p_clock_type p = ct \<and> p_old_sigaction p = old"
    if "phase w = Busy ct old" for ct old
    using that by (auto simp: phase_def split: option.splits sum.splits if_splits)
  have zero: "period (w_os w) (clock_itimer ct) = 0" if "gs = []" for ct using inv that by (simp add: prof_inv_def)
  show ?thesis
  proof (cases "phase w")
    case Idle
    then show ?thesis using inv zero [of Cpu] zero [of Wall] by (auto simp: prof_inv_def guards_match_def)
  next
    case (Busy ct old)
    then obtain p where "w_profiler w = Some (Inr p)" "p_running p" "p_clock_type p = ct" "p_old_sigaction p = old"
      using busy by blast
    with Busy inv show ?thesis
      using zero [of Cpu] zero [of Wall] by (auto simp: prof_inv_def guards_match_def)
  qed
qed

definition sim_start :: "sim_kernel world" where
  "sim_start =
     \<lparr>w_profiler = None, w_locked = False, w_missed = 7, w_errno = 0,
      w_os = \<lparr>sk_timers = sim_idle, sk_actions = (\<lambda>_. \<lparr>sa_handler = SigDfl, sa_flags = {}, sa_mask = {}\<rparr>),
              sk_fail = None\<rparr>\<rparr>"

definition sim_call :: call_env where
  "sim_call = \<lparr>ce_create = None, ce_now = 0, ce_instant = 0\<rparr>"

lemma sim_start_init: "prof_init sk_period sk_actions (sim_start, [])"
  by (simp add: prof_init_def sim_start_def is_perf_def sk_period_def sim_period_def sim_idle_def timeval_micros_def)

lemma sim_build:
  "\<exists>w g. ProfilerGuard_new sk_setitimer sk_sigaction (sim_platform default_config) sim_call 99 sim_start =
     (w, Return (Inr g)) \<and> \<not> w_locked w"
  by (auto simp: ProfilerGuard_new_def ProfilerGuardBuilder_build_def ProfilerGuardBuilder_default_def
      ProfilerGuardBuilder_frequency_def trigger_lazy_def force_profiler_def sim_start_def sim_call_def
      Profiler_new_def Collector_new_def TempFdArray_new_def Profiler_start_def register_signal_handler_def
      sk_sigaction_def Timer_with_clock_type_eq Let_def)

theorem profiler_invariant_witness:
  "\<exists>w g. ProfilerGuard_new sk_setitimer sk_sigaction (sim_platform default_config) sim_call 99 sim_start =
       (w, Return (Inr g)) \<and>
     (\<exists>p. w_profiler w = Some (Inr p) \<and> p_running p \<and> is_perf (sk_actions (w_os w) (clock_signal (p_clock_type p))))"
proof -
  obtain w g where b: "ProfilerGuard_new sk_setitimer sk_sigaction (sim_platform default_config) sim_call 99 sim_start =
      (w, Return (Inr g))" using sim_build by blast
  have "prof_step sk_setitimer sk_sigaction sk_actions (sim_platform default_config) (sim_start, []) (w, [g])"
    using b by (intro prof_step.build_ok) (auto simp: ProfilerGuard_new_def sim_start_def)
  then have "(prof_step sk_setitimer sk_sigaction sk_actions (sim_platform default_config))\<^sup>*\<^sup>* (sim_start, []) (w, [g])"
    by blast
  from profiler_invariant [OF sim_kernel.kernel_laws_axioms sim_start_init this] b show ?thesis by blast
qed

section \<open>Stopping and starting again\<close>

lemma signals_run_phase:
  "signals_run pl w ds = Return w' \<Longrightarrow> phase w' = phase w \<and> w_os w' = w_os w"
proof (induction ds arbitrary: w)
  case (Cons d ds)
  then obtain w1 where 1: "perf_signal_handler pl (fst d) (w\<lparr>w_locked := snd d\<rparr>) = Return w1"
    "signals_run pl w1 ds = Return w'" by (auto simp: obind_Return_iff)
  from Cons.IH [OF 1(2)] perf_signal_handler_phase [OF 1(1)] show ?case by (simp add: phase_def)
qed simp

lemma Collector_new_fresh:
  assumes "platform_ok pl" and "- (2 ^ 63) \<le> now" and "now < 2 ^ 63"
    and "Collector_new (pl_buffer_length pl) (UnresolvedFrames_default now) None = Inr data"
  shows "data_wf pl data \<and> Collector_items (pl_layout pl) data = []"
proof (rule Profiler_new_ok [OF assms(1-3)])
  fix p
  assume p: "Profiler_new pl None now = Inr p" "data_wf pl (p_data p)" "Collector_items (pl_layout pl) (p_data p) = []"
  moreover have "p_data p = data" using p(1) assms(4) by (auto simp: Profiler_new_def)
  ultimately show ?thesis by simp
qed

lemma build_Inr:
  assumes "ProfilerGuardBuilder_build setitimer sigaction pl ce b w = (w', Return (Inr g))"
  obtains p os old t where "\<not> p_running p" "g = \<lparr>g_timer = Some t\<rparr>" "tm_clock_type t = b_clock_type b"
    "sigaction (w_os w) (clock_signal (b_clock_type b)) (perf_sigaction (pl_cfg pl) (p_on_stack (configure pl b p)))
       = (os, Inr old)"
    "w_os w' = setitimer os (clock_itimer (b_clock_type b))
       \<lparr>it_interval = freq_interval (b_frequency b), it_value = freq_interval (b_frequency b)\<rparr>"
    "phase w' = Busy (b_clock_type b) (Some old)" "w_missed w' = 0"
  using assms
proof (cases rule: build_cases)
  case (registered p os old)
  then have "phase w' = Busy (b_clock_type b) (Some old)" by (simp add: phase_def)
  with registered that [of p] show ?thesis by auto
qed auto

lemma drop_restores:
  assumes "kernel_laws setitimer period sigaction disp" and "platform_ok pl"
    and "- (2 ^ 63) \<le> ce_now ce'" and "ce_now ce' < 2 ^ 63"
    and "ProfilerGuardBuilder_build setitimer sigaction pl ce b w = (w1, Return (Inr g))"
    and "signals_run pl w1 ds = Return w2"
    and "ProfilerGuard_drop setitimer sigaction pl ce' g w2 = (w3, Inr ())"
  shows "(let sig = clock_signal (b_clock_type b); old = disp (w_os w) sig
      in disp (w_os w3) = (disp (w_os w))(sig := if sa_handler old = SigDfl then ignore_sigaction else old)) \<and>
    (\<forall>t. period (w_os w3) t = (if t = clock_itimer (b_clock_type b) then 0 else period (w_os w) t)) \<and>
    (\<exists>p. w_profiler w3 = Some (Inr p) \<and> \<not> p_running p \<and> data_wf pl (p_data p) \<and>
         Collector_items (pl_layout pl) (p_data p) = []) \<and>
    snd (ProfilerGuardBuilder_build setitimer sigaction pl ce'' b' w3) \<notin> {Return (Inl Running), Return (Inl CreatingError)}"
proof -
  note laws = assms(1)
  note sa_ok = kernel_laws.sigaction_ok [OF laws]
  have timer: "itimer_os setitimer period" using laws by (simp add: kernel_laws_def)
  obtain p os old t where b: "g = \<lparr>g_timer = Some t\<rparr>" "tm_clock_type t = b_clock_type b"
    "sigaction (w_os w) (clock_signal (b_clock_type b)) (perf_sigaction (pl_cfg pl) (p_on_stack (configure pl b p)))
       = (os, Inr old)"
    "w_os w1 = setitimer os (clock_itimer (b_clock_type b))
       \<lparr>it_interval = freq_interval (b_frequency b), it_value = freq_interval (b_frequency b)\<rparr>"
    "phase w1 = Busy (b_clock_type b) (Some old)"
    using assms(5) by (rule build_Inr)
  have w2: "phase w2 = Busy (b_clock_type b) (Some old)" "w_os w2 = w_os w1"
    using signals_run_phase [OF assms(6)] b(5) by simp_all
  let ?a = "if sa_handler old = SigDfl then ignore_sigaction else old"
  obtain os' x p' where d: "sigaction (Timer_drop setitimer (w_os w2) t) (clock_signal (b_clock_type b)) ?a = (os', Inr x)"
    "phase w3 = Idle" "w_os w3 = os'" "w_profiler w3 = Some (Inr p')"
    "Collector_new (pl_buffer_length pl) (UnresolvedFrames_default (ce_now ce')) None = Inr (p_data p')"
    using assms(7) [unfolded b(1)] w2(1) by (cases rule: drop_cases) auto
  have stop: "\<not> p_running p'" using d(2,4) by (simp add: phase_def split: if_splits)
  have old: "old = disp (w_os w) (clock_signal (b_clock_type b))" using sa_ok [OF b(3)] by simp
  have disp: "disp (w_os w3) = (disp (w_os w))(clock_signal (b_clock_type b) := ?a)"
    using sa_ok [OF d(1)] sa_ok [OF b(3)] w2(2) b(4) kernel_laws.setitimer_disp [OF laws] d(3)
    by (simp add: Timer_drop_def Let_def)
  have per: "period (w_os w3) t' = (if t' = clock_itimer (b_clock_type b) then 0 else period (w_os w) t')" for t'
    using sa_ok [OF d(1)] sa_ok [OF b(3)] w2(2) b(2,4) d(3) itimer_os.Timer_drop_disarms [OF timer, of "w_os w2" t]
      itimer_os.set_other [OF timer] by simp
  have fresh: "data_wf pl (p_data p') \<and> Collector_items (pl_layout pl) (p_data p') = []"
    by (rule Collector_new_fresh [OF assms(2-4) d(5)])
  have "snd (ProfilerGuardBuilder_build setitimer sigaction pl ce'' b' w3) \<notin> {Return (Inl Running), Return (Inl CreatingError)}"
  proof -
    obtain w4 r where r: "ProfilerGuardBuilder_build setitimer sigaction pl ce'' b' w3 = (w4, r)" by fastforce
    have lazy: "trigger_lazy pl ce'' w3 = w3" using d(4) by (simp add: trigger_lazy_def force_profiler_def)
    show ?thesis using r
      by (cases rule: build_cases) (use d(4) stop lazy r in auto)
  qed
  with disp per fresh d(4) stop old show ?thesis by (simp add: Let_def)
qed

text \<open>
  C10. A profile leaves no trace. From the state before \<^verbatim>\<open>build\<close> returns a guard, over any run of the signal
  handler, to the state after the guard is dropped and \<^verbatim>\<open>stop\<close> succeeds: the action of the profiled signal
  is the one from before, except that the default action (which would kill the process on a late
  signal) is replaced by ignoring the signal; the other signal's action and the other timer are as before, the clock's timer
  is disarmed; the profiler is not running and its collector is empty. Building a guard again is then not
  refused as \<^verbatim>\<open>Running\<close> nor as \<^verbatim>\<open>CreatingError\<close>.
\<close>

theorem start_stop_restores:
  assumes "kernel_laws setitimer period sigaction disp" and "platform_ok pl"
    and "- (2 ^ 63) \<le> ce_now ce'" and "ce_now ce' < 2 ^ 63"
    and "ProfilerGuardBuilder_build setitimer sigaction pl ce b w = (w1, Return (Inr g))"
    and "signals_run pl w1 ds = Return w2"
    and "ProfilerGuard_drop setitimer sigaction pl ce' g w2 = (w3, Inr ())"
  shows "(let sig = clock_signal (b_clock_type b); old = disp (w_os w) sig
      in disp (w_os w3) = (disp (w_os w))(sig := if sa_handler old = SigDfl then ignore_sigaction else old)) \<and>
    (\<forall>t. period (w_os w3) t = (if t = clock_itimer (b_clock_type b) then 0 else period (w_os w) t)) \<and>
    (\<exists>p. w_profiler w3 = Some (Inr p) \<and> \<not> p_running p \<and> data_wf pl (p_data p) \<and>
         Collector_items (pl_layout pl) (p_data p) = []) \<and>
    snd (ProfilerGuardBuilder_build setitimer sigaction pl ce'' b' w3) \<notin> {Return (Inl Running), Return (Inl CreatingError)}"
  by (rule drop_restores [OF assms])

theorem start_stop_restores_witness:
  "\<exists>w1 g w3. ProfilerGuard_new sk_setitimer sk_sigaction (sim_platform default_config) sim_call 99 sim_start =
       (w1, Return (Inr g)) \<and>
     ProfilerGuard_drop sk_setitimer sk_sigaction (sim_platform default_config) sim_call g w1 = (w3, Inr ()) \<and>
     sk_actions (w_os w3) SIGPROF = ignore_sigaction"
proof -
  let ?pl = "sim_platform default_config"
  obtain w1 g where b: "ProfilerGuard_new sk_setitimer sk_sigaction ?pl sim_call 99 sim_start = (w1, Return (Inr g))"
    using sim_build by blast
  let ?b = "ProfilerGuardBuilder_frequency 99 ProfilerGuardBuilder_default"
  have b': "ProfilerGuardBuilder_build sk_setitimer sk_sigaction ?pl sim_call ?b sim_start = (w1, Return (Inr g))"
    using b by (simp add: ProfilerGuard_new_def)
  obtain w3 r where d: "ProfilerGuard_drop sk_setitimer sk_sigaction ?pl sim_call g w1 = (w3, r)" by fastforce
  obtain p os old t where B: "g = \<lparr>g_timer = Some t\<rparr>"
    "sk_sigaction (w_os sim_start) (clock_signal (b_clock_type ?b)) (perf_sigaction (pl_cfg ?pl) (p_on_stack (configure ?pl ?b p)))
       = (os, Inr old)"
    "w_os w1 = sk_setitimer os (clock_itimer (b_clock_type ?b))
       \<lparr>it_interval = freq_interval (b_frequency ?b), it_value = freq_interval (b_frequency ?b)\<rparr>"
    "phase w1 = Busy (b_clock_type ?b) (Some old)"
    by (rule build_Inr [OF b'])
  have fail: "sk_fail (Timer_drop sk_setitimer (w_os w1) t) = None"
    using B(2,3) by (auto simp: Timer_drop_def sk_setitimer_def sk_sigaction_def sim_start_def Let_def)
  have "r = Inr ()"
    using d [unfolded B(1)] B(4)
    by (cases rule: drop_cases) (use fail in \<open>auto simp: sk_sigaction_def sim_call_def\<close>)
  with start_stop_restores [OF sim_kernel.kernel_laws_axioms sim_platform_ok _ _ b', of sim_call "[]" w1 w3] d b
  show ?thesis
    by (simp add: sim_call_def ProfilerGuardBuilder_frequency_def ProfilerGuardBuilder_default_def sim_start_def Let_def)
qed

text \<open>
  C30. What a refused \<^verbatim>\<open>build\<close> changes. While the profiler is running \<^verbatim>\<open>build\<close> returns \<^verbatim>\<open>Err(Running)\<close> and touches
  neither the samples, nor the counter of missed samples, nor the kernel; but it has already put its own list of
  blocked segments into the running profiler, so that whether an address is blocked now follows the refused
  builder.
\<close>

theorem refused_build_replaces_blocklist:
  assumes "w_profiler w = Some (Inr p)" and "p_running p"
  shows "\<exists>p'. ProfilerGuardBuilder_build setitimer sigaction pl ce b w =
      (w\<lparr>w_profiler := Some (Inr p')\<rparr>, Return (Inl Running)) \<and>
    p_data p' = p_data p \<and> p_running p' \<and> p_clock_type p' = p_clock_type p \<and>
    p_old_sigaction p' = p_old_sigaction p \<and> p_thread_blocklist p' = p_thread_blocklist p \<and>
    (\<forall>addr. is_blocklisted p' addr \<longleftrightarrow> is_blocklisted (p\<lparr>p_blocklist_segments := b_blocklist_segments b\<rparr>) addr)"
proof -
  obtain w' r where r: "ProfilerGuardBuilder_build setitimer sigaction pl ce b w = (w', r)" by fastforce
  have lazy: "trigger_lazy pl ce w = w" using assms(1) by (simp add: trigger_lazy_def force_profiler_def)
  have "w' = w\<lparr>w_profiler := Some (Inr (configure pl b p))\<rparr> \<and> r = Return (Inl Running)"
    using r by (cases rule: build_cases) (use assms lazy in auto)
  with r assms show ?thesis
    by (intro exI [of _ "configure pl b p"]) (simp add: configure_def is_blocklisted_def)
qed

lemma sim_build_running:
  obtains w p g where "ProfilerGuard_new sk_setitimer sk_sigaction (sim_platform default_config) sim_call 99 sim_start =
      (w, Return (Inr g))" and "w_profiler w = Some (Inr p)" and "p_running p"
proof -
  obtain w g where b: "ProfilerGuard_new sk_setitimer sk_sigaction (sim_platform default_config) sim_call 99 sim_start =
      (w, Return (Inr g))" using sim_build by blast
  have "phase w \<noteq> Idle" using b unfolding ProfilerGuard_new_def by (rule build_Inr) simp
  then show ?thesis using that [OF b] by (auto simp: phase_def split: option.splits sum.splits if_splits)
qed

theorem refused_build_replaces_blocklist_witness:
  "\<exists>w g p'. ProfilerGuard_new sk_setitimer sk_sigaction (sim_platform default_config) sim_call 99 sim_start =
       (w, Return (Inr g)) \<and>
     ProfilerGuardBuilder_build sk_setitimer sk_sigaction (sim_platform default_config) sim_call
       (ProfilerGuardBuilder_default\<lparr>b_blocklist_segments := [(10, 20)]\<rparr>) w =
       (w\<lparr>w_profiler := Some (Inr p')\<rparr>, Return (Inl Running)) \<and> is_blocklisted p' 15"
proof (rule sim_build_running)
  fix w g p
  assume b: "ProfilerGuard_new sk_setitimer sk_sigaction (sim_platform default_config) sim_call 99 sim_start =
      (w, Return (Inr g))" and p: "w_profiler w = Some (Inr p)" "p_running p"
  have "is_blocklisted (p\<lparr>p_blocklist_segments := b_blocklist_segments
      (ProfilerGuardBuilder_default\<lparr>b_blocklist_segments := [(10, 20)]\<rparr>)\<rparr>) 15"
    by (simp add: is_blocklisted_def)
  with b refused_build_replaces_blocklist [OF p, of sk_setitimer sk_sigaction "sim_platform default_config" sim_call
      "ProfilerGuardBuilder_default\<lparr>b_blocklist_segments := [(10, 20)]\<rparr>"]
  show ?thesis by blast
qed

section \<open>Being stuck\<close>

definition stuck :: "'os sys \<Rightarrow> bool" where
  "stuck s \<longleftrightarrow> snd s = [] \<and> phase (fst s) \<noteq> Idle"

lemma busy_build:
  assumes "ProfilerGuardBuilder_build setitimer sigaction pl ce b w = (w', r)" and "phase w \<noteq> Idle"
  shows "r = Return (Inl Running) \<and> phase w' = phase w"
proof -
  obtain p where p: "w_profiler w = Some (Inr p)" "p_running p"
    using assms(2) by (auto simp: phase_def split: option.splits sum.splits if_splits)
  have lazy: "trigger_lazy pl ce w = w" using p(1) by (simp add: trigger_lazy_def force_profiler_def)
  show ?thesis using assms(1)
    by (cases rule: build_cases) (use p lazy in \<open>auto simp: phase_def\<close>)
qed

lemma stuck_step:
  assumes "prof_step setitimer sigaction disp pl s s'" and "stuck s"
  shows "stuck s'"
  using assms
proof (induction rule: prof_step.induct)
  case (signal w sig env w' gs)
  then show ?case using perf_signal_handler_phase [OF signal(2)] by (simp add: stuck_def)
qed (auto simp: stuck_def phase_def dest: busy_build)

text \<open>
  C29. Two failures make the profiler unusable for the rest of the process. If \<^verbatim>\<open>build\<close> panics (frequency 0), or if
  \<^verbatim>\<open>stop\<close> fails while the guard is dropped (the signal action cannot be set, or no new temporary file can be created),
  the profiler stays running without a guard: in every state reachable afterwards there is no guard and every
  \<^verbatim>\<open>build\<close> returns \<^verbatim>\<open>Err(Running)\<close>.
\<close>

theorem failed_stop_is_permanent:
  assumes "ProfilerGuardBuilder_build setitimer sigaction pl ce b w = (w1, Panic x) \<or>
      (phase w = Busy ct (Some old) \<and>
       ProfilerGuard_drop setitimer sigaction pl ce \<lparr>g_timer = Some t\<rparr> w = (w1, Inl e))"
    and "(prof_step setitimer sigaction disp pl)\<^sup>*\<^sup>* (w1, []) (w2, gs)"
  shows "gs = [] \<and> snd (ProfilerGuardBuilder_build setitimer sigaction pl ce' b' w2) = Return (Inl Running)"
proof -
  have "phase w1 \<noteq> Idle"
    using assms(1)
  proof
    assume "ProfilerGuardBuilder_build setitimer sigaction pl ce b w = (w1, Panic x)"
    then show ?thesis by (cases rule: build_cases) (auto simp: phase_def)
  next
    assume d: "phase w = Busy ct (Some old) \<and>
      ProfilerGuard_drop setitimer sigaction pl ce \<lparr>g_timer = Some t\<rparr> w = (w1, Inl e)"
    from conjunct2 [OF d] conjunct1 [OF d] show ?thesis by (cases rule: drop_cases) auto
  qed
  then have "stuck (w1, [])" by (simp add: stuck_def)
  with assms(2) have "stuck (w2, gs)" by (induction rule: rtranclp_induct) (auto intro: stuck_step)
  then show ?thesis using busy_build [of setitimer sigaction pl ce' b' w2] by (cases "ProfilerGuardBuilder_build setitimer sigaction pl ce' b' w2") (auto simp: stuck_def)
qed

theorem failed_stop_is_permanent_witness:
  "\<exists>w1. ProfilerGuard_new sk_setitimer sk_sigaction (sim_platform default_config) sim_call 0 sim_start =
       (w1, Panic DivideByZero) \<and>
     snd (ProfilerGuard_new sk_setitimer sk_sigaction (sim_platform default_config) sim_call 99 w1) =
       Return (Inl Running)"
proof -
  let ?pl = "sim_platform default_config"
  obtain w1 where w1: "ProfilerGuard_new sk_setitimer sk_sigaction ?pl sim_call 0 sim_start = (w1, Panic DivideByZero)"
    by (auto simp: ProfilerGuard_new_def ProfilerGuardBuilder_build_def ProfilerGuardBuilder_default_def
        ProfilerGuardBuilder_frequency_def trigger_lazy_def force_profiler_def sim_start_def sim_call_def
        Profiler_new_def Collector_new_def TempFdArray_new_def Profiler_start_def register_signal_handler_def
        sk_sigaction_def Timer_with_clock_type_def Let_def)
  have "snd (ProfilerGuard_new sk_setitimer sk_sigaction ?pl sim_call 99 w1) = Return (Inl Running)"
    using failed_stop_is_permanent [OF disjI1 [OF w1 [unfolded ProfilerGuard_new_def]] rtranclp.rtrancl_refl]
    by (simp add: ProfilerGuard_new_def)
  with w1 show ?thesis by blast
qed

end
