(* ===== verification/Api.thy ===== *)
theory Api
  imports Report_Formats Profiler_States Pprof
begin

text \<open>
  The convenience functions of \<^verbatim>\<open>src/src/lib.rs\<close> and the Criterion integration of \<^verbatim>\<open>src/src/criterion.rs\<close>, both of which drive a
  whole profile: build a guard, let the program run, build the report, drop the guard. The deliveries of the signal
  while the caller sleeps are an argument; \<open>ce\<close> is what \<^verbatim>\<open>build\<close> sees of the environment, \<open>ce'\<close> what the end of the
  profile does.
\<close>

section \<open>Profiles of a fixed duration\<close>

definition run_profile ::
  "'os setitimer_fn \<Rightarrow> 'os sigaction_fn \<Rightarrow> platform \<Rightarrow> symbolizer \<Rightarrow> call_env \<Rightarrow> call_env \<Rightarrow> read_res
     \<Rightarrow> (signal_env \<times> bool) list \<Rightarrow> ProfilerGuardBuilder \<Rightarrow> 'os world \<Rightarrow> 'os world \<times> Report Result outcome" where
  "run_profile setitimer sigaction pl sy ce ce' io ds b w =
     (case ProfilerGuardBuilder_build setitimer sigaction pl ce b w of
        (w, Panic e) \<Rightarrow> (w, Panic e)
      | (w, Return (Inl e)) \<Rightarrow> (w, Return (Inl e))
      | (w, Return (Inr guard)) \<Rightarrow>
          (case signals_run pl w ds of
             Panic e \<Rightarrow> (w, Panic e)
           | Return w \<Rightarrow>
               (let result = build_report pl sy io w (ProfilerGuard_report guard (ce_instant ce'))
                in (fst (ProfilerGuard_drop setitimer sigaction pl ce' guard w), Return result))))"

definition profile_with_frequency ::
  "'os setitimer_fn \<Rightarrow> 'os sigaction_fn \<Rightarrow> platform \<Rightarrow> symbolizer \<Rightarrow> call_env \<Rightarrow> call_env \<Rightarrow> read_res
     \<Rightarrow> (signal_env \<times> bool) list \<Rightarrow> i32 \<Rightarrow> 'os world \<Rightarrow> 'os world \<times> Report Result outcome" where
  "profile_with_frequency setitimer sigaction pl sy ce ce' io ds frequency =
     run_profile setitimer sigaction pl sy ce ce' io ds
       (ProfilerGuardBuilder_frequency frequency ProfilerGuardBuilder_default)"

definition profile ::
  "'os setitimer_fn \<Rightarrow> 'os sigaction_fn \<Rightarrow> platform \<Rightarrow> symbolizer \<Rightarrow> call_env \<Rightarrow> call_env \<Rightarrow> read_res
     \<Rightarrow> (signal_env \<times> bool) list \<Rightarrow> 'os world \<Rightarrow> 'os world \<times> Report Result outcome" where
  "profile setitimer sigaction pl sy ce ce' io ds = profile_with_frequency setitimer sigaction pl sy ce ce' io ds 99"

definition profile_wall ::
  "'os setitimer_fn \<Rightarrow> 'os sigaction_fn \<Rightarrow> platform \<Rightarrow> symbolizer \<Rightarrow> call_env \<Rightarrow> call_env \<Rightarrow> read_res
     \<Rightarrow> (signal_env \<times> bool) list \<Rightarrow> 'os world \<Rightarrow> 'os world \<times> Report Result outcome" where
  "profile_wall setitimer sigaction pl sy ce ce' io ds =
     run_profile setitimer sigaction pl sy ce ce' io ds
       (ProfilerGuardBuilder_clock_type Wall (ProfilerGuardBuilder_frequency 99 ProfilerGuardBuilder_default))"

section \<open>Complete profiles\<close>

text \<open>
  \<open>ready\<close>: no profiler yet, or one that is not running and holds no samples. \<open>profile_complete\<close>: the call returned a report in
  which every delivery that got the lock is a sample and every other one is counted as missed, the profiler is ready for
  the next profile, and the kernel is as it was before, up to ignoring a signal whose action was the default.
\<close>

definition ready :: "platform \<Rightarrow> 'os world \<Rightarrow> bool" where
  "ready pl w \<longleftrightarrow> w_profiler w = None \<or> (\<exists>p. w_profiler w = Some (Inr p) \<and> \<not> p_running p \<and> fresh pl p)"

definition call_ok :: "call_env \<Rightarrow> bool" where
  "call_ok ce \<longleftrightarrow> ce_create ce = None \<and> - (2 ^ 63) \<le> ce_now ce \<and> ce_now ce < 2 ^ 63"

definition profile_complete ::
  "platform \<Rightarrow> ('os \<Rightarrow> int \<Rightarrow> int) \<Rightarrow> ('os \<Rightarrow> Signal \<Rightarrow> SigAction) \<Rightarrow> ClockType \<Rightarrow> i32 \<Rightarrow> (signal_env \<times> bool) list
     \<Rightarrow> 'os world \<Rightarrow> 'os world \<times> Report Result outcome \<Rightarrow> bool" where
  "profile_complete pl period disp ct frequency ds w res \<longleftrightarrow>
     (\<exists>w' r. res = (w', Return (Inr r)) \<and>
        unat (Report_total_samples r) = length (filter (\<lambda>d. \<not> snd d) ds) \<and>
        r_missed_samples r = of_nat (length (filter snd ds)) \<and>
        rt_clock_type (r_timing r) = ct \<and> rt_frequency (r_timing r) = frequency \<and> ready pl w' \<and>
        (let sig = clock_signal ct; old = disp (w_os w) sig
         in disp (w_os w') = (disp (w_os w))(sig := if sa_handler old = SigDfl then ignore_sigaction else old)) \<and>
        (\<forall>t. period (w_os w') t = (if t = clock_itimer ct then 0 else period (w_os w) t)))"

lemma ready_force:
  assumes "platform_ok pl" "call_ok ce" "ready pl w"
  obtains p where "w_profiler (trigger_lazy pl ce w) = Some (Inr p)" "\<not> p_running p" "fresh pl p"
proof (cases "w_profiler w")
  case None
  have now: "- (2 ^ 63) \<le> ce_now ce" "ce_now ce < 2 ^ 63" and create: "ce_create ce = None"
    using assms(2) by (simp_all add: call_ok_def)
  obtain p where p: "Profiler_new pl None (ce_now ce) = Inr p" "data_wf pl (p_data p)"
      "Collector_items (pl_layout pl) (p_data p) = []"
      "p = \<lparr>p_data = p_data p, p_sample_counter = 0, p_old_sigaction = None, p_running = False,
        p_clock_type = Cpu, p_thread_blocklist = [], p_on_stack = False, p_blocklist_segments = []\<rparr>"
    by (rule Profiler_new_ok [OF assms(1) now])
  have "\<not> p_running p" by (subst p(4)) simp
  then show ?thesis
    using p(1-3) None create by (intro that [of p]) (simp_all add: trigger_lazy_def force_profiler_def fresh_def)
next
  case (Some r)
  then show ?thesis
    using assms(3) that by (auto simp: ready_def trigger_lazy_def force_profiler_def)
qed

lemma build_ready:
  assumes "platform_ok pl" "call_ok ce" "ready pl w" "\<forall>os sig a. \<not> isl (snd (sigaction os sig a))"
    and "sint (b_frequency b) \<noteq> 0"
  obtains w1 t p where
    "ProfilerGuardBuilder_build setitimer sigaction pl ce b w = (w1, Return (Inr \<lparr>g_timer = Some t\<rparr>))"
    "tm_clock_type t = b_clock_type b" "tm_frequency t = b_frequency b" "w_missed w1 = 0"
    "w_profiler w1 = Some (Inr p)" "fresh pl p" "p_thread_blocklist p = b_thread_blocklist b"
    "p_blocklist_segments p = b_blocklist_segments b"
proof -
  obtain p where p: "w_profiler (trigger_lazy pl ce w) = Some (Inr p)" "\<not> p_running p" "fresh pl p"
    by (rule ready_force [OF assms(1-3)])
  obtain w1 r where build: "ProfilerGuardBuilder_build setitimer sigaction pl ce b w = (w1, r)" by fastforce
  then show ?thesis
  proof (cases rule: build_cases)
    case (refused p' os e)
    with assms(4) show ?thesis by (metis isl_def snd_conv)
  next
    case (registered p' os old)
    with p have p': "p' = p" by simp
    have data: "fresh pl ((armed b (configure pl b p))\<lparr>p_old_sigaction := Some old, p_running := True\<rparr>)"
      using p(3) by (simp add: fresh_def)
    from registered(7) assms(5) obtain t where "r = Return (Inr \<lparr>g_timer = Some t\<rparr>)" "tm_clock_type t = b_clock_type b"
      "tm_frequency t = b_frequency b" by auto
    with registered(4,5) build data p' show ?thesis
      by (intro that [of w1 t "(armed b (configure pl b p))\<lparr>p_old_sigaction := Some old, p_running := True\<rparr>"]) simp_all
  qed (use p in auto)
qed

lemma drop_ready:
  assumes "\<forall>os sig a. \<not> isl (snd (sigaction os sig a))" "ce_create ce = None" "phase w = Busy ct (Some old)"
  obtains w' where "ProfilerGuard_drop setitimer sigaction pl ce \<lparr>g_timer = Some t\<rparr> w = (w', Inr ())"
proof -
  obtain w' r where drop: "ProfilerGuard_drop setitimer sigaction pl ce \<lparr>g_timer = Some t\<rparr> w = (w', r)" by fastforce
  from drop assms(3) show ?thesis
  proof (cases rule: drop_cases)
    case (refused os e)
    with assms(1) show ?thesis by (metis isl_def snd_conv)
  qed (use that drop assms(2) in auto)
qed

lemma recorded_unfiltered:
  assumes "p_thread_blocklist p = []" "p_blocklist_segments p = []"
  shows "length (recorded pl p ds) = length (filter (\<lambda>d. \<not> snd d) ds)"
proof -
  have "\<not> env_blocked p env name" for env name
    using assms by (simp add: env_blocked_def is_thread_blocklisted_def is_blocklisted_def)
  then show ?thesis by (simp add: recorded_def case_prod_unfold)
qed

text \<open>
  What a whole profile goes through: the guard is built on a fresh profiler with the builder's blocklists, the deliveries run,
  the report is built from the world they leave, and the guard's drop restores what \<open>profile_complete\<close> says.
\<close>

lemma run_profile_runs:
  fixes w :: "'os world"
  assumes "kernel_laws setitimer period sigaction disp" "platform_ok pl" "ready pl w" "call_ok ce" "call_ok ce'"
    and "\<forall>os sig a. \<not> isl (snd (sigaction os sig a))" "deliveries_ok ds" "sint (b_frequency b) \<noteq> 0"
  obtains w1 :: "'os world" and p w2 w3 rb where "w_profiler w1 = Some (Inr p)" "fresh pl p" "w_missed w1 = 0"
    "p_thread_blocklist p = b_thread_blocklist b" "p_blocklist_segments p = b_blocklist_segments b"
    "signals_run pl w1 ds = Return w2" "rb_post rb = None"
    "rt_clock_type (rb_timing rb) = b_clock_type b" "rt_frequency (rb_timing rb) = b_frequency b"
    "\<And>sy io. run_profile setitimer sigaction pl sy ce ce' io ds b w = (w3, Return (build_report pl sy io w2 rb))"
    "ready pl w3"
    "disp (w_os w3) = (disp (w_os w))(clock_signal (b_clock_type b) :=
       let old = disp (w_os w) (clock_signal (b_clock_type b)) in if sa_handler old = SigDfl then ignore_sigaction else old)"
    "\<And>t. period (w_os w3) t = (if t = clock_itimer (b_clock_type b) then 0 else period (w_os w) t)"
proof -
  obtain w1 t p where build: "ProfilerGuardBuilder_build setitimer sigaction pl ce b w = (w1, Return (Inr \<lparr>g_timer = Some t\<rparr>))"
    and t: "tm_clock_type t = b_clock_type b" "tm_frequency t = b_frequency b" and missed: "w_missed w1 = 0"
    and p: "w_profiler w1 = Some (Inr p)" "fresh pl p" "p_thread_blocklist p = b_thread_blocklist b"
      "p_blocklist_segments p = b_blocklist_segments b"
    by (rule build_ready [OF assms(2,4,3,6,8), of setitimer])
  let ?rb = "ProfilerGuard_report \<lparr>g_timer = Some t\<rparr> (ce_instant ce')"
  obtain w2 where run: "signals_run pl w1 ds = Return w2"
    using build_report_fresh [OF assms(2) p(1,2) assms(7)] by blast
  obtain p' os old t' where "phase w1 = Busy (b_clock_type b) (Some old)"
    by (rule build_Inr [OF build])
  with signals_run_phase [OF run] have "phase w2 = Busy (b_clock_type b) (Some old)" by simp
  then obtain w3 where stop: "ProfilerGuard_drop setitimer sigaction pl ce' \<lparr>g_timer = Some t\<rparr> w2 = (w3, Inr ())"
    using drop_ready [OF assms(6), of ce'] assms(5) unfolding call_ok_def by metis
  have now: "- (2 ^ 63) \<le> ce_now ce'" "ce_now ce' < 2 ^ 63" using assms(5) by (simp_all add: call_ok_def)
  note restored = drop_restores [OF assms(1,2) now build run stop]
  have "ready pl w3" using restored by (auto simp: ready_def fresh_def)
  moreover have "rb_post ?rb = None" "rt_clock_type (rb_timing ?rb) = b_clock_type b" "rt_frequency (rb_timing ?rb) = b_frequency b"
    using t by (simp_all add: ProfilerGuard_report_def ReportBuilder_new_def Timer_timing_def)
  moreover have "run_profile setitimer sigaction pl sy ce ce' io ds b w = (w3, Return (build_report pl sy io w2 ?rb))" for sy io
    by (simp add: run_profile_def build run stop)
  ultimately show ?thesis using that [OF p(1,2) missed p(3,4) run] restored unfolding Let_def by blast
qed

lemma run_profile_complete:
  assumes "kernel_laws setitimer period sigaction disp" "platform_ok pl" "ready pl w" "call_ok ce" "call_ok ce'"
    and "\<forall>os sig a. \<not> isl (snd (sigaction os sig a))" "deliveries_ok ds"
    and "sint (b_frequency b) \<noteq> 0" "b_thread_blocklist b = []" "b_blocklist_segments b = []"
  shows "profile_complete pl period disp (b_clock_type b) (b_frequency b) ds w
    (run_profile setitimer sigaction pl sy ce ce' read_ok ds b w)"
proof (rule run_profile_runs [OF assms(1-8)])
  fix w1 w2 w3 :: "'a world" and p and rb :: ReportBuilder
  assume p: "w_profiler w1 = Some (Inr p)" "fresh pl p" and missed: "w_missed w1 = 0"
    and lists: "p_thread_blocklist p = b_thread_blocklist b" "p_blocklist_segments p = b_blocklist_segments b"
    and run: "signals_run pl w1 ds = Return w2"
    and rb: "rt_clock_type (rb_timing rb) = b_clock_type b" "rt_frequency (rb_timing rb) = b_frequency b"
    and result: "\<And>sy io. run_profile setitimer sigaction pl sy ce ce' io ds b w = (w3, Return (build_report pl sy io w2 rb))"
    and restored: "ready pl w3" "disp (w_os w3) = (disp (w_os w))(clock_signal (b_clock_type b) :=
       let old = disp (w_os w) (clock_signal (b_clock_type b)) in if sa_handler old = SigDfl then ignore_sigaction else old)"
      "\<And>t. period (w_os w3) t = (if t = clock_itimer (b_clock_type b) then 0 else period (w_os w) t)"
  obtain r where "build_report pl sy read_ok w2 rb = Inr r"
    "unat (Report_total_samples r) = length (filter (\<lambda>d. \<not> snd d) ds)"
    "r_missed_samples r = of_nat (length (filter snd ds))" "r_timing r = rb_timing rb"
    using build_report_fresh [OF assms(2) p(1,2) assms(7), of sy rb] missed run
      recorded_unfiltered [of p pl ds] lists assms(9,10) by auto
  then show ?thesis using result restored rb unfolding profile_complete_def Let_def by simp
qed


text \<open>The simulated kernel, with a \<^verbatim>\<open>sigaction\<close> that never fails.\<close>

definition steady_sigaction :: "sim_kernel sigaction_fn" where
  "steady_sigaction os sig a = (os\<lparr>sk_actions := (sk_actions os)(sig := a)\<rparr>, Inr (sk_actions os sig))"

interpretation steady_kernel: kernel_laws sk_setitimer sk_period steady_sigaction sk_actions
  by unfold_locales (auto simp: sk_setitimer_def sk_period_def steady_sigaction_def)


section \<open>Criterion\<close>

text \<open>
  \<^verbatim>\<open>PProfProfiler\<close> with both outputs compiled in. What the file system and the codec do is a \<open>bench_io\<close>: whether the directory
  and the file can be created, what inferno makes of the folded lines, how a profile is encoded, and whether writing it
  succeeds. The result of \<^verbatim>\<open>stop_profiling\<close> is what was written, if anything. A panic unwinds, and drops the guard that
  \<^verbatim>\<open>take\<close> moved out of the profiler.
\<close>

datatype 'opt Output = FlamegraphOutput "'opt option" | ProtobufOutput | PhantomOutput

record 'opt PProfProfiler =
  cp_frequency :: i32
  cp_output :: "'opt Output"
  cp_active_profiler :: "ProfilerGuard option"

record 'opt bench_io =
  bi_dir_ok :: bool
  bi_file_ok :: bool
  bi_default_options :: 'opt
  bi_from_lines :: "'opt \<Rightarrow> string list \<Rightarrow> string \<Rightarrow> string \<times> (io_error + unit)"
  bi_encode :: "Profile \<Rightarrow> string option"
  bi_write_ok :: bool

definition PProfProfiler_new :: "i32 \<Rightarrow> 'opt Output \<Rightarrow> 'opt PProfProfiler" where
  "PProfProfiler_new frequency out = \<lparr>cp_frequency = frequency, cp_output = out, cp_active_profiler = None\<rparr>"

definition start_profiling ::
  "'os setitimer_fn \<Rightarrow> 'os sigaction_fn \<Rightarrow> platform \<Rightarrow> call_env \<Rightarrow> 'opt PProfProfiler \<Rightarrow> 'os world
     \<Rightarrow> 'os world \<times> 'opt PProfProfiler outcome" where
  "start_profiling setitimer sigaction pl ce c w =
     (case ProfilerGuard_new setitimer sigaction pl ce (cp_frequency c) w of
        (w, Panic e) \<Rightarrow> (w, Panic e)
      | (w, Return (Inl _)) \<Rightarrow> (w, Panic UnwrapFailed)
      | (w, Return (Inr guard)) \<Rightarrow>
          (case cp_active_profiler c of
             None \<Rightarrow> (w, Return (c\<lparr>cp_active_profiler := Some guard\<rparr>))
           | Some old \<Rightarrow> (fst (ProfilerGuard_drop setitimer sigaction pl ce old w),
                          Return (c\<lparr>cp_active_profiler := Some guard\<rparr>))))"

definition unwrap_result :: "'a Result \<Rightarrow> 'a outcome" where
  "unwrap_result r = (case r of Inl _ \<Rightarrow> Panic UnwrapFailed | Inr x \<Rightarrow> Return x)"

definition bench_output ::
  "(string list \<Rightarrow> string list) \<Rightarrow> symbolizer \<Rightarrow> 'opt bench_io \<Rightarrow> 'opt Output \<Rightarrow> Report Result \<Rightarrow> string outcome" where
  "bench_output hs_iter sy io kind result =
     (case kind of
        FlamegraphOutput options \<Rightarrow>
          obind (unwrap_result result) (\<lambda>report.
          obind (flamegraph_with_options sy (bi_from_lines io)
                   (case options of Some opts \<Rightarrow> opts | None \<Rightarrow> bi_default_options io) [] report) (\<lambda>(svg, written).
          obind (unwrap_result written) (\<lambda>_. Return svg)))
      | ProtobufOutput \<Rightarrow>
          obind (unwrap_result result) (\<lambda>report.
          obind (Report_pprof hs_iter sy report) (\<lambda>prof.
            case bi_encode io prof of
              Some content \<Rightarrow> if bi_write_ok io then Return content else Panic UnwrapFailed
            | None \<Rightarrow> Panic UnwrapFailed))
      | PhantomOutput \<Rightarrow> Panic ExplicitPanic)"

definition stop_profiling ::
  "'os setitimer_fn \<Rightarrow> 'os sigaction_fn \<Rightarrow> platform \<Rightarrow> (string list \<Rightarrow> string list) \<Rightarrow> symbolizer \<Rightarrow> 'opt bench_io \<Rightarrow> call_env
     \<Rightarrow> read_res \<Rightarrow> 'opt PProfProfiler \<Rightarrow> 'os world \<Rightarrow> 'os world \<times> 'opt PProfProfiler \<times> string option outcome" where
  "stop_profiling setitimer sigaction pl hs_iter sy io ce rio c w =
     (if \<not> bi_dir_ok io then (w, c, Panic UnwrapFailed)
      else if \<not> bi_file_ok io then (w, c, Panic ExplicitPanic)
      else case cp_active_profiler c of
             None \<Rightarrow> (w, c, Return None)
           | Some profiler \<Rightarrow>
               (let written = bench_output hs_iter sy io (cp_output c)
                      (build_report pl sy rio w (ProfilerGuard_report profiler (ce_instant ce)))
                in (fst (ProfilerGuard_drop setitimer sigaction pl ce profiler w), c\<lparr>cp_active_profiler := None\<rparr>,
                    obind written (\<lambda>s. Return (Some s)))))"

text \<open>
  A benchmark that was stopped, even by a panic while the output was made, leaves the profiler free for the next one; one that
  could not create its output file leaves it running, and the next start panics.
\<close>

lemma stop_profiling_frees:
  assumes "bi_dir_ok io" "bi_file_ok io" "cp_active_profiler c = Some \<lparr>g_timer = Some t\<rparr>" "phase w = Busy ct (Some old)"
    and "\<forall>os sig a. \<not> isl (snd (sigaction os sig a))" "ce_create ce = None"
    and "stop_profiling setitimer sigaction pl hs_iter sy io ce rio c w = (w', c', r)"
  shows "phase w' = Idle \<and> cp_active_profiler c' = None"
proof -
  obtain w2 where drop: "ProfilerGuard_drop setitimer sigaction pl ce \<lparr>g_timer = Some t\<rparr> w = (w2, Inr ())"
    by (rule drop_ready [OF assms(5,6,4)])
  then have "phase w2 = Idle" using assms(4) by (cases rule: drop_cases) auto
  then show ?thesis using assms(1-3,7) drop by (auto simp: stop_profiling_def Let_def)
qed

lemma stop_profiling_no_file:
  assumes "\<not> bi_dir_ok io \<or> \<not> bi_file_ok io" "phase w \<noteq> Idle"
    and "stop_profiling setitimer sigaction pl hs_iter sy io ce rio c w = (w', c', r)"
  shows "r \<in> {Panic UnwrapFailed, Panic ExplicitPanic} \<and> snd (start_profiling setitimer sigaction pl ce' c' w') = Panic UnwrapFailed"
proof -
  have w': "w' = w" "c' = c" "r \<in> {Panic UnwrapFailed, Panic ExplicitPanic}" using assms(1,3) by (auto simp: stop_profiling_def split: if_splits)
  obtain w2 x where new: "ProfilerGuard_new setitimer sigaction pl ce' (cp_frequency c) w = (w2, x)" by fastforce
  then have "x = Return (Inl Running)" unfolding ProfilerGuard_new_def using assms(2) busy_build by blast
  with new w' show ?thesis by (simp add: start_profiling_def)
qed

end
