(* ===== verification/Alloc_Exact.thy ===== *)
theory Alloc_Exact
  imports Alloc_Steps
begin

text \<open>
  What the interleaved heap profiler keeps and what it does not. The invariant \<open>conc_inv\<close> says who is responsible for each block,
  what the table holds, and that the counters of a call site are the table plus what the threads inside a hook still owe;
  it is kept by every action except \<^verbatim>\<open>reset\<close>, \<^verbatim>\<open>stop\<close> and reallocations that move a block. For \<^verbatim>\<open>reset\<close> and those reallocations there are
  schedules that break the profile.
\<close>

section \<open>The invariant\<close>

text \<open>The block a thread is responsible for, between the program giving it away and the allocator getting it back.\<close>

fun after_ptr :: "after \<Rightarrow> usize" where
  "after_ptr (Then_free ptr) = ptr"
| "after_ptr (Then_sample ips ptr sz) = ptr"

fun pc_ptr :: "pc \<Rightarrow> usize option" where
  "pc_ptr (At_lookup ips ptr sz) = Some ptr"
| "pc_ptr (At_create ips ptr sz) = Some ptr"
| "pc_ptr (At_new_site i ips ptr sz) = Some ptr"
| "pc_ptr (At_count k i ips ptr sz) = Some ptr"
| "pc_ptr (At_insert i ips ptr sz) = Some ptr"
| "pc_ptr (At_remove ptr k) = Some ptr"
| "pc_ptr (At_uncount n i sz k) = Some (after_ptr k)"
| "pc_ptr (At_free ptr) = Some ptr"
| "pc_ptr _ = None"

text \<open>What a thread has counted but not yet entered, or deleted but not yet subtracted.\<close>

fun owed_objects :: "u64 \<Rightarrow> pc \<Rightarrow> i64" where
  "owed_objects i (At_count k j ips ptr sz) = (if j = i \<and> 3 \<le> k then 1 else 0)"
| "owed_objects i (At_insert j ips ptr sz) = (if j = i then 1 else 0)"
| "owed_objects i (At_uncount n j sz k) = (if j = i \<and> n = 0 then 1 else 0)"
| "owed_objects i _ = 0"

fun owed_bytes :: "u64 \<Rightarrow> pc \<Rightarrow> i64" where
  "owed_bytes i (At_insert j ips ptr sz) = (if j = i then sz else 0)"
| "owed_bytes i (At_uncount n j sz k) = (if j = i then sz else 0)"
| "owed_bytes i _ = 0"

fun entry_objects :: "u64 \<Rightarrow> (u64 \<times> usize) option \<Rightarrow> i64" where
  "entry_objects i (Some (j, sz)) = (if j = i then 1 else 0)"
| "entry_objects i None = 0"

fun entry_bytes :: "u64 \<Rightarrow> (u64 \<times> usize) option \<Rightarrow> i64" where
  "entry_bytes i (Some (j, sz)) = (if j = i then sz else 0)"
| "entry_bytes i None = 0"

definition table_sum :: "((u64 \<times> usize) option \<Rightarrow> i64) \<Rightarrow> HeapState \<Rightarrow> i64" where
  "table_sum f s = (\<Sum>p \<in> UNIV. f (shard_get s p))"

definition owed_sum :: "nat \<Rightarrow> (pc \<Rightarrow> i64) \<Rightarrow> conc \<Rightarrow> i64" where
  "owed_sum N f c = (\<Sum>t < N. f (c_pc c t))"

definition counted :: "nat \<Rightarrow> conc \<Rightarrow> bool" where
  "counted N c \<longleftrightarrow> (\<forall>i d. site (c_state c) i = Some d \<longrightarrow>
     cd_inuse_objects d = table_sum (entry_objects i) (c_state c) + owed_sum N (owed_objects i) c \<and>
     cd_inuse_bytes d = table_sum (entry_bytes i) (c_state c) + owed_sum N (owed_bytes i) c)"

fun pc_ok :: "conc \<Rightarrow> nat \<Rightarrow> pc \<Rightarrow> bool" where
  "pc_ok c t (At_new_site i ips ptr sz) \<longleftrightarrow> c_map_lock c = Some t \<and> site (c_state c) i = None \<and>
     i < hs_next_callsite_id (c_state c) \<and> hm_get (=) (hs_callsite_map (c_state c)) ips = None"
| "pc_ok c t (At_count k i ips ptr sz) \<longleftrightarrow> k \<le> 3 \<and> (\<exists>d. site (c_state c) i = Some d \<and> cd_ips d = ips)"
| "pc_ok c t (At_insert i ips ptr sz) \<longleftrightarrow> (\<exists>d. site (c_state c) i = Some d \<and> cd_ips d = ips)"
| "pc_ok c t (At_remove ptr k) \<longleftrightarrow> after_ptr k = ptr"
| "pc_ok c t (At_uncount n i sz k) \<longleftrightarrow> n \<le> 1 \<and> (\<exists>d. site (c_state c) i = Some d)"
| "pc_ok c t (At_reset k) \<longleftrightarrow> False"
| "pc_ok c t _ \<longleftrightarrow> True"

definition pcs_ok :: "nat \<Rightarrow> conc \<Rightarrow> bool" where
  "pcs_ok N c \<longleftrightarrow> (\<forall>t. pc_ok c t (c_pc c t) \<and> (N \<le> t \<longrightarrow> c_pc c t = Idle) \<and>
     (tl_in_alloc (h_tls (c_heap c) t) \<longleftrightarrow> c_pc c t \<noteq> Idle \<and> (\<forall>p. c_pc c t \<noteq> At_free p)))"

definition owners_ok :: "conc \<Rightarrow> bool" where
  "owners_ok c \<longleftrightarrow>
     (\<forall>t u p. pc_ptr (c_pc c t) = Some p \<longrightarrow> pc_ptr (c_pc c u) = Some p \<longrightarrow> t = u) \<and>
     (\<forall>t p. pc_ptr (c_pc c t) = Some p \<longrightarrow> c_live c p = None \<and> p \<in> c_inner c \<and> p \<notin> c_priv c) \<and>
     (\<forall>p. c_live c p \<noteq> None \<longrightarrow> p \<in> c_inner c \<and> p \<notin> c_priv c) \<and> c_priv c \<subseteq> c_inner c"

definition table_ok :: "conc \<Rightarrow> bool" where
  "table_ok c \<longleftrightarrow>
     (\<forall>p g. c_live c p = Some g \<longrightarrow> heap_abs (c_state c) p = g) \<and>
     (\<forall>p. shard_get (c_state c) p \<noteq> None \<longrightarrow> c_live c p \<noteq> None \<or> (\<exists>t k. c_pc c t = At_remove p k))"

definition conc_inv :: "nat \<Rightarrow> conc \<Rightarrow> bool" where
  "conc_inv N c \<longleftrightarrow> h_profiling (c_heap c) \<and> heap_shape (c_state c) \<and> pcs_ok N c \<and> owners_ok c \<and> table_ok c \<and> counted N c"

text \<open>The actions that keep it: no \<^verbatim>\<open>reset\<close>, no \<^verbatim>\<open>stop\<close>, and no reallocation that moves the block.\<close>

fun calm :: "action \<Rightarrow> bool" where
  "calm (Call_realloc t frames ptr new_ptr sz) \<longleftrightarrow> new_ptr = ptr \<or> new_ptr = 0"
| "calm (Call_reset t) \<longleftrightarrow> False"
| "calm (Set_profiling b) \<longleftrightarrow> b"
| "calm a \<longleftrightarrow> True"

lemma sum_fun_upd:
  fixes f :: "'b \<Rightarrow> 'c :: ab_group_add"
  assumes "finite A" and "a \<in> A"
  shows "(\<Sum>x \<in> A. f ((g(a := v)) x)) = (\<Sum>x \<in> A. f (g x)) - f (g a) + f v"
proof -
  have "(\<Sum>x \<in> A - {a}. f ((g(a := v)) x)) = (\<Sum>x \<in> A - {a}. f (g x))" by (rule sum.cong) auto
  with sum.remove [OF assms, of "\<lambda>x. f ((g(a := v)) x)"] sum.remove [OF assms, of "\<lambda>x. f (g x)"] show ?thesis by simp
qed

lemma table_sum_upd:
  assumes "\<And>q. shard_get s' q = (if q = p then v else shard_get s q)"
  shows "table_sum f s' = table_sum f s - f (shard_get s p) + f v"
proof -
  have "shard_get s' = (shard_get s)(p := v)" using assms by auto
  then show ?thesis using sum_fun_upd [of UNIV p f "shard_get s" v] by (simp add: table_sum_def)
qed

lemmas table_sum_insert = table_sum_upd [OF shard_get_insert]
lemmas table_sum_remove = table_sum_upd [OF shard_get_remove]

lemma table_sum_same: "(\<And>q. shard_get s' q = shard_get s q) \<Longrightarrow> table_sum f s' = table_sum f s"
  by (simp add: table_sum_def)

lemma owed_sum_set:
  assumes "c_pc c' = (c_pc c)(t := p)" and "t < N"
  shows "owed_sum N f c' = owed_sum N f c - f (c_pc c t) + f p"
  using sum_fun_upd [of "{..<N}" t f "c_pc c" p] assms by (simp add: owed_sum_def)

section \<open>Steps keep the invariant\<close>

text \<open>What the other threads rely on: call sites stay, and the holder of \<^verbatim>\<open>callsite_map\<close> finds it as it was.\<close>

definition sites_kept :: "nat \<Rightarrow> conc \<Rightarrow> conc \<Rightarrow> bool" where
  "sites_kept t c c' \<longleftrightarrow>
     (\<forall>i d. site (c_state c) i = Some d \<longrightarrow> (\<exists>d'. site (c_state c') i = Some d' \<and> cd_ips d' = cd_ips d)) \<and>
     (\<forall>u. u \<noteq> t \<and> c_map_lock c = Some u \<longrightarrow> c_map_lock c' = Some u \<and>
        (\<forall>i. site (c_state c) i = None \<longrightarrow> site (c_state c') i = None) \<and>
        hs_next_callsite_id (c_state c') = hs_next_callsite_id (c_state c) \<and>
        hs_callsite_map (c_state c') = hs_callsite_map (c_state c))"

lemma pc_ok_kept: "sites_kept t c c' \<Longrightarrow> u \<noteq> t \<Longrightarrow> pc_ok c u p \<Longrightarrow> pc_ok c' u p"
  by (cases p) (fastforce simp: sites_kept_def)+

lemma pcs_ok_move:
  assumes "pcs_ok N c" and "sites_kept t c c'" and "c_pc c' = (c_pc c)(t := p)" and "pc_ok c' t p" and "t < N"
    and "\<And>u. u \<noteq> t \<Longrightarrow> h_tls (c_heap c') u = h_tls (c_heap c) u"
    and "tl_in_alloc (h_tls (c_heap c') t) \<longleftrightarrow> p \<noteq> Idle \<and> (\<forall>q. p \<noteq> At_free q)"
  shows "pcs_ok N c'"
  unfolding pcs_ok_def
proof
  fix u
  show "pc_ok c' u (c_pc c' u) \<and> (N \<le> u \<longrightarrow> c_pc c' u = Idle) \<and>
      (tl_in_alloc (h_tls (c_heap c') u) \<longleftrightarrow> c_pc c' u \<noteq> Idle \<and> (\<forall>q. c_pc c' u \<noteq> At_free q))"
  proof (cases "u = t")
    case True
    with assms(3-5,7) show ?thesis by simp
  next
    case False
    with assms(1,3,6) pc_ok_kept [OF assms(2) False] show ?thesis by (simp add: pcs_ok_def)
  qed
qed

lemma heap_abs_kept:
  assumes "heap_shape s" and "\<And>q. shard_get s' q = shard_get s q"
    and "\<And>i d. site s i = Some d \<Longrightarrow> \<exists>d'. site s' i = Some d' \<and> cd_ips d' = cd_ips d"
  shows "heap_abs s' = heap_abs s"
proof
  fix p
  show "heap_abs s' p = heap_abs s p"
  proof (cases "shard_get s p")
    case None
    then show ?thesis by (simp add: heap_abs_shard_get assms(2))
  next
    case (Some e)
    obtain i sz where e: "e = (i, sz)" by (cases e)
    obtain d where "site s i = Some d" using heap_shape_site [OF assms(1)] Some e by blast
    with assms(3) [OF this] Some e show ?thesis by (auto simp: heap_abs_shard_get assms(2))
  qed
qed

text \<open>A step that moves a thread and touches call sites, but neither the table nor a block.\<close>

lemma conc_inv_move:
  assumes inv: "conc_inv N c" and t: "t < N"
    and pc: "c_pc c' = (c_pc c)(t := p)" "pc_ptr p = pc_ptr (c_pc c t)" "pc_ok c' t p" "\<And>q k. c_pc c t \<noteq> At_remove q k"
    and same: "c_live c' = c_live c" "c_inner c' = c_inner c" "c_priv c' = c_priv c" "h_profiling (c_heap c') = h_profiling (c_heap c)"
    and tls: "\<And>u. u \<noteq> t \<Longrightarrow> h_tls (c_heap c') u = h_tls (c_heap c) u"
      "tl_in_alloc (h_tls (c_heap c') t) \<longleftrightarrow> p \<noteq> Idle \<and> (\<forall>q. p \<noteq> At_free q)"
    and shape: "heap_shape (c_state c')" and tab: "\<And>q. shard_get (c_state c') q = shard_get (c_state c) q"
    and kept: "sites_kept t c c'" and cnt: "counted N c'"
  shows "conc_inv N c'"
proof -
  have pcs: "pcs_ok N c'" using inv pcs_ok_move [OF _ kept pc(1,3) t tls] by (simp add: conc_inv_def)
  have ptrs: "pc_ptr (c_pc c' u) = pc_ptr (c_pc c u)" for u by (simp add: pc(1,2))
  have own: "owners_ok c'" using inv unfolding conc_inv_def owners_ok_def ptrs same by blast
  have rem: "c_pc c' u = At_remove q k" if "c_pc c u = At_remove q k" for u q k
    using that pc(4) by (cases "u = t") (auto simp: pc(1))
  have "heap_abs (c_state c') = heap_abs (c_state c)"
    using heap_abs_kept [of "c_state c" "c_state c'"] tab kept inv by (simp add: sites_kept_def conc_inv_def)
  then have "table_ok c'" using inv rem unfolding conc_inv_def table_ok_def tab same by metis
  with inv pcs own shape cnt show ?thesis by (simp add: conc_inv_def same)
qed

lemma counted_move:
  assumes "counted N c" and "t < N" and "c_pc c' = (c_pc c)(t := p)"
    and "\<And>q. shard_get (c_state c') q = shard_get (c_state c) q"
    and "\<And>i d'. site (c_state c') i = Some d' \<Longrightarrow> \<exists>d. site (c_state c) i = Some d \<and>
      cd_inuse_objects d' = cd_inuse_objects d - owed_objects i (c_pc c t) + owed_objects i p \<and>
      cd_inuse_bytes d' = cd_inuse_bytes d - owed_bytes i (c_pc c t) + owed_bytes i p"
  shows "counted N c'"
  unfolding counted_def
proof (intro allI impI)
  fix i d'
  assume "site (c_state c') i = Some d'"
  from assms(5) [OF this] obtain d where d: "site (c_state c) i = Some d"
    "cd_inuse_objects d' = cd_inuse_objects d - owed_objects i (c_pc c t) + owed_objects i p"
    "cd_inuse_bytes d' = cd_inuse_bytes d - owed_bytes i (c_pc c t) + owed_bytes i p" by blast
  have "cd_inuse_objects d = table_sum (entry_objects i) (c_state c) + owed_sum N (owed_objects i) c"
    "cd_inuse_bytes d = table_sum (entry_bytes i) (c_state c) + owed_sum N (owed_bytes i) c"
    using assms(1) d(1) unfolding counted_def by blast+
  then show "cd_inuse_objects d' = table_sum (entry_objects i) (c_state c') + owed_sum N (owed_objects i) c' \<and>
      cd_inuse_bytes d' = table_sum (entry_bytes i) (c_state c') + owed_sum N (owed_bytes i) c'"
    using table_sum_same [of "c_state c'" "c_state c", OF assms(4)] owed_sum_set [OF assms(3,2)]
    by (simp add: d(2,3))
qed

lemma conc_invD:
  assumes "conc_inv N c"
  shows "h_profiling (c_heap c)" "heap_shape (c_state c)" "pcs_ok N c" "owners_ok c" "table_ok c" "counted N c"
  using assms by (simp_all add: conc_inv_def)

lemma conc_inv_pc_ok: "conc_inv N c \<Longrightarrow> pc_ok c t (c_pc c t)"
  by (simp add: conc_inv_def pcs_ok_def)

lemma conc_inv_idle: "conc_inv N c \<Longrightarrow> N \<le> t \<Longrightarrow> c_pc c t = Idle"
  by (simp add: conc_inv_def pcs_ok_def)

lemma conc_inv_tls:
  "conc_inv N c \<Longrightarrow> tl_in_alloc (h_tls (c_heap c) t) \<longleftrightarrow> c_pc c t \<noteq> Idle \<and> (\<forall>q. c_pc c t \<noteq> At_free q)"
  by (simp add: conc_inv_def pcs_ok_def)

text \<open>Looking a call site up, and leaving for the next stage without any change.\<close>

lemma conc_inv_set_pc:
  assumes inv: "conc_inv N c" and t: "t < N" and ptr: "pc_ptr p = pc_ptr (c_pc c t)" and ok: "pc_ok c t p"
    and rem: "\<And>q k. c_pc c t \<noteq> At_remove q k"
    and owed: "\<And>i. owed_objects i p = owed_objects i (c_pc c t)" "\<And>i. owed_bytes i p = owed_bytes i (c_pc c t)"
    and alloc: "c_pc c t \<noteq> Idle" "\<And>q. c_pc c t \<noteq> At_free q" "p \<noteq> Idle" "\<And>q. p \<noteq> At_free q"
  shows "conc_inv N (set_pc t p c)"
proof (rule conc_inv_move [OF inv t, where p = p])
  show "pc_ok (set_pc t p c) t p" using ok by (cases p) (simp_all add: set_pc_def)
  show "counted N (set_pc t p c)"
    by (rule counted_move [OF conc_invD(6) [OF inv] t, where p = p]) (simp_all add: set_pc_def owed)
qed (use ptr rem alloc conc_inv_tls [OF inv, of t] conc_invD(2) [OF inv] in \<open>simp_all add: set_pc_def sites_kept_def\<close>)

lemma conc_inv_next_id:
  assumes inv: "conc_inv N c" and t: "t < N" and pc: "c_pc c t = At_create ips ptr sz" and free: "c_map_lock c = None"
    and none: "hm_get (=) (hs_callsite_map (c_state c)) ips = None"
    and room: "unat (hs_next_callsite_id (c_state c)) < 2 ^ 64 - 1"
  shows "conc_inv N (set_pc t (At_new_site (hs_next_callsite_id (c_state c)) ips ptr sz)
    ((on_state (\<lambda>s. s\<lparr>hs_next_callsite_id := hs_next_callsite_id (c_state c) + 1\<rparr>) c)\<lparr>c_map_lock := Some t\<rparr>))"
    (is "conc_inv N ?c")
proof -
  let ?i = "hs_next_callsite_id (c_state c)"
  note new = heap_shape_next_id [OF conc_invD(2) [OF inv] room]
  have st: "c_state ?c = (c_state c)\<lparr>hs_next_callsite_id := ?i + 1\<rparr>" by (simp add: conc_defs)
  have pcs: "c_pc ?c = (c_pc c)(t := At_new_site ?i ips ptr sz)" by (simp add: conc_defs)
  have tab: "shard_get (c_state ?c) q = shard_get (c_state c) q" for q by (simp add: st shard_get_def)
  have cnt: "counted N ?c"
    by (rule counted_move [OF conc_invD(6) [OF inv] t pcs tab]) (simp add: st pc)
  have kept: "sites_kept t c ?c" unfolding sites_kept_def st using free by simp
  have okc: "pc_ok ?c t (At_new_site ?i ips ptr sz)" using new(2,3) none by (simp add: st, simp add: conc_defs)
  show ?thesis
    by (rule conc_inv_move [OF inv t pcs _ okc _ _ _ _ _ _ _ _ tab kept cnt])
       (use conc_inv_tls [OF inv, of t] new(1) in \<open>simp_all add: conc_defs pc\<close>)
qed

lemma unused_site_sums:
  assumes inv: "conc_inv N c" and "site (c_state c) i = None"
  shows "table_sum (entry_objects i) (c_state c) = 0" and "table_sum (entry_bytes i) (c_state c) = 0"
    and "owed_sum N (owed_objects i) c = 0" and "owed_sum N (owed_bytes i) c = 0"
proof -
  have e: "entry_objects i (shard_get (c_state c) p) = 0 \<and> entry_bytes i (shard_get (c_state c) p) = 0" for p
  proof (cases "shard_get (c_state c) p")
    case (Some x)
    obtain j sz where x: "x = (j, sz)" by (cases x)
    have "j \<noteq> i" using heap_shape_site [OF conc_invD(2) [OF inv], of p j sz] Some x assms(2) by auto
    with Some x show ?thesis by simp
  qed simp
  then show "table_sum (entry_objects i) (c_state c) = 0" "table_sum (entry_bytes i) (c_state c) = 0"
    by (simp_all add: table_sum_def)
  have "owed_objects i (c_pc c t) = 0 \<and> owed_bytes i (c_pc c t) = 0" for t
    using conc_inv_pc_ok [OF inv, of t] assms(2) by (cases "c_pc c t") auto
  then show "owed_sum N (owed_objects i) c = 0" "owed_sum N (owed_bytes i) c = 0" by (simp_all add: owed_sum_def)
qed

lemma conc_inv_new_site:
  assumes inv: "conc_inv N c" and t: "t < N" and pc: "c_pc c t = At_new_site i ips ptr sz"
  shows "conc_inv N (set_pc t (At_count 0 i ips ptr sz) ((on_state (new_site i ips) c)\<lparr>c_map_lock := None\<rparr>))"
    (is "conc_inv N ?c")
proof -
  have ok: "c_map_lock c = Some t" "site (c_state c) i = None" "i < hs_next_callsite_id (c_state c)"
    "hm_get (=) (hs_callsite_map (c_state c)) ips = None"
    using conc_inv_pc_ok [OF inv, of t] pc by simp_all
  have st: "c_state ?c = new_site i ips (c_state c)" by (simp add: conc_defs)
  have pcs: "c_pc ?c = (c_pc c)(t := At_count 0 i ips ptr sz)" by (simp add: conc_defs)
  have tab: "shard_get (c_state ?c) q = shard_get (c_state c) q" for q by (simp add: st)
  have owed: "owed_sum N (owed_objects j) ?c = owed_sum N (owed_objects j) c"
    "owed_sum N (owed_bytes j) ?c = owed_sum N (owed_bytes j) c" for j
    using owed_sum_set [OF pcs t] by (simp_all add: pc)
  note tsum = table_sum_same [of "c_state ?c" "c_state c", OF tab]
  have cnt: "counted N ?c"
    unfolding counted_def
  proof (intro allI impI)
    fix j d
    assume d: "site (c_state ?c) j = Some d"
    show "cd_inuse_objects d = table_sum (entry_objects j) (c_state ?c) + owed_sum N (owed_objects j) ?c \<and>
        cd_inuse_bytes d = table_sum (entry_bytes j) (c_state ?c) + owed_sum N (owed_bytes j) ?c"
    proof (cases "j = i")
      case True
      with d have "cd_inuse_objects d = 0" "cd_inuse_bytes d = 0" by (auto simp: st site_new_site)
      with True show ?thesis unfolding tsum owed using unused_site_sums [OF inv ok(2)] by simp
    next
      case False
      with d have "site (c_state c) j = Some d" by (simp add: st site_new_site)
      with conc_invD(6) [OF inv] show ?thesis unfolding counted_def tsum owed by blast
    qed
  qed
  have kept: "sites_kept t c ?c" unfolding sites_kept_def st using ok(1,2) by (auto simp: site_new_site)
  have okc: "pc_ok ?c t (At_count 0 i ips ptr sz)" by (simp add: st site_new_site)
  show ?thesis
    by (rule conc_inv_move [OF inv t pcs _ okc _ _ _ _ _ _ _ _ tab kept cnt])
       (use conc_inv_tls [OF inv, of t] heap_shape_new_site [OF conc_invD(2) [OF inv] ok(2-4)] in
         \<open>simp_all add: conc_defs pc\<close>)
qed

text \<open>One \<^verbatim>\<open>fetch_add\<close> or \<^verbatim>\<open>fetch_sub\<close>.\<close>

lemma conc_inv_count:
  assumes inv: "conc_inv N c" and t: "t < N"
    and st: "c_state c' = update_callsite i f (c_state c)"
    and pc: "c_pc c' = (c_pc c)(t := p)" "pc_ptr p = pc_ptr (c_pc c t)" "pc_ok c' t p" "\<And>q k. c_pc c t \<noteq> At_remove q k"
    and same: "c_live c' = c_live c" "c_inner c' = c_inner c" "c_priv c' = c_priv c" "c_map_lock c' = c_map_lock c"
      "h_profiling (c_heap c') = h_profiling (c_heap c)"
    and tls: "\<And>u. u \<noteq> t \<Longrightarrow> h_tls (c_heap c') u = h_tls (c_heap c) u"
      "tl_in_alloc (h_tls (c_heap c') t) \<longleftrightarrow> p \<noteq> Idle \<and> (\<forall>q. p \<noteq> At_free q)"
    and f: "\<And>d. cd_ips (f d) = cd_ips d"
      "\<And>d. cd_inuse_objects (f d) = cd_inuse_objects d - owed_objects i (c_pc c t) + owed_objects i p"
      "\<And>d. cd_inuse_bytes (f d) = cd_inuse_bytes d - owed_bytes i (c_pc c t) + owed_bytes i p"
    and others: "\<And>j. j \<noteq> i \<Longrightarrow> owed_objects j p = owed_objects j (c_pc c t)"
      "\<And>j. j \<noteq> i \<Longrightarrow> owed_bytes j p = owed_bytes j (c_pc c t)"
  shows "conc_inv N c'"
proof -
  have tab: "shard_get (c_state c') q = shard_get (c_state c) q" for q by (simp add: st)
  have kept: "sites_kept t c c'" unfolding sites_kept_def st same by (auto simp: site_update f(1))
  have cnt: "counted N c'"
  proof (rule counted_move [OF conc_invD(6) [OF inv] t pc(1) tab])
    fix j d'
    assume "site (c_state c') j = Some d'"
    then show "\<exists>d. site (c_state c) j = Some d \<and>
        cd_inuse_objects d' = cd_inuse_objects d - owed_objects j (c_pc c t) + owed_objects j p \<and>
        cd_inuse_bytes d' = cd_inuse_bytes d - owed_bytes j (c_pc c t) + owed_bytes j p"
      by (cases "j = i") (auto simp: st site_update f others)
  qed
  have "heap_shape (c_state c')" unfolding st by (rule heap_shape_update [OF conc_invD(2) [OF inv] f(1)])
  with inv t pc same tls tab kept cnt show ?thesis by (intro conc_inv_move [OF inv t pc same(1-3,5) tls _ tab])
qed

lemma counted_table:
  assumes "counted N c" and "t < N" and "c_pc c' = (c_pc c)(t := p)"
    and "\<And>x. shard_get (c_state c') x = (if x = q then v else shard_get (c_state c) x)"
    and "hs_callsites (c_state c') = hs_callsites (c_state c)"
    and sums: "\<And>i. entry_objects i v + owed_objects i p = entry_objects i (shard_get (c_state c) q) + owed_objects i (c_pc c t)"
      "\<And>i. entry_bytes i v + owed_bytes i p = entry_bytes i (shard_get (c_state c) q) + owed_bytes i (c_pc c t)"
  shows "counted N c'"
  unfolding counted_def
proof (intro allI impI)
  fix i d
  assume "site (c_state c') i = Some d"
  then have "cd_inuse_objects d = table_sum (entry_objects i) (c_state c) + owed_sum N (owed_objects i) c"
    "cd_inuse_bytes d = table_sum (entry_bytes i) (c_state c) + owed_sum N (owed_bytes i) c"
    using assms(1) unfolding counted_def assms(5) by blast+
  then show "cd_inuse_objects d = table_sum (entry_objects i) (c_state c') + owed_sum N (owed_objects i) c' \<and>
      cd_inuse_bytes d = table_sum (entry_bytes i) (c_state c') + owed_sum N (owed_bytes i) c'"
    unfolding table_sum_upd [of "c_state c'" q v "c_state c", OF assms(4)] owed_sum_set [OF assms(3,2)]
    using sums [of i] by (simp add: algebra_simps)
qed

text \<open>A step on the table: the thread deletes the entry of its block, or enters the block and gives it to the program.\<close>

lemma conc_inv_table:
  assumes inv: "conc_inv N c" and t: "t < N" and q: "pc_ptr (c_pc c t) = Some q"
    and tab: "\<And>x. shard_get (c_state c') x = (if x = q then v else shard_get (c_state c) x)"
    and sites: "hs_callsites (c_state c') = hs_callsites (c_state c)" "hs_callsite_map (c_state c') = hs_callsite_map (c_state c)"
      "hs_next_callsite_id (c_state c') = hs_next_callsite_id (c_state c)" "heap_shape (c_state c')"
    and pc: "c_pc c' = (c_pc c)(t := p)" "pc_ok c' t p"
    and same: "c_inner c' = c_inner c" "c_priv c' = c_priv c" "c_map_lock c' = c_map_lock c"
      "h_profiling (c_heap c') = h_profiling (c_heap c)"
    and tls: "\<And>u. u \<noteq> t \<Longrightarrow> h_tls (c_heap c') u = h_tls (c_heap c) u"
      "tl_in_alloc (h_tls (c_heap c') t) \<longleftrightarrow> p \<noteq> Idle \<and> (\<forall>q. p \<noteq> At_free q)"
    and live: "v = None \<and> c_live c' = c_live c \<and> pc_ptr p = Some q \<or>
      pc_ptr p = None \<and> c_live c' = (c_live c)(q \<mapsto> heap_abs (c_state c') q)"
    and sums: "\<And>i. entry_objects i v + owed_objects i p = entry_objects i (shard_get (c_state c) q) + owed_objects i (c_pc c t)"
      "\<And>i. entry_bytes i v + owed_bytes i p = entry_bytes i (shard_get (c_state c) q) + owed_bytes i (c_pc c t)"
  shows "conc_inv N c'"
proof -
  have kept: "sites_kept t c c'" unfolding sites_kept_def sites same by simp
  have pcs: "pcs_ok N c'" by (rule pcs_ok_move [OF conc_invD(3) [OF inv] kept pc t tls])
  note own = conc_invD(4) [OF inv, unfolded owners_ok_def]
  have excl: "pc_ptr (c_pc c u) \<noteq> Some q" if "u \<noteq> t" for u using own q that by blast
  have "owners_ok c'"
    unfolding owners_ok_def same pc(1) using own q live excl by (auto split: if_splits)
  moreover have abs: "heap_abs (c_state c') x = heap_abs (c_state c) x" if "x \<noteq> q" for x
    using that unfolding heap_abs_shard_get tab sites by simp
  have dead: "c_live c q = None" using own q by blast
  have "table_ok c'"
    unfolding table_ok_def
  proof (intro conjI allI impI)
    show "heap_abs (c_state c') x = g" if "c_live c' x = Some g" for x g
      using that live dead abs [of x] conc_invD(5) [OF inv] unfolding table_ok_def by (cases "x = q") auto
    show "c_live c' x \<noteq> None \<or> (\<exists>u k. c_pc c' u = At_remove x k)" if "shard_get (c_state c') x \<noteq> None" for x
    proof (cases "x = q")
      case True
      with that live tab show ?thesis by auto
    next
      case False
      with that tab conc_invD(5) [OF inv] consider "c_live c x \<noteq> None" | u k where "c_pc c u = At_remove x k"
        unfolding table_ok_def by metis
      then show ?thesis
      proof cases
        case 1
        with False live show ?thesis by auto
      next
        case 2
        then have "u \<noteq> t" using q False by auto
        with 2 show ?thesis by (auto simp: pc(1) intro!: exI [of _ u])
      qed
    qed
  qed
  moreover have "counted N c'" by (rule counted_table [OF conc_invD(6) [OF inv] t pc(1) tab sites(1) sums])
  ultimately show ?thesis using pcs sites(4) conc_invD(1) [OF inv] by (simp add: conc_inv_def same)
qed

lemma after_pc_facts [simp]:
  "pc_ptr (after_pc k) = Some (after_ptr k)" "owed_objects i (after_pc k) = 0" "owed_bytes i (after_pc k) = 0"
  "pc_ok c t (after_pc k)" "after_pc k \<noteq> Idle" "(\<forall>q. after_pc k \<noteq> At_free q) \<longleftrightarrow> (\<forall>ptr. k \<noteq> Then_free ptr)"
  by (simp_all add: after_pc_def split: after.splits)

lemma advance_remove_inv:
  assumes inv: "conc_inv N c" and t: "t < N" and pc: "c_pc c t = At_remove ptr k"
    and step: "advance_pc (At_remove ptr k) t c = Some c'"
  shows "conc_inv N c'"
proof -
  have k: "after_ptr k = ptr" using conc_inv_pc_ok [OF inv, of t] pc by simp
  note shape = conc_invD(2) [OF inv]
  have in_alloc: "tl_in_alloc (h_tls (c_heap c) t)" using conc_inv_tls [OF inv, of t] pc by simp
  show ?thesis
  proof (cases "shard_get (c_state c) ptr")
    case None
    with step have c': "c' = dealloc_done t k (on_state (shard_remove ptr) c)" by simp
    show ?thesis
      by (rule conc_inv_table [OF inv t, where q = ptr and v = None and p = "after_pc k"])
         (simp_all add: c' dealloc_done_facts, simp_all add: conc_defs pc k None in_alloc shard_get_remove [OF shape]
            heap_shape_remove [OF shape])
  next
    case (Some e)
    obtain i sz where e: "e = (i, sz)" by (cases e)
    with Some step have c': "c' = set_pc t (At_uncount 0 i sz k) (on_state (shard_remove ptr) c)" by simp
    show ?thesis
      by (rule conc_inv_table [OF inv t, where q = ptr and v = None and p = "At_uncount 0 i sz k"])
         (use heap_shape_site [OF shape, of ptr i sz] in
           \<open>simp_all add: c' conc_defs pc k Some e in_alloc shard_get_remove [OF shape] heap_shape_remove [OF shape]\<close>)
  qed
qed

lemma advance_insert_inv:
  assumes inv: "conc_inv N c" and t: "t < N" and pc: "c_pc c t = At_insert i ips ptr sz"
    and step: "advance_pc (At_insert i ips ptr sz) t c = Some c'"
  shows "conc_inv N c'"
proof -
  obtain d where d: "site (c_state c) i = Some d" "cd_ips d = ips" using conc_inv_pc_ok [OF inv, of t] pc by auto
  note shape = conc_invD(2) [OF inv]
  have own: "pc_ptr (c_pc c t) = Some ptr" by (simp add: pc)
  have "c_live c ptr = None" using conc_invD(4) [OF inv] own unfolding owners_ok_def by blast
  moreover have "c_pc c u \<noteq> At_remove ptr k" for u k
  proof
    assume "c_pc c u = At_remove ptr k"
    moreover from this have "u = t" using conc_invD(4) [OF inv] own unfolding owners_ok_def by (metis pc_ptr.simps(6))
    ultimately show False using pc by simp
  qed
  ultimately have none: "shard_get (c_state c) ptr = None" using conc_invD(5) [OF inv] unfolding table_ok_def by blast
  have c': "c' = set_pc t Idle (set_in_alloc t False ((on_state (shard_insert ptr (i, sz)) c)
      \<lparr>c_live := (c_live c)(ptr \<mapsto> Some (ips, sz))\<rparr>))" using step by simp
  have "heap_abs (shard_insert ptr (i, sz) (c_state c)) ptr = Some (ips, sz)"
    by (simp add: heap_abs_shard_get shard_get_insert [OF shape] d)
  then show ?thesis
    by (intro conc_inv_table [OF inv t own, where v = "Some (i, sz)" and p = Idle])
       (simp_all add: c' conc_defs pc none shard_get_insert [OF shape] heap_shape_insert [OF shape d(1)])
qed

lemma advance_count_inv:
  assumes inv: "conc_inv N c" and t: "t < N" and pc: "c_pc c t = At_count k i ips ptr sz"
    and step: "advance_pc (At_count k i ips ptr sz) t c = Some c'"
  shows "conc_inv N c'"
proof -
  obtain d where d: "site (c_state c) i = Some d" "cd_ips d = ips" "k \<le> 3"
    using conc_inv_pc_ok [OF inv, of t] pc by auto
  have in_alloc: "tl_in_alloc (h_tls (c_heap c) t)" using conc_inv_tls [OF inv, of t] pc by simp
  define p where "p = (if k < 3 then At_count (k + 1) i ips ptr sz else At_insert i ips ptr sz)"
  define lock where "lock = (if k = 0 then lock_sites t else if k < 3 then (\<lambda>c. c) else unlock_sites t)"
  have c': "c' = set_pc t p (lock (on_state (update_callsite i (count_step k sz)) c))"
    using step d(1) by (simp add: p_def lock_def Let_def split: if_splits)
  show ?thesis
  proof (rule conc_inv_count [OF inv t, where i = i and f = "count_step k sz" and p = p])
    show "pc_ok c' t p" using d by (auto simp: c' p_def lock_def conc_defs site_update)
  qed (use d(3) in \<open>auto simp: c' p_def lock_def conc_defs pc in_alloc count_step_def\<close>)
qed

lemma advance_uncount_inv:
  assumes inv: "conc_inv N c" and t: "t < N" and pc: "c_pc c t = At_uncount n i sz k"
    and step: "advance_pc (At_uncount n i sz k) t c = Some c'"
  shows "conc_inv N c'"
proof -
  obtain d where d: "site (c_state c) i = Some d" "n \<le> 1"
    using conc_inv_pc_ok [OF inv, of t] pc by auto
  have in_alloc: "tl_in_alloc (h_tls (c_heap c) t)" using conc_inv_tls [OF inv, of t] pc by simp
  show ?thesis
  proof (cases "n = 0")
    case True
    with step d have c': "c' = set_pc t (At_uncount 1 i sz k) (lock_sites t (on_state (update_callsite i (uncount_step 0 sz)) c))"
      by simp
    show ?thesis
      by (rule conc_inv_count [OF inv t, where i = i and f = "uncount_step 0 sz" and p = "At_uncount 1 i sz k"])
         (use d in \<open>simp_all add: c' conc_defs pc in_alloc uncount_step_def site_update True\<close>)
  next
    case False
    with step d have c': "c' = dealloc_done t k (unlock_sites t (on_state (update_callsite i (uncount_step 1 sz)) c))"
      by (simp add: le_Suc_eq)
    show ?thesis
      by (rule conc_inv_count [OF inv t, where i = i and f = "uncount_step 1 sz" and p = "after_pc k"])
         (use d False in \<open>simp_all add: c' dealloc_done_facts, simp_all add: conc_defs pc in_alloc uncount_step_def\<close>)
  qed
qed

lemma advance_free_inv:
  assumes inv: "conc_inv N c" and t: "t < N" and pc: "c_pc c t = At_free ptr"
  shows "conc_inv N (set_pc t Idle (c\<lparr>c_inner := c_inner c - {ptr}\<rparr>))" (is "conc_inv N ?c")
proof -
  have pcs: "c_pc ?c = (c_pc c)(t := Idle)" by (simp add: set_pc_def)
  have st: "c_heap ?c = c_heap c" "c_live ?c = c_live c" "c_inner ?c = c_inner c - {ptr}" "c_priv ?c = c_priv c"
    "c_map_lock ?c = c_map_lock c" by (simp_all add: set_pc_def)
  note own = conc_invD(4) [OF inv, unfolded owners_ok_def]
  have ptr: "pc_ptr (c_pc c t) = Some ptr" by (simp add: pc)
  have excl: "pc_ptr (c_pc c u) \<noteq> Some ptr" if "u \<noteq> t" for u using own ptr that by blast
  have "owners_ok ?c"
    unfolding owners_ok_def st pcs using own ptr excl by (auto split: if_splits)
  moreover have "pcs_ok N ?c"
    by (rule pcs_ok_move [OF conc_invD(3) [OF inv] _ pcs _ t])
       (use conc_inv_tls [OF inv, of t] pc in \<open>simp_all add: st sites_kept_def\<close>)
  moreover have "c_pc ?c u = At_remove q k" if "c_pc c u = At_remove q k" for u q k
    using that pc by (auto simp: pcs)
  then have "table_ok ?c" using conc_invD(5) [OF inv] unfolding table_ok_def st by metis
  moreover have "counted N ?c"
    by (rule counted_move [OF conc_invD(6) [OF inv] t pcs]) (simp_all add: st pc)
  ultimately show ?thesis using conc_invD [OF inv] by (simp add: conc_inv_def st)
qed

text \<open>Every step of a thread keeps the invariant.\<close>

lemma advance_inv:
  assumes inv: "conc_inv N c" and room: "unat (hs_next_callsite_id (c_state c)) < 2 ^ 64 - 1"
    and step: "advance_pc (c_pc c t) t c = Some c'"
  shows "conc_inv N c'"
proof -
  have t: "t < N"
  proof (rule ccontr)
    assume "\<not> t < N"
    with conc_inv_idle [OF inv, of t] step show False by simp
  qed
  show ?thesis
  proof (cases "c_pc c t")
    case (At_lookup ips ptr sz)
    with step have "c' = set_pc t (case hm_get (=) (hs_callsite_map (c_state c)) ips of
        Some i \<Rightarrow> At_count 0 i ips ptr sz | None \<Rightarrow> At_create ips ptr sz) c"
      by (auto split: option.splits if_splits)
    with At_lookup heap_shape_map [OF conc_invD(2) [OF inv], of ips] show ?thesis
      by (auto intro!: conc_inv_set_pc [OF inv t] split: option.splits)
  next
    case (At_create ips ptr sz)
    show ?thesis
    proof (cases "hm_get (=) (hs_callsite_map (c_state c)) ips")
      case None
      with At_create step have "c_map_lock c = None" and c': "c' = set_pc t (At_new_site (hs_next_callsite_id (c_state c)) ips ptr sz)
          ((on_state (\<lambda>s. s\<lparr>hs_next_callsite_id := hs_next_callsite_id (c_state c) + 1\<rparr>) c)\<lparr>c_map_lock := Some t\<rparr>)"
        by (auto simp: Let_def split: if_splits)
      then show ?thesis unfolding c' by (intro conc_inv_next_id [OF inv t At_create _ None room])
    next
      case (Some i)
      with At_create step have c': "c' = set_pc t (At_count 0 i ips ptr sz) c" by (auto split: if_splits)
      show ?thesis
        unfolding c' using heap_shape_map [OF conc_invD(2) [OF inv], of ips i] Some
        by (intro conc_inv_set_pc [OF inv t]) (auto simp: At_create)
    qed
  next
    case (At_new_site i ips ptr sz)
    with step conc_inv_new_site [OF inv t At_new_site] show ?thesis by (auto split: if_splits)
  next
    case (At_reset k)
    with conc_inv_pc_ok [OF inv, of t] show ?thesis by simp
  qed (use step advance_count_inv [OF inv t] advance_uncount_inv [OF inv t] advance_remove_inv [OF inv t]
        advance_insert_inv [OF inv t] advance_free_inv [OF inv t] in \<open>auto simp del: advance_pc.simps(5-8)\<close>)
qed

text \<open>A call takes a block over; the heap state does not change yet.\<close>

lemma conc_inv_call:
  assumes inv: "conc_inv N c" and t: "t < N" and idle: "c_pc c t = Idle"
    and pc: "c_pc c' = (c_pc c)(t := p)" "pc_ok c' t p" "\<And>i. owed_objects i p = 0" "\<And>i. owed_bytes i p = 0"
    and same: "c_state c' = c_state c" "c_map_lock c' = c_map_lock c" "h_profiling (c_heap c') = h_profiling (c_heap c)"
    and tls: "\<And>u. u \<noteq> t \<Longrightarrow> h_tls (c_heap c') u = h_tls (c_heap c) u"
      "tl_in_alloc (h_tls (c_heap c') t) \<longleftrightarrow> p \<noteq> Idle \<and> (\<forall>q. p \<noteq> At_free q)"
    and ok: "owners_ok c'" "table_ok c'"
  shows "conc_inv N c'"
proof -
  have "pcs_ok N c'"
    by (rule pcs_ok_move [OF conc_invD(3) [OF inv] _ pc(1,2) t tls]) (auto simp: sites_kept_def same)
  moreover have "counted N c'"
    by (rule counted_move [OF conc_invD(6) [OF inv] t pc(1)]) (simp_all add: same pc idle)
  ultimately show ?thesis using conc_invD(1,2) [OF inv] ok by (simp add: conc_inv_def same)
qed

lemma unused_block:
  assumes "conc_inv N c" and "p \<notin> c_inner c"
  shows "shard_get (c_state c) p = None" "pc_ptr (c_pc c t) \<noteq> Some p" "c_live c p = None" "p \<notin> c_priv c"
proof -
  note own = conc_invD(4) [OF assms(1), unfolded owners_ok_def]
  show no: "pc_ptr (c_pc c t) \<noteq> Some p" "c_live c p = None" "p \<notin> c_priv c" for t using own assms(2) by blast+
  have "c_pc c u \<noteq> At_remove p k" for u k using no(1) [of u] by (metis pc_ptr.simps(6))
  with no(2) conc_invD(5) [OF assms(1)] show "shard_get (c_state c) p = None" unfolding table_ok_def by blast
qed

lemma idle_not_in_alloc: "conc_inv N c \<Longrightarrow> c_pc c t = Idle \<Longrightarrow> \<not> tl_in_alloc (h_tls (c_heap c) t)"
  by (simp add: conc_inv_tls)

lemma conc_alloc_inv:
  assumes inv: "conc_inv N c" and t: "t < N" and idle: "c_pc c t = Idle" and new: "ptr \<notin> c_inner c"
  shows "conc_inv N (conc_alloc cfg t frames ptr sz c)"
proof -
  note own = conc_invD(4) [OF inv, unfolded owners_ok_def]
  note tab = conc_invD(5) [OF inv, unfolded table_ok_def]
  note un = unused_block [OF inv new]
  have on: "h_profiling (c_heap c)" by (rule conc_invD(1) [OF inv])
  show ?thesis
  proof (cases "sint (tl_bytes_left (h_tls (c_heap c) t) - sz) \<le> 0")
    case True
    let ?p = "At_lookup (trace_ips (MAX_DEPTH cfg) frames []) ptr sz"
    let ?c = "conc_alloc cfg t frames ptr sz c"
    have c: "c_pc ?c = (c_pc c)(t := ?p)" "c_live ?c = c_live c" "c_inner ?c = insert ptr (c_inner c)" "c_priv ?c = c_priv c"
      "c_state ?c = c_state c"
      using True on by (simp_all add: conc_alloc_def Let_def conc_defs)
    show ?thesis
    proof (rule conc_inv_call [OF inv t idle, where p = ?p])
      show "owners_ok ?c" unfolding owners_ok_def c using own un by (auto split: if_splits)
      have "c_pc ?c u = At_remove q k" if "c_pc c u = At_remove q k" for u q k using that idle by (auto simp: c)
      then show "table_ok ?c" unfolding table_ok_def c(2,5) using tab by metis
    qed (use True on in \<open>simp_all add: conc_alloc_def Let_def conc_defs\<close>)
  next
    case False
    let ?c = "conc_alloc cfg t frames ptr sz c"
    have c: "c_pc ?c = c_pc c" "c_live ?c = (c_live c)(ptr \<mapsto> None)" "c_inner ?c = insert ptr (c_inner c)" "c_priv ?c = c_priv c"
      "c_state ?c = c_state c"
      using False on by (simp_all add: conc_alloc_def Let_def conc_defs)
    show ?thesis
    proof (rule conc_inv_call [OF inv t idle, where p = Idle])
      show "owners_ok ?c" unfolding owners_ok_def c using own un by auto
      have "heap_abs (c_state c) ptr = None" using un(1) by (simp add: heap_abs_shard_get)
      then show "table_ok ?c" unfolding table_ok_def c using tab by auto
    qed (use False on idle idle_not_in_alloc [OF inv idle] in \<open>simp_all add: conc_alloc_def Let_def conc_defs fun_upd_idem\<close>)
  qed
qed

text \<open>The start of \<^verbatim>\<open>dealloc\<close> and of a reallocation in place.\<close>

lemma give_up_block_inv:
  assumes inv: "conc_inv N c" and t: "t < N" and idle: "c_pc c t = Idle" and live: "c_live c ptr \<noteq> None"
    and k: "after_ptr k = ptr" and inner: "c_inner c' = c_inner c"
    and c': "c_pc c' = (c_pc c)(t := At_remove ptr k)" "c_live c' = (c_live c)(ptr := None)" "c_priv c' = c_priv c"
      "c_heap c' = set_tls t ((h_tls (c_heap c) t)\<lparr>tl_in_alloc := True\<rparr>) (c_heap c)" "c_map_lock c' = c_map_lock c"
  shows "conc_inv N c'"
proof (rule conc_inv_call [OF inv t idle, where p = "At_remove ptr k"])
  note own = conc_invD(4) [OF inv, unfolded owners_ok_def]
  have "pc_ptr (c_pc c u) \<noteq> Some ptr" for u using own live by fastforce
  then show "owners_ok c'" unfolding owners_ok_def c' inner using own live by (auto split: if_splits)
  have st: "c_state c' = c_state c" by (simp add: c' set_tls_def)
  have "c_pc c' u = At_remove q n" if "c_pc c u = At_remove q n" for u q n using that idle by (auto simp: c')
  moreover have "c_pc c' t = At_remove ptr k" by (simp add: c')
  ultimately have "c_live c' q \<noteq> None \<or> (\<exists>u n. c_pc c' u = At_remove q n)"
    if "c_live c q \<noteq> None \<or> (\<exists>u n. c_pc c u = At_remove q n)" for q
    using that by (cases "q = ptr") (blast, simp add: c'(2), blast)
  then show "table_ok c'"
    using conc_invD(5) [OF inv] unfolding table_ok_def st by (simp add: c'(2))
qed (use k in \<open>simp_all add: c' set_tls_def\<close>)

lemma conc_dealloc_inv:
  assumes "conc_inv N c" and "t < N" and "c_pc c t = Idle" and "c_live c ptr \<noteq> None"
  shows "conc_inv N (conc_dealloc t ptr c)"
  by (rule give_up_block_inv [OF assms, where k = "Then_free ptr"])
     (use conc_invD(1) [OF assms(1)] in \<open>simp_all add: conc_dealloc_def conc_defs Let_def\<close>)

lemma conc_realloc_inv:
  assumes "conc_inv N c" and "t < N" and "c_pc c t = Idle" and "c_live c ptr \<noteq> None"
  shows "conc_inv N (conc_realloc cfg t frames ptr ptr sz c)"
proof -
  have "ptr \<in> c_inner c" using conc_invD(4) [OF assms(1)] assms(4) unfolding owners_ok_def by blast
  then show ?thesis
    by (intro give_up_block_inv [OF assms, where k = "Then_sample (trace_ips (MAX_DEPTH cfg) frames []) ptr sz"])
       (use conc_invD(1) [OF assms(1)] in \<open>simp_all add: conc_realloc_def conc_defs Let_def insert_absorb\<close>)
qed

lemma conc_inv_frame:
  assumes inv: "conc_inv N c" and same: "c_pc c' = c_pc c" "c_state c' = c_state c" "c_live c' = c_live c" "c_map_lock c' = c_map_lock c"
    "h_profiling (c_heap c')" "h_tls (c_heap c') = h_tls (c_heap c)" and own: "owners_ok c'"
  shows "conc_inv N c'"
proof -
  have "pc_ok c' t p = pc_ok c t p" for t p by (cases p) (simp_all add: same)
  then have "pcs_ok N c'" using conc_invD(3) [OF inv] by (simp add: pcs_ok_def same)
  moreover have "counted N c'" using conc_invD(6) [OF inv] by (simp add: counted_def same owed_sum_def)
  moreover have "table_ok c'" using conc_invD(5) [OF inv] by (simp add: table_ok_def same)
  ultimately show ?thesis using own conc_invD(2) [OF inv] by (simp add: conc_inv_def same)
qed

lemma conc_step_inv:
  assumes inv: "conc_inv N c" and "calm a" and t: "action_thread a < N"
    and room: "unat (hs_next_callsite_id (c_state c)) < 2 ^ 64 - 1" and step: "conc_step cfg a c = Some c'"
  shows "conc_inv N c'"
proof (cases a)
  case (Call_alloc t frames ptr sz)
  with assms show ?thesis by (auto intro: conc_alloc_inv split: if_splits)
next
  case (Call_dealloc t ptr)
  with assms show ?thesis by (auto intro: conc_dealloc_inv split: if_splits)
next
  case (Call_realloc t frames ptr new_ptr sz)
  with assms show ?thesis by (auto intro: conc_realloc_inv split: if_splits)
next
  case (Nested_alloc t ptr)
  then have new: "ptr \<notin> c_inner c" and c': "c' = c\<lparr>c_inner := insert ptr (c_inner c), c_priv := insert ptr (c_priv c)\<rparr>"
    using step by (auto split: if_splits)
  have "owners_ok c'"
    using conc_invD(4) [OF inv] unused_block [OF inv new] unfolding owners_ok_def c' by auto
  then show ?thesis by (intro conc_inv_frame [OF inv]) (simp_all add: c' conc_invD(1) [OF inv])
next
  case (Nested_free t ptr)
  then have priv: "ptr \<in> c_priv c" and c': "c' = c\<lparr>c_inner := c_inner c - {ptr}, c_priv := c_priv c - {ptr}\<rparr>"
    using step by (auto split: if_splits)
  have "owners_ok c'" using conc_invD(4) [OF inv] priv unfolding owners_ok_def c' by auto
  then show ?thesis by (intro conc_inv_frame [OF inv]) (simp_all add: c' conc_invD(1) [OF inv])
next
  case (Step t)
  with step advance_inv [OF inv room] show ?thesis by simp
qed (use assms(2) step conc_invD(1,4) [OF inv] in
     \<open>auto intro!: conc_inv_frame [OF inv] simp: conc_defs set_sample_rate_def owners_ok_def split: if_splits\<close>)

section \<open>Schedules keep the invariant\<close>

lemma conc_step_next_id:
  assumes "conc_step cfg a c = Some c'" and "calm a" and "conc_inv N c" and "unat (hs_next_callsite_id (c_state c)) < 2 ^ 64 - 1"
  shows "unat (hs_next_callsite_id (c_state c')) \<le> Suc (unat (hs_next_callsite_id (c_state c)))"
proof (cases a)
  case (Step t)
  have "unat (hs_next_callsite_id (c_state c) + 1) \<le> Suc (unat (hs_next_callsite_id (c_state c)))"
    using assms(4) by (simp add: unat_word_ariths)
  with assms(1) Step show ?thesis
    using conc_inv_pc_ok [OF assms(3), of t]
    by (cases "c_pc c t")
       (auto simp: conc_defs Let_def dealloc_done_facts new_site_def split: if_splits option.splits)
qed (use assms(1,2) in \<open>auto simp: conc_alloc_def conc_dealloc_def conc_realloc_def conc_defs Let_def set_sample_rate_def
       split: if_splits\<close>)

text \<open>The bound keeps the numbers of call sites from wrapping around.\<close>

definition inv_with_room :: "nat \<Rightarrow> nat \<Rightarrow> conc \<Rightarrow> bool" where
  "inv_with_room N n c \<longleftrightarrow> conc_inv N c \<and> unat (hs_next_callsite_id (c_state c)) + n < 2 ^ 64"

interpretation exact: schedule_invariant "conc_step cfg" "\<lambda>a. calm a \<and> action_thread a < N" "inv_with_room N" for cfg N
proof
  fix n c a c'
  assume inv: "inv_with_room N (Suc n) c" and ok: "calm a \<and> action_thread a < N" and step: "conc_step cfg a c = Some c'"
  then have room: "unat (hs_next_callsite_id (c_state c)) < 2 ^ 64 - 1" and c: "conc_inv N c" by (simp_all add: inv_with_room_def)
  have "conc_inv N c'" using conc_step_inv [OF c _ _ room step] ok by simp
  moreover have "unat (hs_next_callsite_id (c_state c')) \<le> Suc (unat (hs_next_callsite_id (c_state c)))"
    using conc_step_next_id [OF step _ c room] ok by simp
  ultimately show "inv_with_room N n c'" using inv by (simp add: inv_with_room_def)
qed

lemma conc_init_inv: "conc_inv N (conc_init (alloc_start heap_init))"
proof -
  have "heap_shape HeapState_new" using HeapState_new_inv by (simp add: heap_inv_shape)
  moreover have "shard_get HeapState_new p = None" for p
    using shard_idx_less [of p] by (simp add: shard_get_def HeapState_new_def)
  ultimately show ?thesis
    by (simp add: conc_inv_def conc_init_def alloc_start_def heap_init_def pcs_ok_def owners_ok_def table_ok_def counted_def)
       (simp add: HeapState_new_def)
qed

lemma owed_sum_extend:
  assumes "\<forall>t \<ge> N. c_pc c t = Idle" and "\<forall>t \<ge> M. c_pc c t = Idle" and "f Idle = 0"
  shows "owed_sum N f c = owed_sum M f c"
proof -
  have "owed_sum K f c = owed_sum (min N M) f c" if "K = N \<or> K = M" for K
    unfolding owed_sum_def
    by (rule sum.mono_neutral_right) (use that assms in \<open>auto simp: not_less\<close>)
  then show ?thesis by metis
qed

text \<open>The table's sums by call site are the number and the size of the blocks with the site's stack.\<close>

lemma table_sum_blocks:
  assumes shape: "heap_shape s" and d: "site s i = Some d"
  shows "table_sum (entry_objects i) s = of_nat (card (blocks (heap_abs s) (cd_ips d)))"
    and "table_sum (entry_bytes i) s = block_bytes (heap_abs s) (blocks (heap_abs s) (cd_ips d))"
proof -
  let ?B = "blocks (heap_abs s) (cd_ips d)"
  have abs: "heap_abs s p = Some (cd_ips d, sz) \<longleftrightarrow> shard_get s p = Some (i, sz)" for p sz
  proof
    assume "heap_abs s p = Some (cd_ips d, sz)"
    then obtain j e where j: "shard_get s p = Some (j, sz)" "site s j = Some e" "cd_ips e = cd_ips d"
      by (auto simp: heap_abs_shard_get split: option.splits)
    then have "hm_get (=) (hs_callsite_map s) (cd_ips d) = Some j" "hm_get (=) (hs_callsite_map s) (cd_ips d) = Some i"
      using heap_shape_map [OF shape] d by blast+
    with j show "shard_get s p = Some (i, sz)" by simp
  qed (simp add: heap_abs_shard_get d)
  have obj: "entry_objects i (shard_get s p) = (if p \<in> ?B then 1 else 0)" for p
    using abs by (cases "shard_get s p") (auto simp: blocks_def)
  have byt: "entry_bytes i (shard_get s p) = (if p \<in> ?B then snd (the (heap_abs s p)) else 0)" for p
  proof (cases "p \<in> ?B")
    case True
    then obtain sz where "heap_abs s p = Some (cd_ips d, sz)" by (auto simp: blocks_def)
    with abs [of p sz] True show ?thesis by simp
  next
    case False
    then show ?thesis using abs by (cases "shard_get s p") (auto simp: blocks_def)
  qed
  show "table_sum (entry_objects i) s = of_nat (card ?B)"
    unfolding table_sum_def obj by (simp add: sum.If_cases)
  show "table_sum (entry_bytes i) s = block_bytes (heap_abs s) ?B"
    unfolding table_sum_def byt block_bytes_def by (simp add: sum.If_cases)
qed

lemma quiescent_heap_inv:
  assumes "conc_inv N c" and "quiescent c"
  shows "heap_inv (c_state c)"
    and "heap_abs (c_state c) = (\<lambda>p. case c_live c p of Some g \<Rightarrow> g | None \<Rightarrow> None)"
    and "heap_ready (c_heap c)"
proof -
  note shape = conc_invD(2) [OF assms(1)]
  have owed: "owed_sum N f c = 0" if "f Idle = 0" for f using that assms(2) by (simp add: owed_sum_def quiescent_def)
  have "counters_ok (heap_abs (c_state c)) d" if "site (c_state c) i = Some d" for i d
    using conc_invD(6) [OF assms(1)] that table_sum_blocks [OF shape that] owed [of "owed_objects i"] owed [of "owed_bytes i"]
    unfolding counted_def counters_ok_def by simp
  with shape show "heap_inv (c_state c)" by (simp add: heap_inv_shape)
  show "heap_abs (c_state c) = (\<lambda>p. case c_live c p of Some g \<Rightarrow> g | None \<Rightarrow> None)"
  proof
    fix p
    have "shard_get (c_state c) p = None" if "c_live c p = None"
      using conc_invD(5) [OF assms(1)] that assms(2) unfolding table_ok_def quiescent_def by (metis pc.distinct(11))
    then show "heap_abs (c_state c) p = (case c_live c p of Some g \<Rightarrow> g | None \<Rightarrow> None)"
      using conc_invD(5) [OF assms(1)] unfolding table_ok_def by (auto simp: heap_abs_shard_get split: option.splits)
  qed
  show "heap_ready (c_heap c)"
    using conc_invD(1) [OF assms(1)] conc_inv_tls [OF assms(1)] assms(2) by (simp add: heap_ready_def quiescent_def)
qed

section \<open>Properties\<close>

lemma calm_run_exact:
  assumes "conc_run cfg sched (conc_init (alloc_start heap_init)) = Some c" and "\<forall>a \<in> set sched. calm a"
    and "length sched < 2 ^ 63"
  shows "(\<forall>p g. c_live c p = Some g \<longrightarrow> heap_abs (c_state c) p = g) \<and>
    (\<forall>N. (\<forall>t \<ge> N. c_pc c t = Idle) \<longrightarrow> counted N c) \<and>
    (quiescent c \<longrightarrow> heap_ready (c_heap c) \<and> heap_inv (c_state c) \<and>
       heap_abs (c_state c) = (\<lambda>p. case c_live c p of Some g \<Rightarrow> g | None \<Rightarrow> None))"
proof -
  obtain M where M: "\<forall>t \<in> action_thread ` set sched. t < M"
    using finite_nat_set_iff_bounded [of "action_thread ` set sched"] by auto
  have "inv_with_room M (0 + length sched) (conc_init (alloc_start heap_init))"
    using assms(3) conc_init_inv by (simp add: inv_with_room_def conc_init_def alloc_start_def heap_init_def HeapState_new_def)
  with assms M have "inv_with_room M 0 c" by (intro exact.run_inv [OF assms(1) [unfolded conc_run_def]]) auto
  then have inv: "conc_inv M c" by (simp add: inv_with_room_def)
  have "counted N c" if "\<forall>t \<ge> N. c_pc c t = Idle" for N
  proof -
    have "owed_sum N f c = owed_sum M f c" if "f Idle = 0" for f
      using owed_sum_extend [of N c M f] conc_inv_idle [OF inv] that \<open>\<forall>t \<ge> N. c_pc c t = Idle\<close> by blast
    then show ?thesis using conc_invD(6) [OF inv] by (simp add: counted_def)
  qed
  with quiescent_heap_inv [OF inv] conc_invD(5) [OF inv] show ?thesis unfolding table_ok_def by blast
qed

text \<open>
  C12. The heap profile is exact under any interleaving of threads that allocate, free and reallocate in place. After any schedule of
  fewer than \<open>2 ^ 63\<close> steps, with reports taken at any time: a block of the program is in the table exactly when its allocation was
  sampled, with its stack and size; at every moment the in-use counters of a call site are what the table holds plus what
  the threads inside a hook still have to enter or to subtract; and whenever no thread is inside a hook, the sequential
  invariant holds, so that the counters are exact and the table is the map of the live sampled blocks.
\<close>

theorem concurrent_heap_exact:
  assumes "conc_run cfg sched (conc_init (alloc_start heap_init)) = Some c" and "\<forall>a \<in> set sched. calm a"
    and "length sched < 2 ^ 63"
  shows "(\<forall>p g. c_live c p = Some g \<longrightarrow> heap_abs (c_state c) p = g) \<and>
    (\<forall>N. (\<forall>t \<ge> N. c_pc c t = Idle) \<longrightarrow> counted N c) \<and>
    (quiescent c \<longrightarrow> heap_ready (c_heap c) \<and> heap_inv (c_state c) \<and>
       heap_abs (c_state c) = (\<lambda>p. case c_live c p of Some g \<Rightarrow> g | None \<Rightarrow> None))"
  by (rule calm_run_exact [OF assms])

definition demo_sched :: "action list" where
  "demo_sched =
     [Call_alloc 0 [1, 2] 0x1000 100, Call_alloc 1 [1, 2] 0x2000 50, Step 0, Step 1, Step 0, Step 0, Step 1, Step 1, Step 0, Step 1,
      Step 0, Step 1, Step 1, Step 0, Step 0, Step 1, Step 0, Report_begin 2, Call_dealloc 1 0x1000, Step 1, Step 1, Step 1, Step 1,
      Report_end 2]"

theorem concurrent_heap_exact_witness:
  "\<exists>c. conc_run default_config demo_sched (conc_init (alloc_start heap_init)) = Some c \<and> quiescent c \<and> heap_inv (c_state c) \<and>
     heap_abs (c_state c) 0x2000 = Some ([1, 2], 50) \<and> heap_abs (c_state c) 0x1000 = None"
proof -
  let ?run = "conc_run default_config demo_sched (conc_init (alloc_start heap_init))"
  have run: "map_option (\<lambda>c. (c_live c 0x2000, c_live c 0x1000, map (c_pc c) [0, 1, 2])) ?run =
      Some (Some (Some ([1, 2], 50)), None, [Idle, Idle, Idle])" by code_simp
  then obtain c where c: "?run = Some c" "c_live c 0x2000 = Some (Some ([1, 2], 50))" "c_live c 0x1000 = None"
    "map (c_pc c) [0, 1, 2] = [Idle, Idle, Idle]" by auto
  have "list_all (\<lambda>a. action_thread a \<in> set [0, 1, 2]) demo_sched" by code_simp
  then have "quiescent c" by (rule conc_run_quiescent [OF c(1)]) (use c(4) in simp)
  moreover have "\<forall>a \<in> set demo_sched. calm a" "length demo_sched < 2 ^ 63" by (simp_all add: demo_sched_def)
  ultimately show ?thesis using concurrent_heap_exact [OF c(1)] c by simp
qed

text \<open>The steps of a whole sampled allocation with a new call site, and of a whole \<^verbatim>\<open>reset\<close>.\<close>

definition whole_alloc :: "nat \<Rightarrow> usize list \<Rightarrow> usize \<Rightarrow> usize \<Rightarrow> action list" where
  "whole_alloc t frames ptr sz = Call_alloc t frames ptr sz # replicate 8 (Step t)"

definition whole_reset :: "nat \<Rightarrow> action list" where
  "whole_reset t = Call_reset t # replicate (NUM_SHARDS + 3) (Step t)"

definition realloc_race :: "action list" where
  "realloc_race = whole_alloc 0 [1, 2] 0x1000 100 @ [Call_realloc 0 [1, 2] 0x1000 0x3000 200] @
     whole_alloc 1 [7] 0x1000 64 @ replicate 9 (Step 0)"

text \<open>
  C25. A reallocation that moves its block can delete the record of another thread's block. \<^verbatim>\<open>realloc\<close> calls the wrapped allocator,
  which frees the old address, before it deletes the old address from the table: in this schedule another thread is given that
  address and records its block there, and the first thread then deletes that record and subtracts it from the other call
  site. In the end no hook is running, two blocks of 200 and 64 bytes are live, both sampled; but the block of 64 bytes is
  not in the table, its call site shows 0 bytes, and the call site of the reallocated block shows 300 bytes.
\<close>

theorem realloc_race_loses_block:
  "\<exists>c. conc_run default_config realloc_race (conc_init (alloc_start heap_init)) = Some c \<and> quiescent c \<and>
     c_live c 0x1000 = Some (Some ([7], 64)) \<and> heap_abs (c_state c) 0x1000 = None \<and>
     c_live c 0x3000 = Some (Some ([1, 2], 200)) \<and>
     map (\<lambda>e. (cd_ips (snd e), cd_inuse_objects (snd e), cd_inuse_bytes (snd e))) (hs_callsites (c_state c)) =
       [([1, 2], 2, 300), ([7], 0, 0)]"
proof -
  let ?run = "conc_run default_config realloc_race (conc_init (alloc_start heap_init))"
  have "map_option (\<lambda>c. (c_live c 0x1000, heap_abs (c_state c) 0x1000, c_live c 0x3000,
      map (\<lambda>e. (cd_ips (snd e), cd_inuse_objects (snd e), cd_inuse_bytes (snd e))) (hs_callsites (c_state c)), map (c_pc c) [0, 1])) ?run =
    Some (Some (Some ([7], 64)), None, Some (Some ([1, 2], 200)), [([1, 2], 2, 300), ([7], 0, 0)], [Idle, Idle])"
    by code_simp
  then obtain c where c: "?run = Some c" "c_live c 0x1000 = Some (Some ([7], 64))" "heap_abs (c_state c) 0x1000 = None"
    "c_live c 0x3000 = Some (Some ([1, 2], 200))"
    "map (\<lambda>e. (cd_ips (snd e), cd_inuse_objects (snd e), cd_inuse_bytes (snd e))) (hs_callsites (c_state c)) =
       [([1, 2], 2, 300), ([7], 0, 0)]" "map (c_pc c) [0, 1] = [Idle, Idle]"
    by auto
  have "list_all (\<lambda>a. action_thread a \<in> set [0, 1]) realloc_race" by code_simp
  then have "quiescent c" by (rule conc_run_quiescent [OF c(1)]) (use c(6) in simp)
  with c(1-5) show ?thesis by (intro exI [of _ c] conjI)
qed

definition reset_race :: "action list" where
  "reset_race = butlast (whole_alloc 0 [1, 2] 0x1000 100) @ whole_reset 1 @ [Step 0] @ whole_alloc 1 [7] 0x2000 50 @
     Call_dealloc 0 0x1000 # replicate 4 (Step 0)"

text \<open>
  C26. \<^verbatim>\<open>reset\<close> is not safe against a hook in another thread. It empties the call sites and starts their numbers again at 1, while a
  thread between \<^verbatim>\<open>callsites\<close> and its shard still holds a number of before: in this schedule the stale number is entered in the
  table and given again to another call site, from which the block's deallocation is then subtracted. In the end no hook
  is running, one block of 50 bytes is live and sampled, and its call site shows 0 objects and -50 bytes.
\<close>

theorem reset_race_corrupts:
  "\<exists>c. conc_run default_config reset_race (conc_init (alloc_start heap_init)) = Some c \<and> quiescent c \<and>
     c_live c 0x2000 = Some (Some ([7], 50)) \<and> heap_abs (c_state c) 0x2000 = Some ([7], 50) \<and> c_live c 0x1000 = None \<and>
     map (\<lambda>e. (cd_ips (snd e), cd_inuse_objects (snd e), cd_inuse_bytes (snd e))) (hs_callsites (c_state c)) = [([7], 0, -50)]"
proof -
  let ?run = "conc_run default_config reset_race (conc_init (alloc_start heap_init))"
  have "map_option (\<lambda>c. (c_live c 0x2000, heap_abs (c_state c) 0x2000, c_live c 0x1000,
      map (\<lambda>e. (cd_ips (snd e), cd_inuse_objects (snd e), cd_inuse_bytes (snd e))) (hs_callsites (c_state c)), map (c_pc c) [0, 1])) ?run =
    Some (Some (Some ([7], 50)), Some ([7], 50), None, [([7], 0, -50)], [Idle, Idle])"
    by code_simp
  then obtain c where c: "?run = Some c" "c_live c 0x2000 = Some (Some ([7], 50))" "heap_abs (c_state c) 0x2000 = Some ([7], 50)"
    "c_live c 0x1000 = None"
    "map (\<lambda>e. (cd_ips (snd e), cd_inuse_objects (snd e), cd_inuse_bytes (snd e))) (hs_callsites (c_state c)) = [([7], 0, -50)]"
    "map (c_pc c) [0, 1] = [Idle, Idle]"
    by auto
  have "list_all (\<lambda>a. action_thread a \<in> set [0, 1]) reset_race" by code_simp
  then have "quiescent c" by (rule conc_run_quiescent [OF c(1)]) (use c(6) in simp)
  with c(1-5) show ?thesis by (intro exI [of _ c] conjI)
qed

lemma record_sample_shard:
  "record_sample cfg frames ptr sz s =
     shard_insert ptr (snd (callsite_of s (site_ips cfg frames)), sz)
       (update_callsite (snd (callsite_of s (site_ips cfg frames))) (count_all sz) (fst (callsite_of s (site_ips cfg frames))))"
  by (simp add: record_sample_def shard_insert_def count_all_def [abs_def] trace_ips_site split_beta Let_def)

text \<open>Entering a block at an address that the table still has: the old call site keeps it in its counters.\<close>

lemma record_sample_again:
  fixes n :: usize
  assumes inv: "heap_inv s" and room: "unat (hs_next_callsite_id s) < 2 ^ 64 - 1"
    and old: "heap_abs s ptr = Some (ips, sz)" and other: "site_ips cfg frames \<noteq> ips"
  defines "s' \<equiv> record_sample cfg frames ptr n s"
  shows "heap_abs s' = (heap_abs s)(ptr \<mapsto> (site_ips cfg frames, n))"
    and "\<exists>j d. site s' j = Some d \<and> cd_ips d = ips \<and>
      cd_inuse_objects d = of_nat (card (blocks (heap_abs s') ips)) + 1 \<and>
      cd_inuse_bytes d = block_bytes (heap_abs s') (blocks (heap_abs s') ips) + sz"
proof -
  obtain s1 i e where 1: "callsite_of s (site_ips cfg frames) = (s1, i)" "heap_inv s1" "heap_abs s1 = heap_abs s"
    "site s1 i = Some e" "cd_ips e = site_ips cfg frames"
    using callsite_of_spec [OF inv room, of "site_ips cfg frames"] by metis
  have s': "s' = shard_insert ptr (i, n) (update_callsite i (count_all n) s1)"
    by (simp add: s'_def record_sample_shard 1(1))
  have shape: "heap_shape s1" using 1(2) by (simp add: heap_inv_shape)
  have ips_kept: "cd_ips (count_all n d) = cd_ips d" for d by (simp add: count_all_def)
  have shape2: "heap_shape (update_callsite i (count_all n) s1)" by (rule heap_shape_update [OF shape ips_kept])
  show abs: "heap_abs s' = (heap_abs s)(ptr \<mapsto> (site_ips cfg frames, n))"
  proof
    fix p
    show "heap_abs s' p = ((heap_abs s)(ptr \<mapsto> (site_ips cfg frames, n))) p"
      unfolding s' 1(3) [symmetric]
      by (auto simp: heap_abs_shard_get shard_get_insert [OF shape2] site_update 1(4,5) ips_kept split: option.splits)
  qed
  obtain j d where d: "site s1 j = Some d" "cd_ips d = ips"
    using old unfolding 1(3) [symmetric] by (auto simp: heap_abs_shard_get split: option.splits)
  have "j \<noteq> i" using d 1(4,5) other by auto
  then have site: "site s' j = Some d" by (simp add: s' site_update d)
  let ?d = "d\<lparr>cd_inuse_objects := cd_inuse_objects d - 1, cd_inuse_bytes := cd_inuse_bytes d - sz\<rparr>"
  have "counters_ok (heap_abs s) d" using 1(2,3) d(1) by (simp add: heap_inv_shape)
  then have "counters_ok ((heap_abs s)(ptr := None)) ?d"
    using old d(2) finite_blocks by (intro counters_remove) simp_all
  then have "counters_ok (heap_abs s') ?d"
    by (rule counters_other [where p = ptr]) (use d(2) other in \<open>auto simp: abs\<close>)
  then have "cd_inuse_objects d = of_nat (card (blocks (heap_abs s') ips)) + 1"
    "cd_inuse_bytes d = block_bytes (heap_abs s') (blocks (heap_abs s') ips) + sz"
    using d(2) by (simp_all add: counters_ok_def algebra_simps)
  with site d(2) show "\<exists>j d. site s' j = Some d \<and> cd_ips d = ips \<and>
      cd_inuse_objects d = of_nat (card (blocks (heap_abs s') ips)) + 1 \<and>
      cd_inuse_bytes d = block_bytes (heap_abs s') (blocks (heap_abs s') ips) + sz" by blast
qed

text \<open>
  C27. What is freed while profiling is stopped stays in use for ever. \<^verbatim>\<open>dealloc\<close> looks at the table only while profiling is on: after
  \<^verbatim>\<open>stop\<close>, \<^verbatim>\<open>dealloc\<close> and \<^verbatim>\<open>start\<close> the profiler is exactly in the state of before, with the freed block in the table. When the
  allocator hands the address out again and that allocation is sampled at another call site, its entry replaces the old one without
  any subtraction: from then on the counters of the old call site are one object and the size of the freed block too high.
\<close>

theorem freed_while_stopped:
  assumes "heap_ready h" and "heap_inv (h_state h)" and "unat (hs_next_callsite_id (h_state h)) < 2 ^ 64 - 1"
    and "heap_abs (h_state h) ptr = Some (ips, sz)" and "ptr \<noteq> 0" and "sampled h tid n" and "site_ips cfg frames \<noteq> ips"
  shows "let h1 = alloc_start (AllocProfiler_dealloc tid ptr (alloc_stop h));
      h2 = snd (AllocProfiler_alloc cfg tid frames ptr n h1); m = heap_abs (h_state h2)
    in h1 = h \<and> m = (heap_abs (h_state h))(ptr \<mapsto> (site_ips cfg frames, n)) \<and>
      (\<exists>j d. site (h_state h2) j = Some d \<and> cd_ips d = ips \<and> cd_inuse_objects d = of_nat (card (blocks m ips)) + 1 \<and>
         cd_inuse_bytes d = block_bytes m (blocks m ips) + sz)"
proof -
  have same: "alloc_start (AllocProfiler_dealloc tid ptr (alloc_stop h)) = h"
    using assms(1) by (simp add: AllocProfiler_dealloc_def alloc_stop_def alloc_start_def heap_ready_def)
  have "h_state (snd (AllocProfiler_alloc cfg tid frames ptr n h)) = record_sample cfg frames ptr n (h_state h)"
    using assms(1,5,6) by (simp add: hook_defs)
  then show ?thesis using record_sample_again [OF assms(2-4,7)] by (simp add: same Let_def)
qed

theorem freed_while_stopped_witness:
  "let h = snd (AllocProfiler_alloc default_config 0 [1] 0x1000 64 (alloc_start heap_init));
       h1 = alloc_start (AllocProfiler_dealloc 1 0x1000 (alloc_stop h))
   in h1 = h \<and> heap_abs (h_state h1) 0x1000 = Some ([1], 64) \<and>
      heap_abs (h_state (snd (AllocProfiler_alloc default_config 1 [2] 0x1000 32 h1))) 0x1000 = Some ([2], 32)"
proof -
  let ?h = "snd (AllocProfiler_alloc default_config 0 [1] 0x1000 64 (alloc_start heap_init))"
  have st: "h_state ?h = record_sample default_config [1] 0x1000 64 HeapState_new"
    by (simp add: hook_defs alloc_start_def heap_init_def)
  have room: "unat (hs_next_callsite_id HeapState_new) < 2 ^ 64 - 1" by (simp add: HeapState_new_def)
  have ips: "site_ips default_config [x] = [x]" for x by (simp add: site_ips_def MAX_DEPTH_def default_config_def)
  note spec = record_sample_spec [OF HeapState_new_inv room, of "0x1000" default_config "[1]" 64]
  have abs: "heap_inv (h_state ?h)" "heap_abs (h_state ?h) 0x1000 = Some ([1], 64)"
    "unat (hs_next_callsite_id (h_state ?h)) < 2 ^ 64 - 1"
    using spec unfolding st by (simp_all add: HeapState_new_abs ips) (simp add: HeapState_new_def)
  have "heap_ready ?h" "sampled ?h 1 32" by (simp_all add: hook_defs alloc_start_def heap_init_def)
  note w = freed_while_stopped [OF this(1) abs(1,3,2) _ this(2), of default_config "[2]", unfolded Let_def ips]
  have "alloc_start (AllocProfiler_dealloc 1 0x1000 (alloc_stop ?h)) = ?h" using w by simp
  moreover have "heap_abs (h_state (snd (AllocProfiler_alloc default_config 1 [2] 0x1000 32 ?h))) =
      (heap_abs (h_state ?h))(0x1000 \<mapsto> ([2], 32))"
    using w unfolding calculation by simp
  ultimately show ?thesis using abs(2) by (simp add: Let_def)
qed

end
