(* ===== verification/Pipeline.thy ===== *)
theory Pipeline
  imports Pprof_Valid Api Alloc_Exact
begin

text \<open>
  The components in sequence. A profile of the CPU goes from deliveries of the signal through the collector, the report and the
  string and symbol tables to a pprof profile; \<open>shown\<close> is what a reader of that profile sees of one delivery.
\<close>

section \<open>Counting the samples of a report\<close>

text \<open>\<open>value_weight Q m\<close>: the counts of the keys that satisfy \<open>Q\<close>, added up.\<close>

definition value_weight :: "('k \<Rightarrow> bool) \<Rightarrow> ('k, isize) hashmap \<Rightarrow> nat" where
  "value_weight Q m = (\<Sum>(key, v)\<leftarrow>m. if Q key then unat v else 0)"

lemma value_weight_simps [simp]:
  "value_weight Q [] = 0"
  "value_weight Q (e # m) = (if Q (fst e) then unat (snd e) else 0) + value_weight Q m"
  by (simp_all add: value_weight_def split_beta)

lemma value_weight_le: "value_weight Q m \<le> values_sum m"
  by (induction m) (auto simp: values_sum_def)

lemma value_weight_insert:
  assumes "\<And>a b. eq a b \<Longrightarrow> Q a = Q b"
  shows "value_weight Q (hm_insert eq m k v) + (if Q k then (case hm_get eq m k of Some u \<Rightarrow> unat u | None \<Rightarrow> 0) else 0) =
    value_weight Q m + (if Q k then unat v else 0)"
proof (induction m)
  case (Cons e m)
  show ?case
  proof (cases "eq (fst e) k")
    case True
    then show ?thesis using assms [OF True] by simp
  next
    case False
    then show ?thesis using Cons by (cases "Q k") simp_all
  qed
qed simp

lemma value_weight_accumulate:
  assumes "\<And>a b. eq a b \<Longrightarrow> Q a = Q b" and "values_sum m + unat c < 2 ^ 63"
  shows "value_weight Q (accumulate eq k c m) = value_weight Q m + (if Q k then unat c else 0)"
proof (cases "hm_get eq m k")
  case None
  with value_weight_insert [where Q = Q and eq = eq and m = m and k = k and v = c] assms(1) show ?thesis
    by (cases "Q k") (simp_all add: accumulate_def)
next
  case (Some u)
  have "unat (u + c) = unat u + unat c" using values_sum_get [OF Some] assms(2) by (intro unat_add_small) simp
  with value_weight_insert [where Q = Q and eq = eq and m = m and k = k and v = "u + c"] Some assms(1) show ?thesis
    by (cases "Q k") (simp_all add: accumulate_def)
qed

lemma value_weight_accumulate_all:
  assumes "\<And>a b. eq a b \<Longrightarrow> Q a = Q b" and "values_sum m + weight unat (\<lambda>_. True) es < 2 ^ 63"
  shows "value_weight Q (accumulate_all eq g es m) = value_weight Q m + weight unat (\<lambda>x. Q (g x)) es"
  using assms(2)
proof (induction es arbitrary: m)
  case (Cons e es)
  let ?m = "accumulate eq (g (e_item e)) (e_count e) m"
  have bound: "values_sum m + unat (e_count e) < 2 ^ 63" using Cons.prems by simp
  show ?case
  proof (cases "e_count e = 0")
    case True
    with Cons show ?thesis by (simp add: accumulate_all_def)
  next
    case False
    have "0 < sint (e_count e)" using bound False by (simp add: sint_pos_small)
    moreover have "values_sum ?m + weight unat (\<lambda>_. True) es < 2 ^ 63"
      using Cons.prems values_sum_accumulate [OF bound] by simp
    ultimately show ?thesis
      using Cons.IH [of ?m] value_weight_accumulate [where Q = Q, OF assms(1) bound] by (simp add: accumulate_all_def)
  qed
qed (simp add: accumulate_all_def)

lemma accumulate_keys: "fst ` set (accumulate eq k c m) \<subseteq> insert k (fst ` set m)"
  unfolding accumulate_def by (cases "hm_get eq m k") (simp_all only: option.case fst_set_hm_insert)

lemma accumulate_all_keys: "fst ` set (accumulate_all eq g es m) \<subseteq> fst ` set m \<union> g ` e_item ` set es"
proof (induction es arbitrary: m)
  case (Cons e es)
  let ?m = "if 0 < sint (e_count e) then accumulate eq (g (e_item e)) (e_count e) m else m"
  have "fst ` set (accumulate_all eq g (e # es) m) \<subseteq> fst ` set ?m \<union> g ` e_item ` set es"
    using Cons.IH [of ?m] by (simp only: accumulate_all_def fold_Cons comp_apply)
  moreover have "fst ` set ?m \<subseteq> insert (g (e_item e)) (fst ` set m)" 
    using accumulate_keys [of eq "g (e_item e)" "e_count e" m]
    by (simp split: if_split) blast
  ultimately show ?case by auto
qed (simp add: accumulate_all_def)

lemma build_report_counts:
  assumes "platform_ok pl" and "w_profiler w = Some (Inr p)" and "fresh pl p" and "deliveries_ok ds"
  obtains w' r where "signals_run pl w ds = Return w'" and "build_report pl sy read_ok w' rb = Inr r"
    and "r_missed_samples r = w_missed w + of_nat (length (filter snd ds))" and "r_timing r = rb_timing rb"
    and "\<forall>Q. (\<forall>a b. Frames_eq a b \<longrightarrow> Q a = Q b) \<longrightarrow>
      (\<forall>x y. pl_eq pl x y \<longrightarrow> Q (post_process sy rb x) = Q (post_process sy rb y)) \<longrightarrow>
      value_weight Q (r_data r) = length (filter (\<lambda>s. Q (post_process sy rb s)) (recorded pl p ds))"
    and "fst ` set (r_data r) \<subseteq> post_process sy rb ` set (recorded pl p ds)" and "length (r_data r) \<le> length ds"
proof (rule fresh_run [OF assms])
  fix w' p' es
  assume run: "signals_run pl w ds = Return w'" "w_profiler w' = Some (Inr p')"
    "w_missed w' = w_missed w + of_nat (length (filter snd ds))"
    "Collector_try_iter (pl_layout pl) read_ok (p_data p') = Inr es"
    and sum: "\<And>P. (\<And>x y. pl_eq pl x y \<Longrightarrow> P x = P y) \<Longrightarrow> weight unat P es = length (filter P (recorded pl p ds))"
    and items: "e_item ` set es \<subseteq> set (recorded pl p ds)"
  let ?m = "accumulate_all Frames_eq (post_process sy rb) es []"
  have small: "length (recorded pl p ds) < 2 ^ 63"
    using length_recorded [of pl p ds] assms(4) by (simp add: deliveries_ok_def)
  have total: "weight unat (\<lambda>_. True) es = length (recorded pl p ds)" using sum [of "\<lambda>_. True"] by simp
  have "value_weight Q ?m = length (filter (\<lambda>s. Q (post_process sy rb s)) (recorded pl p ds))"
    if "\<And>a b. Frames_eq a b \<Longrightarrow> Q a = Q b" "\<And>x y. pl_eq pl x y \<Longrightarrow> Q (post_process sy rb x) = Q (post_process sy rb y)" for Q
    using value_weight_accumulate_all [where eq = Frames_eq and Q = Q and m = "[]" and es = es and g = "post_process sy rb"]
      that sum [of "\<lambda>s. Q (post_process sy rb s)"] total small by (simp add: values_sum_def)
  moreover have "fst ` set ?m \<subseteq> post_process sy rb ` set (recorded pl p ds)"
    using accumulate_all_keys [of Frames_eq "post_process sy rb" es "[]"] items by auto
  moreover have "length ?m \<le> length ds"
    using accumulate_fresh [OF frames_key.key_eq_axioms total small, of "post_process sy rb"] values_sum_length [of ?m]
      length_recorded [of pl p ds] by auto
  ultimately show ?thesis
    using run by (intro that [of w' "\<lparr>r_data = ?m, r_timing = rb_timing rb, r_missed_samples = w_missed w'\<rparr>"])
      (simp_all add: build_report_def accumulate_all_def)
qed

section \<open>What a profile shows\<close>

text \<open>The thread and the symbol names of a resolved stack, and of a sample; \<open>pprof_weight\<close> adds up the first values of a profile.\<close>

definition shown_frames :: "symbolizer \<Rightarrow> Frames \<Rightarrow> string \<times> string list" where
  "shown_frames sy key = (Frames_thread_name_or_id key, map (Symbol_name (sy_demangle sy)) (concat (fr_frames key)))"

definition shown :: "symbolizer \<Rightarrow> UnresolvedFrames \<Rightarrow> string \<times> string list" where
  "shown sy uf = shown_frames sy (Frames_from (sy_perfmap sy) (sy_resolve sy) (sy_demangle sy) uf)"

definition pprof_weight :: "(string \<times> string list \<Rightarrow> bool) \<Rightarrow> Profile \<Rightarrow> nat" where
  "pprof_weight Q p = (\<Sum>s\<leftarrow>pf_sample p. if Q (decode_sample p s) then unat (hd (s_value s)) else 0)"

lemma Symbol_eq_names: "list_all2 Symbol_eq xs ys \<Longrightarrow> map (Symbol_name d) xs = map (Symbol_name d) ys"
  by (induction rule: list_all2_induct) (simp_all add: Symbol_eq_def Symbol_name_def)

lemma shown_frames_cong: "Frames_eq a b \<Longrightarrow> shown_frames sy a = shown_frames sy b"
proof -
  have "map (Symbol_name d) (concat xss) = map (Symbol_name d) (concat yss)"
    if "list_all2 (list_all2 Symbol_eq) xss yss" for d xss yss
    using that by (induction rule: list_all2_induct) (simp_all add: Symbol_eq_names)
  then show "Frames_eq a b \<Longrightarrow> shown_frames sy a = shown_frames sy b"
    by (simp add: Frames_eq_def shown_frames_def Frames_thread_name_or_id_def)
qed

lemma sum_decoded:
  assumes "map d ss = map (\<lambda>e. f (fst e)) es" and "map v ss = map (\<lambda>e. g (snd e)) es"
    and "\<And>c. hd (g c) = (c :: isize)"
  shows "(\<Sum>s\<leftarrow>ss. if Q (d s) then unat (hd (v s)) else 0) = value_weight (\<lambda>k. Q (f k)) es"
  using assms(1,2)
proof (induction ss arbitrary: es)
  case (Cons s ss)
  then obtain e es' where "es = e # es'" by (cases es) auto
  with Cons assms(3) show ?case by simp
qed simp

lemma pprof_weight_report:
  assumes "map (decode_sample p) (pf_sample p) =
      map (\<lambda>(key, count). (Frames_thread_name_or_id key, map (Symbol_name (sy_demangle sy)) (concat (fr_frames key)))) (r_data r)"
    and "map s_value (pf_sample p) = map (\<lambda>(key, count). sample_value f count) (r_data r)"
  shows "pprof_weight Q p = value_weight (\<lambda>key. Q (shown_frames sy key)) (r_data r)"
  unfolding pprof_weight_def
  by (rule sum_decoded [where g = "sample_value f"])
    (use assms in \<open>simp_all add: shown_frames_def sample_value_def split_beta\<close>)

lemma pprof_of_report:
  assumes "hs_order hs_iter" and "0 < sint (rt_frequency (r_timing r))" and "length (pprof_strings sy r) < 2 ^ 62"
  obtains prof where "Report_pprof hs_iter sy r = Return prof" and "profile_ok prof"
    and "map (decode_str (pf_string_table prof)) (pf_comment prof) = [missed_comment r]"
    and "map (decode_sample prof) (pf_sample prof) = map (\<lambda>e. shown_frames sy (fst e)) (r_data r)"
    and "\<forall>Q. pprof_weight Q prof = value_weight (\<lambda>key. Q (shown_frames sy key)) (r_data r)"
proof -
  obtain prof where prof: "Report_pprof hs_iter sy r = Return prof"
    "map (decode_str (pf_string_table prof)) (pf_comment prof) = [missed_comment r]"
    "map (decode_sample prof) (pf_sample prof) =
      map (\<lambda>(key, count). (Frames_thread_name_or_id key, map (Symbol_name (sy_demangle sy)) (concat (fr_frames key)))) (r_data r)"
    "map s_value (pf_sample prof) = map (\<lambda>(key, count). sample_value (rt_frequency (r_timing r)) count) (r_data r)"
    using pprof_reads_back [OF assms] by (elim exE conjE) (rule that; assumption)
  have "map (decode_sample prof) (pf_sample prof) = map (\<lambda>e. shown_frames sy (fst e)) (r_data r)"
    using prof(3) by (simp add: shown_frames_def split_beta)
  then show ?thesis
    by (rule that [OF prof(1) Report_pprof_ok [OF assms(1,3) prof(1)] prof(2)]) (intro allI pprof_weight_report [OF prof(3,4)])
qed

lemma decoded_recorded:
  assumes "map d ss = map (\<lambda>e. f (fst e)) es" and "fst ` set es \<subseteq> g ` S"
  shows "d ` set ss \<subseteq> (\<lambda>s. f (g s)) ` S"
proof -
  have "d ` set ss = (\<lambda>e. f (fst e)) ` set es" using arg_cong [OF assms(1), of set] by simp
  with assms(2) show ?thesis by (auto simp: image_subset_iff)
qed

lemma unat_deliveries:
  assumes "deliveries_ok ds"
  shows "unat (of_nat (length (filter snd ds)) :: u64) = length (filter snd ds)"
proof -
  have "length ds < 2 ^ 63" using assms by (simp add: deliveries_ok_def)
  with length_filter_le [of snd ds] have "length (filter snd ds) < 2 ^ 63" by (rule le_less_trans)
  then have "length (filter snd ds) < 2 ^ 64" by simp
  then show ?thesis by (rule unat_of_nat_small)
qed

text \<open>A bound on the strings of a report, from the depth and from how many symbols an address can have.\<close>

lemma length_resolve_frames:
  assumes "\<forall>a. length (resolve a) \<le> K" and "1 \<le> K"
  shows "length (concat (resolve_frames perfmap resolve demangle fs)) \<le> K * length fs"
proof (induction fs rule: length_induct)
  case (1 fs)
  show ?case
  proof (cases fs)
    case (Cons f fs')
    have "length (frame_symbols perfmap resolve f) \<le> K"
      using assms by (auto simp: frame_symbols_def split: option.split)
    moreover have "length (concat (resolve_frames perfmap resolve demangle fs')) \<le> K * length fs'"
      "length (concat (resolve_frames perfmap resolve demangle (tl fs'))) \<le> K * length (tl fs')"
      using 1 [rule_format, of fs'] 1 [rule_format, of "tl fs'"] Cons by simp_all
    moreover have "K * length (tl fs') \<le> K + K * length fs'" by (intro trans_le_add2 mult_le_mono2) simp
    ultimately have "length (frame_symbols perfmap resolve f) \<le> K"
      "length (concat (resolve_frames perfmap resolve demangle fs')) \<le> K * length fs'"
      "length (concat (resolve_frames perfmap resolve demangle (tl fs'))) \<le> K + K * length fs'"
      by (blast intro: order_trans)+
    then show ?thesis by (simp add: Cons Let_def)
  qed simp
qed

lemma length_pprof_strings:
  assumes "\<forall>a. length (sy_resolve sy a) \<le> K" and "1 \<le> K" and "rb_post rb = None"
    and "fst ` set (r_data r) \<subseteq> post_process sy rb ` S" and "\<forall>s \<in> S. length (uf_frames s) \<le> D"
  shows "length (pprof_strings sy r) \<le> length (r_data r) * (1 + 3 * (K * D)) + 6"
proof -
  have one: "length (frames_strings sy key) \<le> 1 + 3 * (K * D)" if "key \<in> post_process sy rb ` S" for key
  proof -
    from that obtain s where s: "s \<in> S" "key = Frames_from (sy_perfmap sy) (sy_resolve sy) (sy_demangle sy) s"
      using assms(3) by (auto simp: post_process_def)
    have "length (concat (fr_frames key)) \<le> K * length (uf_frames s)"
      using length_resolve_frames [OF assms(1,2)] by (simp add: s(2) Frames_from_def)
    also have "\<dots> \<le> K * D" using assms(5) s(1) by (intro mult_le_mono2) simp
    finally have "length (concat (fr_frames key)) \<le> K * D" .
    moreover have "length (concat (map (symbol_strings sy) ss)) = 3 * length ss" for ss
      by (induction ss) (simp_all add: symbol_strings_def)
    ultimately show ?thesis by (simp add: frames_strings_def)
  qed
  have "length (concat (map (\<lambda>(key, _). frames_strings sy key) es)) \<le> length es * (1 + 3 * (K * D))"
    if "fst ` set es \<subseteq> post_process sy rb ` S" for es :: "(Frames \<times> isize) list"
    using that
  proof (induction es)
    case (Cons e es)
    with one [of "fst e"] show ?case by (simp add: split_beta add_mono)
  qed simp
  from this [OF assms(4)] show ?thesis by (simp add: pprof_strings_def)
qed



section \<open>The heap, from concurrent threads to the profile\<close>

text \<open>The map of the live sampled blocks of a concurrent run, and what a sample of the heap profile shows: names and in-use values.\<close>

definition live_blocks :: "conc \<Rightarrow> usize \<Rightarrow> (usize list \<times> usize) option" where
  "live_blocks c p = (case c_live c p of Some g \<Rightarrow> g | None \<Rightarrow> None)"

definition site_names :: "symbolizer \<Rightarrow> usize list \<Rightarrow> string list" where
  "site_names sy ips = map (Symbol_name (sy_demangle sy)) (concat (fr_frames (heap_frames (sy_resolve sy) ips 0)))"

definition decode_heap_sample :: "Profile \<Rightarrow> Sample \<Rightarrow> string list \<times> i64 list" where
  "decode_heap_sample p s =
     (map (decode_location (pf_string_table p) (pf_function p) (pf_location p)) (s_location_id s), drop 2 (s_value s))"

definition site_values :: "(usize \<Rightarrow> (usize list \<times> usize) option) \<Rightarrow> usize list \<Rightarrow> i64 list" where
  "site_values m ips = [word_max0 (of_nat (card (blocks m ips))), word_max0 (block_bytes m (blocks m ips))]"

lemma heap_abs_site: "heap_abs s p = Some (ips, sz) \<Longrightarrow> ips \<in> set (map cd_ips (map snd (hs_callsites s)))"
proof -
  assume "heap_abs s p = Some (ips, sz)"
  then obtain i d where "hm_get (=) (hs_callsites s) i = Some d" "cd_ips d = ips" by (auto simp: heap_abs_def split: option.splits)
  with hm_get_SomeD [of "(=)" "hs_callsites s" i d] show ?thesis by force
qed

lemma zip_samples:
  assumes "map f xs = map g ys" and "map h xs = map k ys"
  shows "map (\<lambda>x. (G (f x), F (h x))) xs = map (\<lambda>y. (G (g y), F (k y))) ys"
proof -
  have "zip (map G (map f xs)) (map F (map h xs)) = zip (map G (map g ys)) (map F (map k ys))" by (simp only: assms)
  then show ?thesis by (simp add: zip_map_map zip_same_conv_map o_def)
qed

text \<open>
  C2. From concurrent allocations to the file. After any schedule of allocations, deallocations and reallocations in place, as long as
  no hook is running, the heap report and its \<^verbatim>\<open>pprof\<close> give a valid profile with one sample for each of a list of different
  call stacks, that contains the stack of every live block whose allocation was sampled: read back through the tables, a
  sample has the symbol names of its stack, and its in-use values are the number and the total size of the live sampled blocks
  with that stack.
\<close>

theorem concurrent_heap_profile:
  assumes "conc_run cfg sched (conc_init (alloc_start heap_init)) = Some c" and "\<forall>a \<in> set sched. calm a"
    and "length sched < 2 ^ 63" and "quiescent c" and "hs_order hs_iter"
    and "heap_report (sy_resolve sy) now timestamp (c_heap c) = Inr r" and "length (heap_strings sy r) < 2 ^ 62"
  shows "\<exists>prof sites. HeapReport_pprof hs_iter sy r = Return prof \<and> profile_ok prof \<and> distinct sites \<and>
    (\<forall>p ips sz. c_live c p = Some (Some (ips, sz)) \<longrightarrow> ips \<in> set sites) \<and>
    map (decode_heap_sample prof) (pf_sample prof) = map (\<lambda>ips. (site_names sy ips, site_values (live_blocks c) ips)) sites"
proof -
  have "heap_inv (c_state c)" and abs: "heap_abs (c_state c) = live_blocks c"
    using calm_run_exact [OF assms(1-3)] assms(4) by (simp_all add: live_blocks_def fun_eq_iff)
  then have inv: "heap_inv (h_state (c_heap c))" by simp
  let ?sites = "map cd_ips (map snd (hs_callsites (c_state c)))"
  have report: "distinct ?sites"
    "map (\<lambda>rec. concat (fr_frames (hr_frames rec))) (hp_records r) =
       map (\<lambda>ips. concat (fr_frames (heap_frames (sy_resolve sy) ips 0))) ?sites"
    "map hr_inuse_objects (hp_records r) = map (\<lambda>ips. of_nat (card (blocks (live_blocks c) ips))) ?sites"
    "map hr_inuse_bytes (hp_records r) = map (\<lambda>ips. block_bytes (live_blocks c) (blocks (live_blocks c) ips)) ?sites"
    using heap_report_inuse [OF inv, of "sy_resolve sy" now timestamp] assms(6) abs by (simp_all add: o_def)
  have site: "ips \<in> set ?sites" if "c_live c p = Some (Some (ips, sz))" for p ips sz
    by (rule heap_abs_site [of _ p _ sz]) (simp add: abs live_blocks_def that)
  obtain prof where prof: "HeapReport_pprof hs_iter sy r = Return prof"
    "map (\<lambda>s. map (decode_location (pf_string_table prof) (pf_function prof) (pf_location prof)) (s_location_id s)) (pf_sample prof) =
       map (\<lambda>rec. map (Symbol_name (sy_demangle sy)) (concat (fr_frames (hr_frames rec)))) (hp_records r)"
    "map s_value (pf_sample prof) = map heap_values (hp_records r)"
    using heap_pprof_reads_back [OF assms(5,7)] by (elim exE conjE) (rule that; assumption)
  have "map (decode_heap_sample prof) (pf_sample prof) = map (\<lambda>rec. (map (Symbol_name (sy_demangle sy)) (concat (fr_frames (hr_frames rec))),
      [word_max0 (hr_inuse_objects rec), word_max0 (hr_inuse_bytes rec)])) (hp_records r)"
    using zip_samples [OF prof(2,3), of "\<lambda>x. x" "drop 2"] by (simp add: decode_heap_sample_def [abs_def] heap_values_def)
  also have "\<dots> = map (\<lambda>ips. (site_names sy ips, site_values (live_blocks c) ips)) ?sites"
    using zip_samples [OF report(2) zip_samples [OF report(3,4), of "\<lambda>x. x" "\<lambda>x. x"], of "map (Symbol_name (sy_demangle sy))"
        "\<lambda>(n, b). [word_max0 n, word_max0 b]"]
    unfolding site_names_def site_values_def by simp
  finally show ?thesis using prof(1) HeapReport_pprof_ok [OF assms(5,7) prof(1)] report(1) site by blast
qed

theorem concurrent_heap_profile_witness:
  "\<exists>c r prof. conc_run default_config demo_sched (conc_init (alloc_start heap_init)) = Some c \<and>
    heap_report (sy_resolve demo_symbolizer) (\<lambda>_. 0) 0 (c_heap c) = Inr r \<and> HeapReport_pprof (\<lambda>xs. xs) demo_symbolizer r = Return prof \<and>
    profile_ok prof \<and> (\<exists>s \<in> set (pf_sample prof). fst (decode_heap_sample prof s) = [''perf_signal_handler'', ''restore_rt''])"
proof -
  let ?run = "conc_run default_config demo_sched (conc_init (alloc_start heap_init))"
  have run: "map_option (\<lambda>c. (c_live c 0x2000, map (c_pc c) [0, 1, 2],
      case heap_report demo_resolve (\<lambda>_. 0) 0 (c_heap c) of Inr r \<Rightarrow> length (heap_strings demo_symbolizer r) < 100)) ?run =
    Some (Some (Some ([1, 2], 50)), [Idle, Idle, Idle], True)" by code_simp
  then obtain c where c: "?run = Some c" "c_live c 0x2000 = Some (Some ([1, 2], 50))" "map (c_pc c) [0, 1, 2] = [Idle, Idle, Idle]"
    and few: "case heap_report demo_resolve (\<lambda>_. 0) 0 (c_heap c) of Inr r \<Rightarrow> length (heap_strings demo_symbolizer r) < 100" by auto
  obtain r where r: "heap_report demo_resolve (\<lambda>_. 0) 0 (c_heap c) = Inr r" by (simp add: heap_report_def)
  have "list_all (\<lambda>a. action_thread a \<in> set [0, 1, 2]) demo_sched" by code_simp
  then have quiet: "quiescent c" by (rule conc_run_quiescent [OF c(1)]) (use c(3) in simp)
  have sched: "\<forall>a \<in> set demo_sched. calm a" "length demo_sched < 2 ^ 63" by (simp_all add: demo_sched_def)
  have sy: "sy_resolve demo_symbolizer = demo_resolve" by (simp add: demo_symbolizer_def)
  have order: "hs_order (\<lambda>xs. xs)" by (simp add: hs_order_def)
  have small: "length (heap_strings demo_symbolizer r) < 2 ^ 62" using few r by simp
  obtain prof sites where prof: "HeapReport_pprof (\<lambda>xs. xs) demo_symbolizer r = Return prof" "profile_ok prof"
    "map (decode_heap_sample prof) (pf_sample prof) = map (\<lambda>ips. (site_names demo_symbolizer ips, site_values (live_blocks c) ips)) sites"
    and sites: "\<forall>p ips sz. c_live c p = Some (Some (ips, sz)) \<longrightarrow> ips \<in> set sites"
    using concurrent_heap_profile [OF c(1) sched quiet order r [folded sy] small] by (elim exE conjE) (rule that; assumption)
  have site: "[1, 2] \<in> set sites" using sites c(2) by blast
  have "(\<lambda>ips. (site_names demo_symbolizer ips, site_values (live_blocks c) ips)) ` set sites = decode_heap_sample prof ` set (pf_sample prof)"
    using arg_cong [OF prof(3), of set] by simp
  with site obtain s where "s \<in> set (pf_sample prof)"
    "decode_heap_sample prof s = (site_names demo_symbolizer [1, 2], site_values (live_blocks c) [1, 2])"
    by (metis (no_types, lifting) imageE imageI)
  moreover have "site_names demo_symbolizer [1, 2] = [''perf_signal_handler'', ''restore_rt'']" by code_simp
  ultimately have "\<exists>s \<in> set (pf_sample prof). fst (decode_heap_sample prof s) = [''perf_signal_handler'', ''restore_rt'']" by (metis fst_conv)
  with c(1) r [folded sy] prof(1,2) show ?thesis by blast
qed

end
