(* ===== verification/Sample_Merge.thy ===== *)
theory Sample_Merge
  imports Report
begin

text \<open>
  What the collector makes of samples that it counts as equal: \<^verbatim>\<open>PartialEq for UnresolvedFrames\<close> of \<^verbatim>\<open>src/src/frames.rs\<close> compares the
  addresses of the functions and the thread id, and an entry keeps the sample it was made with. A report resolves that one
  sample.
\<close>

lemma concat_only:
  assumes "i < length xss" and "\<And>j. j < length xss \<Longrightarrow> j \<noteq> i \<Longrightarrow> xss ! j = []"
  shows "concat xss = xss ! i"
proof -
  have rest: "concat (drop (Suc i) xss) = []" using assms(2) by (auto simp: in_set_conv_nth)
  have first: "concat (take i xss) = []" using assms by (auto simp: in_set_conv_nth)
  have "concat xss = concat (take i xss) @ xss ! i @ concat (drop (Suc i) xss)"
    using arg_cong [OF id_take_nth_drop [OF assms(1)], of concat] by (simp only: concat_append concat.simps)
  then show ?thesis by (simp only: first rest append_Nil append_Nil2)
qed

text \<open>Adding to what a table or a collector holds of one class of keys.\<close>

definition bumped :: "'a \<Rightarrow> isize \<Rightarrow> 'a Entry list \<Rightarrow> 'a Entry list" where
  "bumped key count es = (case es of [] \<Rightarrow> [\<lparr>e_item = key, e_count = count\<rparr>] | e # _ \<Rightarrow> [e\<lparr>e_count := e_count e + count\<rparr>])"

definition alone :: "('a \<Rightarrow> 'a \<Rightarrow> bool) \<Rightarrow> 'a \<Rightarrow> 'a Entry list \<Rightarrow> bool" where
  "alone eq key es \<longleftrightarrow> length es \<le> 1 \<and> (\<forall>e \<in> set es. eq (e_item e) key)"

context hash_key
begin

lemma HashCounter_add_alone:
  assumes wf: "HashCounter_wf eq hash hc" and alone: "alone eq key (HashCounter_iter hc)"
    and add: "HashCounter_add eq hash hc key count = (hc', ev)"
  shows "ev = None \<and> HashCounter_iter hc' = bumped key count (HashCounter_iter hc)"
proof -
  let ?i = "HashCounter_index hash key" and ?L = "map Bucket_live (hc_buckets hc)"
  obtain b' where b': "Bucket_add eq (hc_buckets hc ! ?i) key count = (b', ev)"
    and hc': "hc' = \<lparr>hc_buckets = (hc_buckets hc)[?i := b']\<rparr>"
    using add by (auto simp: HashCounter_add_def HashCounter_index_def Let_def split: prod.splits)
  have i: "?i < length (hc_buckets hc)" and b: "Bucket_wf eq (hc_buckets hc ! ?i)"
    using wf HashCounter_index_less [of hash key] by (auto simp: HashCounter_wf_def)
  have iter: "HashCounter_iter hc = concat ?L" by (rule HashCounter_iter_eq [OF wf])
  have other: "?L ! j = []" if "j < length ?L" "j \<noteq> ?i" for j
  proof -
    have "HashCounter_index hash (e_item e) = ?i \<and> HashCounter_index hash (e_item e) = j" if "e \<in> set (?L ! j)" for e
    proof -
      have "e \<in> set (HashCounter_iter hc)" using that \<open>j < length ?L\<close> unfolding iter by (auto intro: nth_mem)
      then have "eq (e_item e) key" using alone by (simp add: alone_def)
      moreover have "HashCounter_index hash (e_item e) = j"
        using wf that \<open>j < length ?L\<close> by (simp add: HashCounter_wf_def)
      ultimately show ?thesis using index_cong by metis
    qed
    with \<open>j \<noteq> ?i\<close> show ?thesis by (metis last_in_set)
  qed
  have live: "Bucket_live (hc_buckets hc ! ?i) = HashCounter_iter hc"
    unfolding iter using concat_only [of ?i ?L] i other by simp
  have "HashCounter_wf eq hash hc'" using HashCounter_add_wf [OF wf, of key count] add by simp
  then have "HashCounter_iter hc' = concat (?L[?i := Bucket_live b'])" by (simp add: HashCounter_iter_eq hc' map_update)
  also have "\<dots> = Bucket_live b'" using concat_only [of ?i "?L[?i := Bucket_live b']"] i other by simp
  finally have iter': "HashCounter_iter hc' = Bucket_live b'" .
  have small: "length (Bucket_live (hc_buckets hc ! ?i)) \<le> 1" "\<forall>e \<in> set (Bucket_live (hc_buckets hc ! ?i)). eq (e_item e) key"
    using alone by (simp_all add: live alone_def)
  from b b' show ?thesis
  proof (cases rule: Bucket_addE)
    case hit
    then show ?thesis using small unfolding iter' live [symmetric] bumped_def
      by (cases "Bucket_live (hc_buckets hc ! ?i)") auto
  next
    case room
    then show ?thesis using small unfolding iter' live [symmetric] bumped_def
      by (cases "Bucket_live (hc_buckets hc ! ?i)") auto
  next
    case (evict mi)
    then show ?thesis using small by (cases "Bucket_live (hc_buckets hc ! ?i)") auto
  qed
qed

end

context collector_laws
begin

lemma Collector_run_alone:
  assumes "Collector_wf eq hash L ok c" and "TempFdArray_items L (c_temp_array c) = []" and "HashCounter_iter (c_map c) = [\<lparr>e_item = k, e_count = n\<rparr>]"
    and "\<forall>x \<in> set ks. ok x \<and> eq k x" and "Collector_run eq hash L c (map (\<lambda>x. (x, 1, Written)) ks) = Return c'"
  shows "Collector_items L c' = [\<lparr>e_item = k, e_count = n + of_nat (length ks)\<rparr>]"
  using assms
proof (induction ks arbitrary: c n)
  case (Cons x ks)
  have ok: "ok x" "eq k x" using Cons.prems(4) by simp_all
  obtain m ev t where step: "HashCounter_add eq hash (c_map c) x 1 = (m, ev)"
    "Collector_add eq hash L Written c x 1 = Return (\<lparr>c_map = m, c_temp_array = t\<rparr>, Inr ())"
    "TempFdArray_items L t = TempFdArray_items L (c_temp_array c) @ opt_list ev"
    "Collector_wf eq hash L ok \<lparr>c_map = m, c_temp_array = t\<rparr>"
    by (rule Collector_add_Written [OF Cons.prems(1) ok(1)])
  have "HashCounter_wf eq hash (c_map c)" using Cons.prems(1) by (simp add: Collector_wf_def)
  moreover have "alone eq x (HashCounter_iter (c_map c))" using Cons.prems(3) ok(2) by (simp add: alone_def)
  ultimately have "ev = None \<and> HashCounter_iter m = bumped x 1 (HashCounter_iter (c_map c))"
    using step(1) by (rule HashCounter_add_alone)
  with Cons.prems(2,3) step have "TempFdArray_items L t = []" "HashCounter_iter m = [\<lparr>e_item = k, e_count = n + 1\<rparr>]"
    by (simp_all add: bumped_def)
  with Cons.IH [of "\<lparr>c_map = m, c_temp_array = t\<rparr>" "n + 1"] Cons.prems(4,5) step(2,4) show ?case
    by (simp add: add.assoc)
qed (simp add: Collector_items_def)

lemma Collector_run_first:
  assumes "Collector_wf eq hash L ok c" and "Collector_items L c = []" and "ok k" and "\<forall>x \<in> set ks. ok x \<and> eq k x"
    and "Collector_run eq hash L c (map (\<lambda>x. (x, 1, Written)) (k # ks)) = Return c'"
  shows "Collector_items L c' = [\<lparr>e_item = k, e_count = of_nat (length (k # ks))\<rparr>]"
proof -
  obtain m ev t where step: "HashCounter_add eq hash (c_map c) k 1 = (m, ev)"
    "Collector_add eq hash L Written c k 1 = Return (\<lparr>c_map = m, c_temp_array = t\<rparr>, Inr ())"
    "TempFdArray_items L t = TempFdArray_items L (c_temp_array c) @ opt_list ev"
    "Collector_wf eq hash L ok \<lparr>c_map = m, c_temp_array = t\<rparr>"
    by (rule Collector_add_Written [OF assms(1,3)])
  have empty: "HashCounter_iter (c_map c) = []" "TempFdArray_items L (c_temp_array c) = []"
    using assms(2) by (simp_all add: Collector_items_def)
  have "HashCounter_wf eq hash (c_map c)" using assms(1) by (simp add: Collector_wf_def)
  moreover have "alone eq k (HashCounter_iter (c_map c))" by (simp add: empty alone_def)
  ultimately have "ev = None \<and> HashCounter_iter m = bumped k 1 (HashCounter_iter (c_map c))"
    using step(1) by (rule HashCounter_add_alone)
  then have "TempFdArray_items L t = []" "HashCounter_iter m = [\<lparr>e_item = k, e_count = 1\<rparr>]"
    using step(3) by (simp_all add: empty bumped_def)
  with Collector_run_alone [OF step(4), of k 1 ks c'] assms(4,5) step(2) show ?thesis by simp
qed

end

section \<open>Reports of equal samples\<close>

lemma weight_length: "weight (\<lambda>_. 1 :: nat) (\<lambda>_. True) es = length es"
  by (induction es) simp_all

text \<open>
  C31. Equal samples are shown as the first of them. If all samples of a profile are equal for the collector (the same functions in the
  same thread, by addresses and id) then its report is one entry, with their number: the first sample, resolved. The lines and
  the inlined functions of the others do not occur, nor the name of their thread, although every one of them may resolve
  differently.
\<close>

theorem merged_samples_show_first:
  assumes "platform_ok pl" and "w_profiler w = Some (Inr p)" and "fresh pl p" and "deliveries_ok ds"
    and "recorded pl p ds = s # ss" and "\<forall>x \<in> set ss. pl_eq pl s x"
  shows "\<exists>w' r. signals_run pl w ds = Return w' \<and> build_report pl sy read_ok w' rb = Inr r \<and>
    r_data r = [(post_process sy rb s, of_nat (length (recorded pl p ds)))]"
proof -
  have env: "\<forall>d \<in> set ds. \<exists>name. env_ok (fst d) name" using assms(4) by (simp add: deliveries_ok_def)
  have wf: "data_wf pl (p_data p)" and empty: "Collector_items (pl_layout pl) (p_data p) = []"
    using assms(3) by (simp_all add: fresh_def)
  note laws = platform_collector [OF assms(1)]
  obtain w' data where w': "signals_run pl w ds = Return w'"
    "w_profiler w' = Some (Inr (p\<lparr>p_sample_counter := p_sample_counter p + of_nat (length (recorded pl p ds)), p_data := data\<rparr>))"
    and run: "Collector_run (pl_eq pl) (pl_hash pl) (pl_layout pl) (p_data p) (map sample_op (recorded pl p ds)) = Return data"
    using signals_run_collector [OF assms(1,2) wf env] by blast
  have ok: "pl_ok pl x" if "x \<in> set (s # ss)" for x using recorded_ok [OF env] that assms(5) by metis
  then have samples: "pl_ok pl s" "\<forall>x \<in> set ss. pl_ok pl x \<and> pl_eq pl s x" using assms(6) by simp_all
  have "map sample_op (recorded pl p ds) = map (\<lambda>x. (x, 1, Written)) (s # ss)"
    unfolding assms(5) by (simp add: sample_op_def [abs_def])
  then have one: "Collector_items (pl_layout pl) data = [\<lparr>e_item = s, e_count = of_nat (length (s # ss))\<rparr>]"
    using collector_laws.Collector_run_first [OF laws wf [unfolded data_wf_def] empty samples] run by metis
  have "\<forall>(key, count, wr) \<in> set (map sample_op (recorded pl p ds)). pl_ok pl key \<and> wr = Written"
    using recorded_ok [OF env] by (auto simp: sample_op_def)
  then have "data_wf pl data"
    using collector_laws.Collector_run_wf [OF laws wf [unfolded data_wf_def]] run unfolding data_wf_def by fastforce
  from collector_laws.Collector_try_iter_items [OF laws this [unfolded data_wf_def]] obtain es
    where es: "Collector_try_iter (pl_layout pl) read_ok data = Inr es" "set es = set (Collector_items (pl_layout pl) data)"
      "weight (\<lambda>_. 1 :: nat) (\<lambda>_. True) es = weight (\<lambda>_. 1) (\<lambda>_. True) (Collector_items (pl_layout pl) data)" by blast
  then have "es = [\<lparr>e_item = s, e_count = of_nat (length (s # ss))\<rparr>]"
    unfolding one weight_length by (cases es) auto
  moreover have "0 < sint (of_nat (length (s # ss)) :: isize)"
    using assms(4) length_recorded [of pl p ds] unfolding assms(5) deliveries_ok_def by (subst sint_of_nat_small) auto
  ultimately show ?thesis
    using w' es(1) unfolding assms(5) by (simp add: build_report_def accumulate_def)
qed

text \<open>Two instructions of one function, of which the second resolves to \<^verbatim>\<open>main\<close>.\<close>

definition one_function :: platform where
  "one_function = (sim_platform default_config)\<lparr>pl_symbol_address := (\<lambda>_. 0x10)\<rparr>"

theorem merged_samples_show_first_witness:
  "\<exists>p w' r. Profiler_new one_function None 0 = Inr p \<and>
     signals_run one_function \<lparr>w_profiler = Some (Inr p), w_locked = False, w_missed = 0, w_errno = 2, w_os = ()\<rparr>
       [(demo_env [\<lparr>ip = 3\<rparr>], False), (demo_env [\<lparr>ip = 4\<rparr>], False)] = Return w' \<and>
     build_report one_function demo_symbolizer read_ok w' (ReportBuilder_new ReportTiming_default) = Inr r \<and>
     map (\<lambda>(key, n). (map (Symbol_name (\<lambda>s. s)) (concat (fr_frames key)), n)) (r_data r) = [([''work''], 2)]"
proof -
  let ?ds = "[(demo_env [\<lparr>ip = 3\<rparr>], False), (demo_env [\<lparr>ip = 4\<rparr>], False)]"
  have ok: "platform_ok one_function"
    using sim_platform_ok [of default_config] by (simp add: platform_ok_def one_function_def)
  obtain p where p: "Profiler_new one_function None 0 = Inr p" "fresh one_function p" and
    p0: "p = \<lparr>p_data = p_data p, p_sample_counter = 0, p_old_sigaction = None, p_running = False,
      p_clock_type = Cpu, p_thread_blocklist = [], p_on_stack = False, p_blocklist_segments = []\<rparr>"
    using Profiler_new_ok [OF ok, of 0] by (auto simp: fresh_def)
  have name: "the_name (demo_env fs) = ''main''" for fs using demo_env_ok by (rule env_ok_the_name)
  have "\<not> env_blocked p (demo_env fs) name" for fs name
    by (subst p0) (simp add: env_blocked_def demo_env_def is_thread_blocklisted_def)
  then have recorded: "recorded one_function p ?ds = env_sample one_function p (demo_env [\<lparr>ip = 3\<rparr>]) ''main'' #
      [env_sample one_function p (demo_env [\<lparr>ip = 4\<rparr>]) ''main'']"
    by (simp add: recorded_def name)
  have two: "(of_nat (length (recorded one_function p ?ds)) :: isize) = 2" by (simp only: recorded) simp
  have frames: "uf_frames (env_sample one_function p (demo_env [\<lparr>ip = a\<rparr>]) ''main'') = [\<lparr>ip = a\<rparr>]" for a
    by (simp add: env_sample_def env_frames_def one_function_def sim_platform_def default_config_def MAX_DEPTH_def demo_env_def)
  have same: "\<forall>x \<in> set [env_sample one_function p (demo_env [\<lparr>ip = 4\<rparr>]) ''main'']. pl_eq one_function (env_sample one_function p (demo_env [\<lparr>ip = 3\<rparr>]) ''main'') x"
    using frames by (simp add: UnresolvedFrames_eq_iff one_function_def) (simp add: env_sample_def demo_env_def)
  have ds: "deliveries_ok ?ds" using demo_env_ok by (auto simp: deliveries_ok_def)
  have shown: "map (Symbol_name (\<lambda>s. s)) (concat (fr_frames (post_process demo_symbolizer (ReportBuilder_new ReportTiming_default)
      (env_sample one_function p (demo_env [\<lparr>ip = 3\<rparr>]) ''main'')))) = [''work'']"
    using frames [of 3] by (simp add: post_process_def ReportBuilder_new_def Frames_from_def demo_symbolizer_def demo_simps)
  show ?thesis
    using merged_samples_show_first [OF ok _ p(2) ds recorded same,
        of "\<lparr>w_profiler = Some (Inr p), w_locked = False, w_missed = 0, w_errno = 2, w_os = ()\<rparr>" demo_symbolizer
          "ReportBuilder_new ReportTiming_default"] p(1) shown two by auto
qed

end
