(* ===== verification/Addr_Validate.thy ===== *)
theory Addr_Validate
  imports Prelude
begin

text \<open>
  \<^verbatim>\<open>src/src/addr_validate.rs\<close>: whether an address can be read is asked of the kernel by writing the bytes behind it to a
  pipe. The system calls are the fields of a \<open>pipe_os\<close>; each returns the new state of the kernel and either an
  \<^verbatim>\<open>errno\<close> or a result. The two loops repeat a call the kernel interrupts and need not end, so they are partial
  functions whose value \<open>None\<close> is not returning. The locale \<open>pipe_laws\<close> holds the documented behaviour of pipes; in
  it \<open>validate\<close> returns, tells readable addresses from others, and never lets the pipe fill up. Both versions of \<^verbatim>\<open>create_pipe\<close>
  are modelled: one call of \<^verbatim>\<open>pipe2\<close> on Linux, and \<^verbatim>\<open>pipe\<close> with \<^verbatim>\<open>fcntl\<close> on macOS and FreeBSD; \<open>po_bsd\<close> says which one is compiled.
\<close>

unbundle bit_operations_syntax

section \<open>The pipe\<close>

datatype fcntl_cmd = F_GETFD | F_SETFD int | F_GETFL | F_SETFL int

record 'os pipe_os =
  po_bsd :: bool
  po_pipe :: "'os \<Rightarrow> 'os \<times> (int + int \<times> int)"
  po_fcntl :: "'os \<Rightarrow> int \<Rightarrow> fcntl_cmd \<Rightarrow> 'os \<times> (int + int)"
  po_pipe2 :: "'os \<Rightarrow> 'os \<times> (int + int \<times> int)"
  po_close :: "'os \<Rightarrow> int \<Rightarrow> 'os"
  po_read :: "'os \<Rightarrow> int \<Rightarrow> nat \<Rightarrow> 'os \<times> (int + nat)"
  po_write :: "'os \<Rightarrow> int \<Rightarrow> usize \<Rightarrow> nat \<Rightarrow> 'os \<times> (int + nat)"

definition EINTR :: int where
  "EINTR = 4"

definition EAGAIN :: int where
  "EAGAIN = 11"

definition CHECK_LENGTH :: nat where
  "CHECK_LENGTH = 2 * 8 div 1"

record Pipes =
  read_fd :: int
  write_fd :: int

definition MEM_VALIDATE_PIPE :: Pipes where
  "MEM_VALIDATE_PIPE = \<lparr>read_fd = -1, write_fd = -1\<rparr>"

text \<open>The constants of macOS and FreeBSD.\<close>

definition FD_CLOEXEC :: int where
  "FD_CLOEXEC = 1"

definition O_NONBLOCK :: int where
  "O_NONBLOCK = 4"

definition set_flags :: "'os pipe_os \<Rightarrow> 'os \<Rightarrow> int \<Rightarrow> 'os \<times> (int + unit)" where
  "set_flags P s fd =
     (case po_fcntl P s fd F_GETFD of
        (s, Inl e) \<Rightarrow> (s, Inl e)
      | (s, Inr flags) \<Rightarrow>
          (case po_fcntl P s fd (F_SETFD (flags OR FD_CLOEXEC)) of
             (s, Inl e) \<Rightarrow> (s, Inl e)
           | (s, Inr _) \<Rightarrow>
               (case po_fcntl P s fd F_GETFL of
                  (s, Inl e) \<Rightarrow> (s, Inl e)
                | (s, Inr flags) \<Rightarrow>
                    (case po_fcntl P s fd (F_SETFL (flags OR O_NONBLOCK)) of
                       (s, Inl e) \<Rightarrow> (s, Inl e)
                     | (s, Inr _) \<Rightarrow> (s, Inr ())))))"

definition create_pipe_bsd :: "'os pipe_os \<Rightarrow> 'os \<Rightarrow> 'os \<times> (int + int \<times> int)" where
  "create_pipe_bsd P s =
     (case po_pipe P s of
        (s, Inl e) \<Rightarrow> (s, Inl e)
      | (s, Inr (r, w)) \<Rightarrow>
          (case set_flags P s r of
             (s, Inl e) \<Rightarrow> (s, Inl e)
           | (s, Inr _) \<Rightarrow>
               (case set_flags P s w of
                  (s, Inl e) \<Rightarrow> (s, Inl e)
                | (s, Inr _) \<Rightarrow> (s, Inr (r, w)))))"

definition create_pipe_linux :: "'os pipe_os \<Rightarrow> 'os \<Rightarrow> 'os \<times> (int + int \<times> int)" where
  "create_pipe_linux P s = po_pipe2 P s"

definition create_pipe :: "'os pipe_os \<Rightarrow> 'os \<Rightarrow> 'os \<times> (int + int \<times> int)" where
  "create_pipe P = (if po_bsd P then create_pipe_bsd P else create_pipe_linux P)"

definition open_pipe :: "'os pipe_os \<Rightarrow> 'os \<Rightarrow> Pipes \<Rightarrow> 'os \<times> Pipes \<times> (int + unit)" where
  "open_pipe P s m =
     (let s = po_close P s (read_fd m);
          s = po_close P s (write_fd m)
      in case create_pipe P s of
           (s, Inl e) \<Rightarrow> (s, m, Inl e)
         | (s, Inr (r, w)) \<Rightarrow> (s, \<lparr>read_fd = r, write_fd = w\<rparr>, Inr ()))"

partial_function (option) read_loop :: "'os pipe_os \<Rightarrow> int \<Rightarrow> 'os \<Rightarrow> ('os \<times> bool) option" where
  "read_loop P fd s =
     (case po_read P s fd CHECK_LENGTH of
        (s', Inr ret) \<Rightarrow> Some (s', 0 < ret)
      | (s', Inl errno) \<Rightarrow>
          if errno = EINTR then read_loop P fd s' else Some (s', errno = EAGAIN))"

partial_function (option) write_loop :: "'os pipe_os \<Rightarrow> int \<Rightarrow> usize \<Rightarrow> 'os \<Rightarrow> ('os \<times> bool) option" where
  "write_loop P fd addr s =
     (case po_write P s fd addr CHECK_LENGTH of
        (s', Inr ret) \<Rightarrow> Some (s', 0 < ret)
      | (s', Inl errno) \<Rightarrow> if errno = EINTR then write_loop P fd addr s' else Some (s', False))"

definition validate :: "'os pipe_os \<Rightarrow> usize \<Rightarrow> 'os \<times> Pipes \<Rightarrow> (('os \<times> Pipes) \<times> bool) option" where
  "validate P addr = (\<lambda>(s, m).
     if addr = 0 then Some ((s, m), False)
     else (case (if 0 \<le> read_fd m then read_loop P (read_fd m) s else Some (s, False)) of
             None \<Rightarrow> None
           | Some (s, valid_read) \<Rightarrow>
               (case (if \<not> valid_read then open_pipe P s m else (s, m, Inr ())) of
                  (s, m, Inl _) \<Rightarrow> Some ((s, m), False)
                | (s, m, Inr _) \<Rightarrow>
                    (case write_loop P (write_fd m) addr s of
                       None \<Rightarrow> None
                     | Some (s, b) \<Rightarrow> Some ((s, m), b)))))"

section \<open>Pipes as the kernel documents them\<close>

text \<open>
  \<open>held s r w = Some n\<close>: the descriptors \<open>r\<close> and \<open>w\<close> are the two ends of an open non-blocking pipe that holds \<open>n\<close> bytes.
  \<open>dead s r\<close>: \<open>r\<close> is not an open descriptor. \<open>readable s a k\<close>: the \<open>k\<close> bytes from \<open>a\<close> can be read. \<open>intr s\<close>: how many calls
  the kernel will still interrupt. \<open>piped s r w\<close>: \<open>r\<close> and \<open>w\<close> are the ends of an open empty pipe, \<open>nonblock s fd\<close>: reads and writes on
  \<open>fd\<close> do not wait. A write of few bytes to a pipe is atomic: it takes all of them, or reports why not.
  The bound 4096 is \<^verbatim>\<open>PIPE_BUF\<close>.
\<close>

text \<open>
  Between two calls the stored descriptors are unset, were closed behind the program's back, or are a pipe with at most one
  check in it.
\<close>

definition pipe_ok :: "('os \<Rightarrow> int \<Rightarrow> int \<Rightarrow> nat option) \<Rightarrow> ('os \<Rightarrow> int \<Rightarrow> bool) \<Rightarrow> 'os \<times> Pipes \<Rightarrow> bool" where
  "pipe_ok held dead = (\<lambda>(s, m). read_fd m < 0 \<or> dead s (read_fd m)
     \<or> (\<exists>n \<le> CHECK_LENGTH. held s (read_fd m) (write_fd m) = Some n))"

locale pipe_laws =
  fixes P :: "'os pipe_os"
    and held :: "'os \<Rightarrow> int \<Rightarrow> int \<Rightarrow> nat option"
    and dead :: "'os \<Rightarrow> int \<Rightarrow> bool"
    and readable :: "'os \<Rightarrow> usize \<Rightarrow> nat \<Rightarrow> bool"
    and intr :: "'os \<Rightarrow> nat"
    and piped :: "'os \<Rightarrow> int \<Rightarrow> int \<Rightarrow> bool"
    and nonblock :: "'os \<Rightarrow> int \<Rightarrow> bool"
  assumes pipe_readable:
      "po_pipe2 P s = (s', res) \<Longrightarrow> readable s' = readable s"
      "readable (po_close P s fd) = readable s"
      "po_read P s fd k = (s', res') \<Longrightarrow> readable s' = readable s"
      "po_write P s fd a k = (s', res') \<Longrightarrow> readable s' = readable s"
    and pipe2_ok: "po_pipe2 P s = (s', Inr (r, w)) \<Longrightarrow> 0 \<le> r \<and> 0 \<le> w \<and> held s' r w = Some 0"
    and pipe2_dead: "po_pipe2 P s = (s', Inl e) \<Longrightarrow> dead s fd \<Longrightarrow> dead s' fd"
    and pipe_readable_bsd:
      "po_pipe P s = (s', res) \<Longrightarrow> readable s' = readable s"
      "po_fcntl P s fd c = (s', flags) \<Longrightarrow> readable s' = readable s"
    and pipe_bsd_ok: "po_pipe P s = (s', Inr (r, w)) \<Longrightarrow> 0 \<le> r \<and> 0 \<le> w \<and> r \<noteq> w \<and> piped s' r w"
    and pipe_bsd_dead: "po_pipe P s = (s', Inl e) \<Longrightarrow> dead s fd \<Longrightarrow> dead s' fd"
    and fcntl_ok: "piped s r w \<Longrightarrow> fd \<in> {r, w} \<Longrightarrow> \<not> isl (snd (po_fcntl P s fd c))"
    and fcntl_piped: "po_fcntl P s fd c = (s', flags) \<Longrightarrow> piped s r w \<Longrightarrow> piped s' r w"
    and fcntl_nonblock: "po_fcntl P s fd (F_SETFL (f OR O_NONBLOCK)) = (s', Inr x) \<Longrightarrow> nonblock s' fd"
    and fcntl_other: "po_fcntl P s fd c = (s', flags) \<Longrightarrow> fd' \<noteq> fd \<Longrightarrow> nonblock s fd' \<Longrightarrow> nonblock s' fd'"
    and piped_held: "piped s r w \<Longrightarrow> nonblock s r \<Longrightarrow> nonblock s w \<Longrightarrow> held s r w = Some 0"
    and close_dead: "dead (po_close P s fd) fd" "dead s fd \<Longrightarrow> dead (po_close P s fd') fd"
    and read_dead: "dead s r \<Longrightarrow> po_read P s r k = (s', res') \<Longrightarrow>
      \<exists>e. res' = Inl e \<and> e \<noteq> EINTR \<and> e \<noteq> EAGAIN"
    and read_held: "held s r w = Some n \<Longrightarrow> po_read P s r k = (s', res') \<Longrightarrow>
      res' = Inl EINTR \<and> intr s' < intr s \<and> held s' r w = Some n
      \<or> n = 0 \<and> res' = Inl EAGAIN \<and> held s' r w = Some 0
      \<or> 0 < n \<and> res' = Inr (min k n) \<and> held s' r w = Some (n - min k n)"
    and write_held: "held s r w = Some n \<Longrightarrow> n + k \<le> 4096 \<Longrightarrow> po_write P s w a k = (s', res') \<Longrightarrow>
      res' = Inl EINTR \<and> intr s' < intr s \<and> held s' r w = Some n
      \<or> readable s a k \<and> res' = Inr k \<and> held s' r w = Some (n + k)
      \<or> \<not> readable s a k \<and> (\<exists>e. res' = Inl e \<and> e \<noteq> EINTR) \<and> held s' r w = Some n"
begin

lemma fcntl_cases:
  assumes "piped s r w" "fd \<in> {r, w}"
  obtains s' x where "po_fcntl P s fd c = (s', Inr x)" "piped s' r w" "readable s' = readable s"
    "\<forall>fd'. fd' \<noteq> fd \<longrightarrow> nonblock s fd' \<longrightarrow> nonblock s' fd'"
proof -
  obtain s' res where call: "po_fcntl P s fd c = (s', res)" by fastforce
  with fcntl_ok [OF assms, of c] obtain x where "res = Inr x" by (cases res) auto
  with call that [of s' x] fcntl_piped [OF call assms(1)] pipe_readable_bsd(2) [OF call] fcntl_other [OF call] show ?thesis
    by blast
qed

lemma set_flags_ok:
  assumes "piped s r w" "fd \<in> {r, w}"
  obtains s' where "set_flags P s fd = (s', Inr ())" "piped s' r w" "readable s' = readable s" "nonblock s' fd"
    "\<forall>fd'. fd' \<noteq> fd \<longrightarrow> nonblock s fd' \<longrightarrow> nonblock s' fd'"
proof -
  note step = fcntl_cases [OF _ assms(2)]
  obtain s1 f1 where 1: "po_fcntl P s fd F_GETFD = (s1, Inr f1)" "piped s1 r w" "readable s1 = readable s"
    "\<forall>fd'. fd' \<noteq> fd \<longrightarrow> nonblock s fd' \<longrightarrow> nonblock s1 fd'" by (rule step [OF assms(1)])
  obtain s2 f2 where 2: "po_fcntl P s1 fd (F_SETFD (f1 OR FD_CLOEXEC)) = (s2, Inr f2)" "piped s2 r w" "readable s2 = readable s1"
    "\<forall>fd'. fd' \<noteq> fd \<longrightarrow> nonblock s1 fd' \<longrightarrow> nonblock s2 fd'" by (rule step [OF 1(2)])
  obtain s3 f3 where 3: "po_fcntl P s2 fd F_GETFL = (s3, Inr f3)" "piped s3 r w" "readable s3 = readable s2"
    "\<forall>fd'. fd' \<noteq> fd \<longrightarrow> nonblock s2 fd' \<longrightarrow> nonblock s3 fd'" by (rule step [OF 2(2)])
  obtain s4 f4 where 4: "po_fcntl P s3 fd (F_SETFL (f3 OR O_NONBLOCK)) = (s4, Inr f4)" "piped s4 r w" "readable s4 = readable s3"
    "\<forall>fd'. fd' \<noteq> fd \<longrightarrow> nonblock s3 fd' \<longrightarrow> nonblock s4 fd'" by (rule step [OF 3(2)])
  show ?thesis
    using 1 2 3 4 fcntl_nonblock [OF 4(1)] by (intro that [of s4]) (simp_all add: set_flags_def)
qed

lemma create_pipe_cases:
  obtains (failed) s' e where "create_pipe P s = (s', Inl e)" "readable s' = readable s" "\<forall>fd. dead s fd \<longrightarrow> dead s' fd"
  | (made) s' r w where "create_pipe P s = (s', Inr (r, w))" "readable s' = readable s" "held s' r w = Some 0"
proof (cases "po_bsd P")
  case False
  obtain s' res where call: "po_pipe2 P s = (s', res)" by fastforce
  then show ?thesis
    using False failed [of s'] made [of s'] pipe_readable(1) [OF call] pipe2_dead pipe2_ok
    by (cases res) (auto simp: create_pipe_def create_pipe_linux_def)
next
  case True
  obtain s1 res where call: "po_pipe P s = (s1, res)" by fastforce
  show ?thesis
  proof (cases res)
    case (Inl e)
    with True call failed [of s1 e] pipe_readable_bsd(1) [OF call] pipe_bsd_dead show ?thesis
      by (simp add: create_pipe_def create_pipe_bsd_def)
  next
    case (Inr rw)
    then obtain r w where rw: "res = Inr (r, w)" by (cases rw) auto
    with pipe_bsd_ok call have ok: "r \<noteq> w" "piped s1 r w" by auto
    obtain s2 where 2: "set_flags P s1 r = (s2, Inr ())" "piped s2 r w" "readable s2 = readable s1" "nonblock s2 r"
      using set_flags_ok [OF ok(2), of r] by auto
    obtain s3 where 3: "set_flags P s2 w = (s3, Inr ())" "piped s3 r w" "readable s3 = readable s2" "nonblock s3 w"
        "\<forall>fd'. fd' \<noteq> w \<longrightarrow> nonblock s2 fd' \<longrightarrow> nonblock s3 fd'"
      using set_flags_ok [OF 2(2), of w] by auto
    have "held s3 r w = Some 0" using piped_held [OF 3(2)] 3(4,5) 2(4) ok(1) by simp
    with True call rw 2 3 made [of s3 r w] pipe_readable_bsd(1) [OF call] show ?thesis
      by (simp add: create_pipe_def create_pipe_bsd_def)
  qed
qed

lemma read_loop_dead:
  assumes "dead s r"
  shows "\<exists>s'. read_loop P r s = Some (s', False) \<and> readable s' = readable s"
proof (cases "po_read P s r CHECK_LENGTH")
  case (Pair s' res)
  with read_dead [OF assms Pair] pipe_readable(3) [OF Pair] show ?thesis
    by (subst read_loop.simps) auto
qed

lemma read_loop_held:
  assumes "held s r w = Some n" "n \<le> CHECK_LENGTH"
  shows "\<exists>s'. read_loop P r s = Some (s', True) \<and> held s' r w = Some 0 \<and> readable s' = readable s"
  using assms(1)
proof (induction "intr s" arbitrary: s rule: less_induct)
  case less
  obtain s' res where call: "po_read P s r CHECK_LENGTH = (s', res)" by (cases "po_read P s r CHECK_LENGTH")
  note keep = pipe_readable(3) [OF call]
  from read_held [OF less.prems call] show ?case
  proof (elim disjE conjE)
    assume step: "res = Inl EINTR" "intr s' < intr s" "held s' r w = Some n"
    with less.hyps [OF step(2,3)] call keep show ?thesis by (subst read_loop.simps) simp
  next
    assume "n = 0" "res = Inl EAGAIN" "held s' r w = Some 0"
    with call keep show ?thesis by (subst read_loop.simps) (simp add: EINTR_def EAGAIN_def)
  next
    assume "0 < n" "res = Inr (min CHECK_LENGTH n)" "held s' r w = Some (n - min CHECK_LENGTH n)"
    with call keep assms(2) show ?thesis by (subst read_loop.simps) (simp add: CHECK_LENGTH_def)
  qed
qed

lemma write_loop_held:
  assumes "held s r w = Some 0"
  shows "\<exists>s' n. write_loop P w a s = Some (s', readable s a CHECK_LENGTH) \<and> n \<le> CHECK_LENGTH
    \<and> held s' r w = Some n \<and> readable s' = readable s"
  using assms
proof (induction "intr s" arbitrary: s rule: less_induct)
  case less
  obtain s' res where call: "po_write P s w a CHECK_LENGTH = (s', res)" by (cases "po_write P s w a CHECK_LENGTH")
  note keep = pipe_readable(4) [OF call]
  have small: "0 + CHECK_LENGTH \<le> 4096" by (simp add: CHECK_LENGTH_def)
  from write_held [OF less.prems small call] show ?case
  proof (elim disjE conjE exE)
    assume step: "res = Inl EINTR" "intr s' < intr s" "held s' r w = Some 0"
    with less.hyps [OF step(2,3)] call keep show ?thesis by (subst write_loop.simps) simp
  next
    assume "readable s a CHECK_LENGTH" "res = Inr CHECK_LENGTH" "held s' r w = Some (0 + CHECK_LENGTH)"
    with call keep show ?thesis by (subst write_loop.simps) (simp add: CHECK_LENGTH_def)
  next
    fix e assume "\<not> readable s a CHECK_LENGTH" "res = Inl e" "e \<noteq> EINTR" "held s' r w = Some 0"
    with call keep show ?thesis by (subst write_loop.simps) (auto intro: exI [of _ 0])
  qed
qed

lemma open_pipe_cases:
  obtains (failed) s' e where "open_pipe P s m = (s', m, Inl e)" "readable s' = readable s" "dead s' (read_fd m)"
  | (opened) s' m' where "open_pipe P s m = (s', m', Inr ())" "readable s' = readable s"
      "held s' (read_fd m') (write_fd m') = Some 0"
proof -
  let ?s = "po_close P (po_close P s (read_fd m)) (write_fd m)"
  have keep: "readable ?s = readable s" and dead: "dead ?s (read_fd m)" using close_dead by (simp_all add: pipe_readable(2))
  show thesis
  proof (cases rule: create_pipe_cases [of ?s])
    case (failed s' e)
    with keep dead that(1) [of s' e] show ?thesis by (simp add: open_pipe_def)
  next
    case (made s' r w)
    with keep that(2) [of s' "\<lparr>read_fd = r, write_fd = w\<rparr>"] show ?thesis by (simp add: open_pipe_def)
  qed
qed

lemma read_phase:
  assumes "pipe_ok held dead (s, m)"
  obtains (dead_pipe) s' where
      "(if 0 \<le> read_fd m then read_loop P (read_fd m) s else Some (s, False)) = Some (s', False)"
      "readable s' = readable s"
  | (live_pipe) s' where
      "(if 0 \<le> read_fd m then read_loop P (read_fd m) s else Some (s, False)) = Some (s', True)"
      "readable s' = readable s" "held s' (read_fd m) (write_fd m) = Some 0"
  using assms read_loop_dead [of s "read_fd m"] read_loop_held [of s "read_fd m" "write_fd m"]
  by (cases "read_fd m < 0") (auto simp: pipe_ok_def)

text \<open>
  \<open>validate\<close> returns. It answers yes only for a non-null address whose bytes can be read, and no for such an address only
  when a new pipe was needed and could not be made.
\<close>

lemma validate_correct:
  assumes "pipe_ok held dead (s, m)"
  shows "\<exists>s' m' b. validate P addr (s, m) = Some ((s', m'), b) \<and> pipe_ok held dead (s', m') \<and> readable s' = readable s
    \<and> (b \<longrightarrow> addr \<noteq> 0 \<and> readable s addr CHECK_LENGTH)
    \<and> ((\<forall>s. \<not> isl (snd (create_pipe P s))) \<longrightarrow> b = (addr \<noteq> 0 \<and> readable s addr CHECK_LENGTH))"
proof (cases "addr = 0")
  case True
  with assms show ?thesis by (intro exI [of _ s] exI [of _ m] exI [of _ False]) (simp add: validate_def)
next
  case False
  have finish: ?thesis
    if read: "(if 0 \<le> read_fd m then read_loop P (read_fd m) s else Some (s, False)) = Some (s1, v)"
      and opened: "(if \<not> v then open_pipe P s1 m else (s1, m, Inr ())) = (s2, m2, Inr ())"
      and live: "held s2 (read_fd m2) (write_fd m2) = Some 0" "readable s2 = readable s" for s1 v s2 m2
  proof -
    obtain s' n where "write_loop P (write_fd m2) addr s2 = Some (s', readable s2 addr CHECK_LENGTH)"
        "n \<le> CHECK_LENGTH" "held s' (read_fd m2) (write_fd m2) = Some n" "readable s' = readable s2"
      using write_loop_held [OF live(1)] by blast
    then show ?thesis using False live(2)
      by (auto simp: validate_def read opened pipe_ok_def)
  qed
  from assms show ?thesis
  proof (cases rule: read_phase)
    case (live_pipe s1)
    then show ?thesis using finish [of s1 True s1 m] by simp
  next
    case (dead_pipe s1)
    show ?thesis
    proof (cases rule: open_pipe_cases [of s1 m])
      case (opened s2 m2)
      then show ?thesis using finish [of s1 False s2 m2] dead_pipe by simp
    next
      case (failed s2 e)
      then have "isl (snd (create_pipe P (po_close P (po_close P s1 (read_fd m)) (write_fd m))))"
        by (simp add: open_pipe_def split: prod.splits sum.splits)
      then show ?thesis using failed dead_pipe False
        by (auto simp: validate_def pipe_ok_def)
    qed
  qed
qed

end

section \<open>Validation of addresses\<close>

text \<open>
  A kernel of either kind with room for one pipe, which a new one replaces. The first \<open>sp_intr\<close> reads and writes of the pipe are
  interrupted.
\<close>

record sim_pipe =
  sp_pipe :: "(int \<times> int \<times> nat) option"
  sp_nonblock :: "int set"
  sp_next :: nat
  sp_intr :: nat
  sp_readable :: "usize \<Rightarrow> nat \<Rightarrow> bool"

definition sp_held :: "sim_pipe \<Rightarrow> int \<Rightarrow> int \<Rightarrow> nat option" where
  "sp_held s r w = (case sp_pipe s of
     Some (r', w', n) \<Rightarrow> if r = r' \<and> w = w' \<and> r \<in> sp_nonblock s \<and> w \<in> sp_nonblock s then Some n else None
   | None \<Rightarrow> None)"

definition sp_dead :: "sim_pipe \<Rightarrow> int \<Rightarrow> bool" where
  "sp_dead s fd = (case sp_pipe s of Some (r, w, _) \<Rightarrow> fd \<noteq> r \<and> fd \<noteq> w | None \<Rightarrow> True)"

definition sp_piped :: "sim_pipe \<Rightarrow> int \<Rightarrow> int \<Rightarrow> bool" where
  "sp_piped s r w \<longleftrightarrow> sp_pipe s = Some (r, w, 0)"

definition sp_nonblocking :: "sim_pipe \<Rightarrow> int \<Rightarrow> bool" where
  "sp_nonblocking s fd \<longleftrightarrow> fd \<in> sp_nonblock s"

definition sp_new_pipe :: "bool \<Rightarrow> sim_pipe \<Rightarrow> sim_pipe \<times> (int + int \<times> int)" where
  "sp_new_pipe nb s = (let r = int (sp_next s); w = r + 1
     in (s\<lparr>sp_pipe := Some (r, w, 0), sp_next := sp_next s + 2, sp_nonblock := if nb then {r, w} else {}\<rparr>, Inr (r, w)))"

definition sp_fcntl :: "sim_pipe \<Rightarrow> int \<Rightarrow> fcntl_cmd \<Rightarrow> sim_pipe \<times> (int + int)" where
  "sp_fcntl s fd c =
     (if sp_dead s fd then (s, Inl 9)
      else case c of
        F_SETFL f \<Rightarrow> (s\<lparr>sp_nonblock := if f AND O_NONBLOCK = O_NONBLOCK then insert fd (sp_nonblock s)
                                         else sp_nonblock s - {fd}\<rparr>, Inr 0)
      | _ \<Rightarrow> (s, Inr 0))"

definition sp_read :: "sim_pipe \<Rightarrow> int \<Rightarrow> nat \<Rightarrow> sim_pipe \<times> (int + nat)" where
  "sp_read s fd k =
     (case sp_pipe s of
        Some (r, w, n) \<Rightarrow>
          if fd \<noteq> r then (s, Inl 9)
          else if 0 < sp_intr s then (s\<lparr>sp_intr := sp_intr s - 1\<rparr>, Inl EINTR)
          else if n = 0 then (s, Inl EAGAIN)
          else (s\<lparr>sp_pipe := Some (r, w, n - min k n)\<rparr>, Inr (min k n))
      | None \<Rightarrow> (s, Inl 9))"

definition sp_write :: "sim_pipe \<Rightarrow> int \<Rightarrow> usize \<Rightarrow> nat \<Rightarrow> sim_pipe \<times> (int + nat)" where
  "sp_write s fd a k =
     (case sp_pipe s of
        Some (r, w, n) \<Rightarrow>
          if fd \<noteq> w then (s, Inl 9)
          else if 0 < sp_intr s then (s\<lparr>sp_intr := sp_intr s - 1\<rparr>, Inl EINTR)
          else if \<not> sp_readable s a k then (s, Inl 14)
          else if 4096 < n + k then (s, Inl EAGAIN)
          else (s\<lparr>sp_pipe := Some (r, w, n + k)\<rparr>, Inr k)
      | None \<Rightarrow> (s, Inl 9))"

definition sim_pipe_os :: "bool \<Rightarrow> sim_pipe pipe_os" where
  "sim_pipe_os bsd =
     \<lparr>po_bsd = bsd, po_pipe = sp_new_pipe False, po_fcntl = sp_fcntl, po_pipe2 = sp_new_pipe True,
      po_close = (\<lambda>s fd. if sp_dead s fd then s else s\<lparr>sp_pipe := None\<rparr>), po_read = sp_read, po_write = sp_write\<rparr>"

lemma nonblock_set [simp]: "(f OR O_NONBLOCK) AND O_NONBLOCK = O_NONBLOCK"
  by (rule bit_eqI) (auto simp: bit_and_iff bit_or_iff)

interpretation sim_pipe: pipe_laws "sim_pipe_os bsd" sp_held sp_dead sp_readable sp_intr sp_piped sp_nonblocking for bsd
  by unfold_locales
     (auto simp: sim_pipe_os_def sp_new_pipe_def sp_fcntl_def sp_read_def sp_write_def sp_held_def sp_dead_def sp_piped_def
       sp_nonblocking_def Let_def EINTR_def EAGAIN_def
       split: option.splits if_splits prod.splits fcntl_cmd.splits)

lemma sim_pipes_made: "\<forall>s. \<not> isl (snd (create_pipe (sim_pipe_os bsd) s))"
  by (cases bsd) (auto simp: create_pipe_def create_pipe_linux_def create_pipe_bsd_def set_flags_def sim_pipe_os_def
      sp_new_pipe_def sp_fcntl_def sp_dead_def Let_def)

definition sim_space :: sim_pipe where
  "sim_space = \<lparr>sp_pipe = None, sp_nonblock = {}, sp_next = 3, sp_intr = 2, sp_readable = (\<lambda>a k. 4096 \<le> a \<and> unat a + k \<le> 8192)\<rparr>"

text \<open>
  C20. \<open>validate\<close> always returns, however often its system calls are interrupted, and keeps its pipe usable: it holds at most
  one check between two calls, so that it never fills up, and a pipe that was closed elsewhere is replaced. The answer is
  yes only if the address is not null and its bytes can be read; it is exactly that whenever pipes can be made.
\<close>

theorem validate_exact:
  assumes "pipe_laws P held dead readable intr piped nonblock" "pipe_ok held dead (s, m)"
  shows "\<exists>s' m' b. validate P addr (s, m) = Some ((s', m'), b) \<and> pipe_ok held dead (s', m') \<and> readable s' = readable s
    \<and> (b \<longrightarrow> addr \<noteq> 0 \<and> readable s addr CHECK_LENGTH)
    \<and> ((\<forall>s. \<not> isl (snd (create_pipe P s))) \<longrightarrow> b = (addr \<noteq> 0 \<and> readable s addr CHECK_LENGTH))"
  using assms(2) by (rule pipe_laws.validate_correct [OF assms(1)])

theorem validate_exact_witness:
  "\<exists>s' m'. validate (sim_pipe_os True) 0x1010 (sim_space, MEM_VALIDATE_PIPE) = Some ((s', m'), True)
    \<and> validate (sim_pipe_os False) 0x1FF8 (sim_space, MEM_VALIDATE_PIPE) \<noteq> Some ((s', m'), True)"
proof -
  have ok: "pipe_ok sp_held sp_dead (sim_space, MEM_VALIDATE_PIPE)"
    by (simp add: pipe_ok_def MEM_VALIDATE_PIPE_def)
  note exact = validate_exact [OF sim_pipe.pipe_laws_axioms ok]
  have "sp_readable sim_space 0x1010 CHECK_LENGTH" "\<not> sp_readable sim_space 0x1FF8 CHECK_LENGTH"
    by (simp_all add: sim_space_def CHECK_LENGTH_def)
  then show ?thesis using exact [of True "0x1010"] exact [of False "0x1FF8"] sim_pipes_made by fastforce
qed

end
