(* ===== verification/Unwind.thy ===== *)
theory Unwind
  imports Profiler Addr_Validate
begin

text \<open>
  What the stack unwinders share. The callback that \<^verbatim>\<open>perf_signal_handler\<close> hands to \<^verbatim>\<open>TraceImpl::trace\<close> is \<open>trace_cb\<close>; memory
  is a partial function from addresses to bytes; the locale \<open>validator\<close> is what an unwinder relies on when it asks whether
  an address can be read, and the pipes of theory \<open>Addr_Validate\<close> provide it. The locale \<open>frame_source\<close> is a loop that offers
  frames to that callback: whatever the source, the loop ends, and collects what \<open>trace_loop\<close> of theory \<open>Profiler\<close> does on
  the list of the first \<open>MAX_DEPTH + 1\<close> frames.
\<close>

section \<open>The callback\<close>

type_synonym backtrace = "Frame list \<times> nat"

definition trace_cb :: "config \<Rightarrow> (usize \<Rightarrow> bool) \<Rightarrow> backtrace \<Rightarrow> Frame \<Rightarrow> backtrace \<times> bool" where
  "trace_cb cfg blocked = (\<lambda>(bt, index) frame.
     if frame_pointer_feature cfg \<and> blocked (ip frame) then ((bt, index), False)
     else if index < MAX_DEPTH cfg then ((bt @ [frame], index + 1), True)
     else ((bt, index), False))"

text \<open>The first \<open>n\<close> frames of a source whose next frame and rest are \<open>nxt\<close>.\<close>

primrec offered :: "('s \<Rightarrow> (Frame \<times> 's) option) \<Rightarrow> nat \<Rightarrow> 's \<Rightarrow> Frame list" where
  "offered nxt 0 s = []"
| "offered nxt (Suc n) s = (case nxt s of None \<Rightarrow> [] | Some (f, s') \<Rightarrow> f # offered nxt n s')"

lemma length_offered: "length (offered nxt n s) \<le> n"
  by (induction n arbitrary: s) (auto split: option.split)

locale frame_source =
  fixes run :: "backtrace \<Rightarrow> 's \<Rightarrow> ('v \<times> backtrace) outcome option"
    and nxt :: "'s \<Rightarrow> (Frame \<times> 's) option"
    and inv :: "'s \<Rightarrow> bool"
    and cfg :: config
    and blocked :: "usize \<Rightarrow> bool"
  assumes run_end: "inv s \<Longrightarrow> nxt s = None \<Longrightarrow> \<exists>v. run c s = Some (Return (v, c))"
    and run_inv: "inv s \<Longrightarrow> nxt s = Some (f, s') \<Longrightarrow> inv s'"
    and run_refused: "inv s \<Longrightarrow> nxt s = Some (f, s') \<Longrightarrow> trace_cb cfg blocked c f = (c', False)
      \<Longrightarrow> \<exists>v. run c s = Some (Return (v, c'))"
    and run_taken: "inv s \<Longrightarrow> nxt s = Some (f, s') \<Longrightarrow> trace_cb cfg blocked c f = (c', True)
      \<Longrightarrow> run c s = run c' s'"
begin

lemma run_trace_loop_from:
  assumes "inv s" "MAX_DEPTH cfg < index + n"
  shows "\<exists>v index'. run (bt, index) s = Some (Return (v, trace_loop cfg blocked (offered nxt n s) bt index, index'))"
  using assms
proof (induction n arbitrary: s bt index)
  case 0
  show ?case
  proof (cases "nxt s")
    case None
    with run_end [OF "0.prems"(1)] show ?thesis by fastforce
  next
    case (Some fs)
    have "trace_cb cfg blocked (bt, index) (fst fs) = ((bt, index), False)"
      using "0.prems"(2) by (simp add: trace_cb_def)
    with run_refused [OF "0.prems"(1), of "fst fs" "snd fs"] Some show ?thesis by fastforce
  qed
next
  case (Suc n)
  show ?case
  proof (cases "nxt s")
    case None
    with run_end [OF Suc.prems(1)] show ?thesis by fastforce
  next
    case (Some fs)
    then obtain f s' where next_frame: "nxt s = Some (f, s')" by (cases fs) auto
    note refused = run_refused [OF Suc.prems(1) next_frame, of "(bt, index)" "(bt, index)"]
    note taken = run_taken [OF Suc.prems(1) next_frame, of "(bt, index)" "(bt @ [f], index + 1)"]
    from Suc.IH [OF run_inv [OF Suc.prems(1) next_frame], of "index + 1" "bt @ [f]"] Suc.prems(2) refused taken next_frame
    show ?thesis by (auto simp: trace_cb_def split: if_splits)
  qed
qed

lemma run_trace_loop:
  assumes "inv s"
  shows "\<exists>v index. run ([], 0) s =
    Some (Return (v, trace_loop cfg blocked (offered nxt (MAX_DEPTH cfg + 1) s) [] 0, index))"
  using assms by (rule run_trace_loop_from) simp

end

section \<open>Memory\<close>

type_synonym memory = "usize \<Rightarrow> u8 option"

definition mapped :: "memory \<Rightarrow> usize \<Rightarrow> nat \<Rightarrow> bool" where
  "mapped mem a k = list_all (\<lambda>i. mem (a + of_nat i) \<noteq> None) [0..<k]"

definition mem_bytes :: "memory \<Rightarrow> usize \<Rightarrow> nat \<Rightarrow> u8 list" where
  "mem_bytes mem a k = map (\<lambda>i. the (mem (a + of_nat i))) [0..<k]"

text \<open>\<^verbatim>\<open>std::ptr::read\<close> and \<^verbatim>\<open>std::ptr::read_unaligned\<close> of \<open>k\<close> bytes; the former asks for alignment.\<close>

definition ptr_read_unaligned :: "memory \<Rightarrow> usize \<Rightarrow> nat \<Rightarrow> u8 list outcome" where
  "ptr_read_unaligned mem a k = (if mapped mem a k then Return (mem_bytes mem a k) else Panic OutOfBoundsRead)"

definition ptr_read :: "memory \<Rightarrow> usize \<Rightarrow> nat \<Rightarrow> nat \<Rightarrow> u8 list outcome" where
  "ptr_read mem a align k =
     (if unat a mod align = 0 then ptr_read_unaligned mem a k else Panic MisalignedRead)"

lemma mapped_le: "mapped mem a k \<Longrightarrow> j \<le> k \<Longrightarrow> mapped mem a j"
  by (auto simp: mapped_def list_all_iff)

section \<open>Checked addresses\<close>

text \<open>
  The contract of an address check whose state is \<open>'v\<close>: it returns, keeps its state in order, and says yes exactly for the
  non-null addresses whose sixteen bytes are mapped.
\<close>

locale validator =
  fixes check :: "usize \<Rightarrow> 'v \<Rightarrow> ('v \<times> bool) option"
    and vinv :: "'v \<Rightarrow> bool"
    and mem :: memory
  assumes check_exact: "vinv v \<Longrightarrow> \<exists>v'. check a v = Some (v', a \<noteq> 0 \<and> mapped mem a CHECK_LENGTH) \<and> vinv v'"
begin

lemma check_cases:
  assumes "vinv v"
  obtains v' where "check a v = Some (v', a \<noteq> 0 \<and> mapped mem a CHECK_LENGTH)" "vinv v'"
  using check_exact [OF assms] by blast

end

text \<open>
  Pipes provide it, in every state in which new ones can be made and the readable addresses are those of \<open>mem\<close>. The
  invariant says so of the current state; no system call changes what is readable.
\<close>

definition pipe_inv ::
  "('os \<Rightarrow> int \<Rightarrow> int \<Rightarrow> nat option) \<Rightarrow> ('os \<Rightarrow> int \<Rightarrow> bool) \<Rightarrow> ('os \<Rightarrow> usize \<Rightarrow> nat \<Rightarrow> bool) \<Rightarrow> memory
     \<Rightarrow> 'os \<times> Pipes \<Rightarrow> bool" where
  "pipe_inv held dead readable mem v \<longleftrightarrow> pipe_ok held dead v \<and> (\<forall>a. readable (fst v) a CHECK_LENGTH = mapped mem a CHECK_LENGTH)"

lemma pipe_validator:
  assumes "pipe_laws P held dead readable intr piped nonblock" "\<forall>s. \<not> isl (snd (create_pipe P s))"
  shows "validator (validate P) (pipe_inv held dead readable mem) mem"
proof
  fix a and v :: "'a \<times> Pipes"
  assume inv: "pipe_inv held dead readable mem v"
  obtain s m where v: "v = (s, m)" by (cases v)
  with inv have "pipe_ok held dead (s, m)" by (simp add: pipe_inv_def)
  from pipe_laws.validate_correct [OF assms(1) this, of a] assms(2) inv v
  show "\<exists>v'. validate P a v = Some (v', a \<noteq> 0 \<and> mapped mem a CHECK_LENGTH) \<and> pipe_inv held dead readable mem v'"
    by (fastforce simp: pipe_inv_def)
qed

interpretation sim_validator: validator "validate (sim_pipe_os bsd)" "pipe_inv sp_held sp_dead sp_readable mem" mem for bsd mem
  by (rule pipe_validator [OF sim_pipe.pipe_laws_axioms sim_pipes_made])

end
