(* ===== verification/Frame_Pointer.thy ===== *)
theory Frame_Pointer
  imports Unwind
begin

text \<open>
  \<^verbatim>\<open>src/src/backtrace/frame_pointer.rs\<close>: the unwinder that follows the chain of saved frame pointers. The interrupted
  context is the value of its frame pointer register (\<open>ucontext\<close>; on macOS the machine context can be missing). The loop reads
  memory through raw pointers, behind an address check; a read of memory that is not mapped, or off alignment, is a
  \<open>Panic\<close> of the model. The loop ends only if the callback or the chain does, so it is a partial function.
\<close>

section \<open>The unwinder\<close>

record FramePointerLayout =
  fl_frame_pointer :: usize
  fl_ret :: usize

definition layout_of :: "u8 list \<Rightarrow> FramePointerLayout" where
  "layout_of bs = \<lparr>fl_frame_pointer = le_word (take 8 bs), fl_ret = le_word (drop 8 bs)\<rparr>"

definition read_ptr :: "memory \<Rightarrow> usize \<Rightarrow> FramePointerLayout outcome" where
  "read_ptr mem ptr =
     obind (if unat ptr mod 8 = 0 then ptr_read mem ptr 8 16 else ptr_read_unaligned mem ptr 16)
       (\<lambda>bs. Return (layout_of bs))"

datatype ucontext = LinuxContext usize | MacosContext "usize option"

fun context_frame_pointer :: "ucontext \<Rightarrow> usize" where
  "context_frame_pointer (LinuxContext fp) = fp"
| "context_frame_pointer (MacosContext None) = 0"
| "context_frame_pointer (MacosContext (Some fp)) = fp"

partial_function (option) fp_loop ::
  "(usize \<Rightarrow> 'v \<Rightarrow> ('v \<times> bool) option) \<Rightarrow> memory \<Rightarrow> ('c \<Rightarrow> Frame \<Rightarrow> 'c \<times> bool) \<Rightarrow> usize \<Rightarrow> usize \<Rightarrow> 'v \<Rightarrow> 'c
     \<Rightarrow> ('v \<times> 'c) outcome option" where
  "fp_loop check mem cb last_frame_pointer frame_pointer v c =
     (if last_frame_pointer \<noteq> 0 \<and> frame_pointer < last_frame_pointer then Some (Return (v, c))
      else (case check frame_pointer v of
              None \<Rightarrow> None
            | Some (v, valid) \<Rightarrow>
                if \<not> valid then Some (Return (v, c))
                else (case read_ptr mem frame_pointer of
                        Panic e \<Rightarrow> Some (Panic e)
                      | Return l \<Rightarrow>
                          (case cb c \<lparr>ip = fl_ret l\<rparr> of
                             (c, go) \<Rightarrow>
                               if \<not> go then Some (Return (v, c))
                               else (case read_ptr mem frame_pointer of
                                       Panic e \<Rightarrow> Some (Panic e)
                                     | Return l \<Rightarrow>
                                         fp_loop check mem cb frame_pointer (fl_frame_pointer l) v c)))))"

definition fp_trace ::
  "(usize \<Rightarrow> 'v \<Rightarrow> ('v \<times> bool) option) \<Rightarrow> memory \<Rightarrow> ucontext option \<Rightarrow> ('c \<Rightarrow> Frame \<Rightarrow> 'c \<times> bool) \<Rightarrow> 'v \<Rightarrow> 'c
     \<Rightarrow> ('v \<times> 'c) outcome option" where
  "fp_trace check mem uc cb v c =
     (case uc of
        None \<Rightarrow> Some (Return (v, c))
      | Some uc \<Rightarrow> fp_loop check mem cb 0 (context_frame_pointer uc) v c)"

section \<open>The chain of frames\<close>

text \<open>
  \<open>fp_chain mem n prev fp\<close>: the first \<open>n\<close> frames of the chain at \<open>fp\<close>. It ends at the first link that goes down, is null, or
  leaves mapped memory.
\<close>

definition frame_at :: "memory \<Rightarrow> usize \<Rightarrow> FramePointerLayout" where
  "frame_at mem fp = layout_of (mem_bytes mem fp 16)"

definition link_ok :: "memory \<Rightarrow> usize \<Rightarrow> usize \<Rightarrow> bool" where
  "link_ok mem prev fp \<longleftrightarrow> prev \<le> fp \<and> fp \<noteq> 0 \<and> mapped mem fp CHECK_LENGTH"

primrec fp_chain :: "memory \<Rightarrow> nat \<Rightarrow> usize \<Rightarrow> usize \<Rightarrow> Frame list" where
  "fp_chain mem 0 prev fp = []"
| "fp_chain mem (Suc n) prev fp =
     (if link_ok mem prev fp
      then \<lparr>ip = fl_ret (frame_at mem fp)\<rparr> # fp_chain mem n fp (fl_frame_pointer (frame_at mem fp))
      else [])"

lemma read_ptr_mapped: "mapped mem fp CHECK_LENGTH \<Longrightarrow> read_ptr mem fp = Return (frame_at mem fp)"
  by (simp add: read_ptr_def ptr_read_def ptr_read_unaligned_def frame_at_def CHECK_LENGTH_def)

text \<open>The state of the loop: the last frame pointer, the current one, and the state of the address check.\<close>

definition fp_next ::
  "(usize \<Rightarrow> 'v \<Rightarrow> ('v \<times> bool) option) \<Rightarrow> memory \<Rightarrow> usize \<times> usize \<times> 'v \<Rightarrow> (Frame \<times> usize \<times> usize \<times> 'v) option" where
  "fp_next check mem = (\<lambda>(prev, fp, v).
     if link_ok mem prev fp
     then Some (\<lparr>ip = fl_ret (frame_at mem fp)\<rparr>, fp, fl_frame_pointer (frame_at mem fp), fst (the (check fp v)))
     else None)"

lemma offered_fp_next: "offered (fp_next check mem) n (prev, fp, v) = fp_chain mem n prev fp"
  by (induction n arbitrary: prev fp v) (auto simp: fp_next_def)

lemma fp_loop_step:
  assumes "validator check vinv mem" "vinv v"
  shows "fp_loop check mem cb prev fp v c =
    (if link_ok mem prev fp
     then (case cb c \<lparr>ip = fl_ret (frame_at mem fp)\<rparr> of (c', go) \<Rightarrow>
             if go then fp_loop check mem cb fp (fl_frame_pointer (frame_at mem fp)) (fst (the (check fp v))) c'
             else Some (Return (fst (the (check fp v)), c')))
     else Some (Return (if prev \<noteq> 0 \<and> fp < prev then v else fst (the (check fp v)), c)))"
proof -
  obtain v' where check: "check fp v = Some (v', fp \<noteq> 0 \<and> mapped mem fp CHECK_LENGTH)"
    using validator.check_cases [OF assms] by blast
  then have v': "fst (the (check fp v)) = v'" by simp
  show ?thesis
  proof (cases "link_ok mem prev fp")
    case True
    then show ?thesis unfolding v'
      by (subst fp_loop.simps) (simp add: check link_ok_def read_ptr_mapped leD split: prod.split)
  next
    case False
    then show ?thesis unfolding v'
      by (subst fp_loop.simps) (auto simp: check link_ok_def not_less)
  qed
qed

lemma fp_frame_source:
  assumes "validator check vinv mem"
  shows "frame_source (\<lambda>c (prev, fp, v). fp_loop check mem (trace_cb cfg blocked) prev fp v c) (fp_next check mem)
    (\<lambda>(prev, fp, v). vinv v) cfg blocked"
proof
  fix s f s' assume inv: "(\<lambda>(prev, fp, v). vinv v) s" and go: "fp_next check mem s = Some (f, s')"
  obtain prev fp v where s: "s = (prev, fp, v)" by (cases s)
  with inv go validator.check_exact [OF assms, of v fp] show "(\<lambda>(prev, fp, v). vinv v) s'"
    by (auto simp: fp_next_def split: if_splits)
qed (auto simp: fp_next_def fp_loop_step [OF assms] split: if_splits)

interpretation fp_source: frame_source
  "\<lambda>c (prev, fp, v). fp_loop (validate (sim_pipe_os bsd)) mem (trace_cb cfg blocked) prev fp v c"
  "fp_next (validate (sim_pipe_os bsd)) mem" "\<lambda>(prev, fp, v). pipe_inv sp_held sp_dead sp_readable mem v" cfg blocked
  for bsd mem cfg blocked
  by (rule fp_frame_source [OF sim_validator.validator_axioms])

section \<open>Safety and exactness\<close>

text \<open>A callback that refuses or accepts as it likes can make the loop run for ever, but not read unmapped memory.\<close>

lemma fp_loop_returns:
  assumes "validator check vinv mem" "vinv v" "fp_loop check mem cb prev fp v c = Some r"
  shows "\<exists>v' c'. r = Return (v', c') \<and> vinv v'"
proof -
  let ?P = "\<lambda>chk mm (f :: 'b \<Rightarrow> Frame \<Rightarrow> 'b \<times> bool) (l :: usize) (p :: usize) v (c :: 'b) r.
    validator chk vinv mm \<longrightarrow> vinv v \<longrightarrow> (\<exists>v' c'. r = Return (v', c') \<and> vinv v')"
  have "?P check mem cb prev fp v c r"
  proof (rule fp_loop.raw_induct [where P = ?P, OF _ assms(3)])
    fix loop chk mm and f :: "'b \<Rightarrow> Frame \<Rightarrow> 'b \<times> bool" and l p v and c :: 'b and r
    assume IH: "\<And>chk mm f l p v c r. loop chk mm f l p v c = Some r \<Longrightarrow> ?P chk mm f l p v c r"
      and body: "(if l \<noteq> 0 \<and> p < l then Some (Return (v, c))
        else case chk p v of None \<Rightarrow> None
          | Some (v, valid) \<Rightarrow> if \<not> valid then Some (Return (v, c))
              else case read_ptr mm p of
                Return la \<Rightarrow> (case f c \<lparr>ip = fl_ret la\<rparr> of (c, go) \<Rightarrow>
                  if \<not> go then Some (Return (v, c))
                  else case read_ptr mm p of Return la \<Rightarrow> loop chk mm f p (fl_frame_pointer la) v c
                    | Panic e \<Rightarrow> Some (Panic e))
              | Panic e \<Rightarrow> Some (Panic e)) = Some r"
    show "?P chk mm f l p v c r"
    proof (intro impI)
      assume valid: "validator chk vinv mm" and "vinv v"
      obtain v' where chk: "chk p v = Some (v', p \<noteq> 0 \<and> mapped mm p CHECK_LENGTH)" "vinv v'"
        by (rule validator.check_cases [OF valid \<open>vinv v\<close>])
      show "\<exists>v' c'. r = Return (v', c') \<and> vinv v'"
      proof (cases "l \<noteq> 0 \<and> p < l")
        case True
        with body \<open>vinv v\<close> show ?thesis by auto
      next
        case False
        note body = body [unfolded if_not_P [OF False] chk(1) option.case prod.case]
        show ?thesis
        proof (cases "p \<noteq> 0 \<and> mapped mm p CHECK_LENGTH")
          case False
          then show ?thesis using body chk(2) by auto
        next
          case True
          obtain c' go where "f c \<lparr>ip = fl_ret (frame_at mm p)\<rparr> = (c', go)" by fastforce
          then show ?thesis
            using True body chk(2) IH [of chk mm f p "fl_frame_pointer (frame_at mm p)" v' c' r] valid
            by (cases go) (auto simp: read_ptr_mapped)
        qed
      qed
    qed
  qed
  with assms(1,2) show ?thesis by blast
qed


text \<open>A stack of two frames, at 0x1000 and 0x1020, and the words around it.\<close>

definition stack_mem :: memory where
  "stack_mem a = (if 0x1000 \<le> a \<and> a < 0x2000
     then Some (if a = 0x1000 then 0x20 else if a = 0x1001 then 0x10 else if a = 0x1008 then 0xAA
                else if a = 0x1009 then 0x0A else if a = 0x1028 then 0xBB else if a = 0x1029 then 0x0B else 0)
     else None)"

lemma fp_trace_loop:
  assumes "validator check vinv mem" "vinv v"
  shows "\<exists>v' index. fp_trace check mem uc (trace_cb cfg blocked) v ([], 0) = Some (Return (v',
    trace_loop cfg blocked
      (case uc of None \<Rightarrow> [] | Some c \<Rightarrow> fp_chain mem (MAX_DEPTH cfg + 1) 0 (context_frame_pointer c)) [] 0, index))"
proof (cases uc)
  case (Some c)
  have inv: "(\<lambda>(prev, fp, v). vinv v) (0, context_frame_pointer c, v)" using assms(2) by simp
  from frame_source.run_trace_loop [OF fp_frame_source [OF assms(1)] inv, of cfg blocked] Some show ?thesis
    by (simp only: fp_trace_def offered_fp_next option.case prod.case)
qed (simp add: fp_trace_def)

definition space :: "memory \<Rightarrow> sim_pipe" where
  "space mem = \<lparr>sp_pipe = None, sp_nonblock = {}, sp_next = 3, sp_intr = 2, sp_readable = mapped mem\<rparr>"

lemma space_inv: "pipe_inv sp_held sp_dead sp_readable mem (space mem, MEM_VALIDATE_PIPE)"
  by (simp add: pipe_inv_def pipe_ok_def space_def MEM_VALIDATE_PIPE_def)

lemma stack_chain: "3 \<le> n \<Longrightarrow> fp_chain stack_mem n 0 0x1000 = [\<lparr>ip = 0xAAA\<rparr>, \<lparr>ip = 0xBBB\<rparr>]"
proof -
  assume "3 \<le> n"
  then have n: "n = Suc (Suc (Suc (n - 3)))" by simp
  have words: "frame_at stack_mem 0x1000 = \<lparr>fl_frame_pointer = 0x1020, fl_ret = 0xAAA\<rparr>"
    "frame_at stack_mem 0x1020 = \<lparr>fl_frame_pointer = 0, fl_ret = 0xBBB\<rparr>"
    by (simp_all add: frame_at_def layout_of_def mem_bytes_def stack_mem_def upt_rec)
  moreover have "link_ok stack_mem 0 0x1000" "link_ok stack_mem 0x1000 0x1020" "\<not> link_ok stack_mem 0x1020 0"
    by (simp_all add: link_ok_def mapped_def stack_mem_def CHECK_LENGTH_def upt_rec)
  ultimately show ?thesis by (subst n) simp
qed


text \<open>
  The frame pointer unwinder under the signal handler's callback returns, and it collects exactly what the handler makes of
  the chain of frames: of its first \<^verbatim>\<open>MAX_DEPTH + 1\<close> frames, up to the first blocked one, at most \<^verbatim>\<open>MAX_DEPTH\<close>. A chain that
  loops in memory is cut off there. A null context gives no frame.
\<close>

lemma fp_trace_exact:
  assumes "pipe_laws P held dead readable intr piped nonblock" "\<forall>s. \<not> isl (snd (create_pipe P s))"
    and "pipe_inv held dead readable mem v"
  shows "\<exists>v' index. fp_trace (validate P) mem uc (trace_cb cfg blocked) v ([], 0) = Some (Return (v',
    trace_loop cfg blocked
      (case uc of None \<Rightarrow> [] | Some c \<Rightarrow> fp_chain mem (MAX_DEPTH cfg + 1) 0 (context_frame_pointer c)) [] 0, index))"
  using fp_trace_loop [OF pipe_validator [OF assms(1,2)]] assms(3) by blast

lemma fp_trace_exact_witness:
  "\<exists>v index. fp_trace (validate (sim_pipe_os False)) stack_mem (Some (LinuxContext 0x1000)) (trace_cb default_config (\<lambda>_. False))
    (space stack_mem, MEM_VALIDATE_PIPE) ([], 0) = Some (Return (v, [\<lparr>ip = 0xAAA\<rparr>, \<lparr>ip = 0xBBB\<rparr>], index))"
  using fp_trace_exact [OF sim_pipe.pipe_laws_axioms [of False] sim_pipes_made space_inv [of stack_mem], of "Some (LinuxContext 0x1000)"
      default_config "\<lambda>_. False"]
  by (simp add: stack_chain MAX_DEPTH_def default_config_def)

end
