(* ===== verification/Framehop.thy ===== *)
theory Framehop
  imports Frame_Pointer
begin

text \<open>
  \<^verbatim>\<open>src/src/backtrace/framehop_unwinder.rs\<close> and its \<^verbatim>\<open>shlib.rs\<close>: the unwinder on top of the \<^verbatim>\<open>framehop\<close> crate. The crate is a
  parameter: \<open>fh_iter\<close> makes an iterator from the registers, \<open>fh_step\<close> is its \<^verbatim>\<open>next\<close>, which reads the stack through the
  closure it is given and updates the cache inside the iterator. The locale \<open>framehop_iterator\<close> is what the loop relies on.
\<close>

section \<open>Registers\<close>

record UnwindRegsNative =
  ur_ip_or_lr :: u64
  ur_sp :: u64
  ur_fp :: u64

record thread_state =
  ts_pc :: u64
  ts_lr :: u64
  ts_sp :: u64
  ts_fp :: u64

text \<open>The four targets; on macOS the machine context is behind a pointer that can be null. x86-64 has no link register.\<close>

datatype machine_context =
    AarchMacos "thread_state option"
  | X86Macos "thread_state option"
  | AarchLinux thread_state
  | X86Linux thread_state

definition aarch_regs :: "thread_state \<Rightarrow> UnwindRegsNative \<times> u64" where
  "aarch_regs ts = (\<lparr>ur_ip_or_lr = ts_lr ts, ur_sp = ts_sp ts, ur_fp = ts_fp ts\<rparr>, ts_pc ts)"

definition x86_regs :: "thread_state \<Rightarrow> UnwindRegsNative \<times> u64" where
  "x86_regs ts = (\<lparr>ur_ip_or_lr = ts_pc ts, ur_sp = ts_sp ts, ur_fp = ts_fp ts\<rparr>, ts_pc ts)"

fun get_regs_from_context :: "machine_context option \<Rightarrow> (UnwindRegsNative \<times> u64) option" where
  "get_regs_from_context None = None"
| "get_regs_from_context (Some (AarchMacos mcontext)) = map_option aarch_regs mcontext"
| "get_regs_from_context (Some (X86Macos mcontext)) = map_option x86_regs mcontext"
| "get_regs_from_context (Some (AarchLinux ts)) = Some (aarch_regs ts)"
| "get_regs_from_context (Some (X86Linux ts)) = Some (x86_regs ts)"

section \<open>Reading the stack\<close>

unbundle bit_operations_syntax

definition read_stack ::
  "(usize \<Rightarrow> 'v \<Rightarrow> ('v \<times> bool) option) \<Rightarrow> memory \<Rightarrow> u64 \<Rightarrow> 'v \<Rightarrow> ('v \<times> (unit + u64)) outcome option" where
  "read_stack check mem addr v =
     (let aligned_addr = addr AND NOT 7
      in case check aligned_addr v of
           None \<Rightarrow> None
         | Some (v, valid) \<Rightarrow>
             if valid then Some (obind (ptr_read mem aligned_addr 8 8) (\<lambda>bs. Return (v, Inr (le_word bs))))
             else Some (Return (v, Inl ())))"

section \<open>The unwinder\<close>

type_synonym 'v reader = "u64 \<Rightarrow> 'v \<Rightarrow> ('v \<times> (unit + u64)) outcome option"

type_synonym ('it, 'v) fh_step_fn = "'v reader \<Rightarrow> 'it \<Rightarrow> 'v \<Rightarrow> (('it \<times> 'v) \<times> (unit + u64 option)) outcome option"

record ('u, 'cache) FramehopUnwinder =
  fh_unwinder :: 'u
  fh_cache :: 'cache

definition FramehopUnwinder_new ::
  "('m \<Rightarrow> 'u \<Rightarrow> 'u) \<Rightarrow> 'u \<Rightarrow> 'cache \<Rightarrow> 'm list \<Rightarrow> ('u, 'cache) FramehopUnwinder" where
  "FramehopUnwinder_new add_module unwinder_new cache_default objects =
     \<lparr>fh_unwinder = fold add_module objects unwinder_new, fh_cache = cache_default\<rparr>"

partial_function (option) fh_loop ::
  "('it, 'v) fh_step_fn \<Rightarrow> 'v reader \<Rightarrow> ('c \<Rightarrow> Frame \<Rightarrow> 'c \<times> bool) \<Rightarrow> 'it \<Rightarrow> 'v \<Rightarrow> 'c
     \<Rightarrow> (('it \<times> 'v) \<times> 'c) outcome option" where
  "fh_loop fh_step read cb it v c =
     (case fh_step read it v of
        None \<Rightarrow> None
      | Some (Panic e) \<Rightarrow> Some (Panic e)
      | Some (Return ((it, v), res)) \<Rightarrow>
          (case res of
             Inr (Some addr) \<Rightarrow>
               (case cb c \<lparr>ip = addr\<rparr> of
                  (c, go) \<Rightarrow> if go then fh_loop fh_step read cb it v c else Some (Return ((it, v), c)))
           | _ \<Rightarrow> Some (Return ((it, v), c))))"

definition iter_frames ::
  "('u \<Rightarrow> u64 \<Rightarrow> UnwindRegsNative \<Rightarrow> 'cache \<Rightarrow> 'it) \<Rightarrow> ('it \<Rightarrow> 'cache) \<Rightarrow> ('it, 'v) fh_step_fn \<Rightarrow> 'v reader
     \<Rightarrow> ('u, 'cache) FramehopUnwinder \<Rightarrow> machine_context option \<Rightarrow> ('c \<Rightarrow> Frame \<Rightarrow> 'c \<times> bool) \<Rightarrow> 'v \<Rightarrow> 'c
     \<Rightarrow> (('u, 'cache) FramehopUnwinder \<times> 'v \<times> 'c) outcome option" where
  "iter_frames fh_iter it_cache fh_step read u ctx cb v c =
     (case get_regs_from_context ctx of
        None \<Rightarrow> Some (Return (u, v, c))
      | Some (regs, pc) \<Rightarrow>
          (case fh_loop fh_step read cb (fh_iter (fh_unwinder u) pc regs (fh_cache u)) v c of
             None \<Rightarrow> None
           | Some (Panic e) \<Rightarrow> Some (Panic e)
           | Some (Return ((it, v), c)) \<Rightarrow> Some (Return (u\<lparr>fh_cache := it_cache it\<rparr>, v, c))))"

text \<open>\<^verbatim>\<open>trace\<close>: \<open>free\<close> says whether \<^verbatim>\<open>UNWINDER.try_write()\<close> gets the lock.\<close>

definition fh_trace ::
  "('u \<Rightarrow> u64 \<Rightarrow> UnwindRegsNative \<Rightarrow> 'cache \<Rightarrow> 'it) \<Rightarrow> ('it \<Rightarrow> 'cache) \<Rightarrow> ('it, 'v) fh_step_fn \<Rightarrow> 'v reader
     \<Rightarrow> bool \<Rightarrow> ('u, 'cache) FramehopUnwinder \<Rightarrow> machine_context option \<Rightarrow> ('c \<Rightarrow> Frame \<Rightarrow> 'c \<times> bool) \<Rightarrow> 'v \<Rightarrow> 'c
     \<Rightarrow> (('u, 'cache) FramehopUnwinder \<times> 'v \<times> 'c) outcome option" where
  "fh_trace fh_iter it_cache fh_step read free u ctx cb v c =
     (if free then iter_frames fh_iter it_cache fh_step read u ctx cb v c else Some (Return (u, v, c)))"

section \<open>Modules\<close>

text \<open>
  \<open>open_parse\<close> stands for \<^verbatim>\<open>open_mmap\<close> and \<^verbatim>\<open>object::File::parse\<close>, and a parsed object for the sections it names, each with
  its address, size and data, and for its relative address base.
\<close>

record object_section =
  os_address :: u64
  os_size :: u64
  os_data :: "u8 list option"

record object_file =
  of_sections :: "(string \<times> object_section) list"
  of_relative_address_base :: u64

definition base_svma :: "object_file \<Rightarrow> u64" where
  "base_svma f = (case map_of (of_sections f) ''__TEXT'' of
     Some section_ \<Rightarrow> os_address section_ | None \<Rightarrow> of_relative_address_base f)"

definition section_svma_range :: "object_file \<Rightarrow> string \<Rightarrow> (u64 \<times> u64) option" where
  "section_svma_range f name = (case map_of (of_sections f) name of
     Some section_ \<Rightarrow> Some (os_address section_, os_address section_ + os_size section_) | None \<Rightarrow> None)"

definition section_data :: "object_file \<Rightarrow> string \<Rightarrow> u8 list option" where
  "section_data f name = (case map_of (of_sections f) name of Some section_ \<Rightarrow> os_data section_ | None \<Rightarrow> None)"

record loaded_library =
  ll_name :: string
  ll_actual_load_addr :: u64
  ll_len :: u64

record Module =
  mod_name :: string
  mod_avma_range :: "u64 \<times> u64"
  mod_base_avma :: u64
  mod_object :: object_file

definition find_objects :: "(string \<Rightarrow> object_file option) \<Rightarrow> loaded_library list \<Rightarrow> Module list" where
  "find_objects open_parse libs =
     fold (\<lambda>shlib objects.
       let base_avma = ll_actual_load_addr shlib; avma_range = (base_avma, base_avma + ll_len shlib)
       in case open_parse (ll_name shlib) of
            Some obj \<Rightarrow> objects @ [\<lparr>mod_name = from_utf8_lossy (ll_name shlib), mod_avma_range = avma_range,
                                    mod_base_avma = base_avma, mod_object = obj\<rparr>]
          | None \<Rightarrow> objects) libs []"

section \<open>The frames of a sample\<close>

text \<open>A reader never reads a bad address; an iterator that is given such a reader returns.\<close>

definition reader_ok :: "('v \<Rightarrow> bool) \<Rightarrow> 'v reader \<Rightarrow> bool" where
  "reader_ok vinv read \<longleftrightarrow> (\<forall>a v. vinv v \<longrightarrow> (\<exists>v' r. read a v = Some (Return (v', r)) \<and> vinv v'))"

locale framehop_iterator =
  fixes fh_step :: "('it, 'v) fh_step_fn" and vinv :: "'v \<Rightarrow> bool"
  assumes step_returns: "reader_ok vinv read \<Longrightarrow> vinv v
    \<Longrightarrow> \<exists>it' v' res. fh_step read it v = Some (Return ((it', v'), res)) \<and> vinv v'"

definition fh_next :: "('it, 'v) fh_step_fn \<Rightarrow> 'v reader \<Rightarrow> 'it \<times> 'v \<Rightarrow> (Frame \<times> 'it \<times> 'v) option" where
  "fh_next fh_step read = (\<lambda>(it, v).
     case fh_step read it v of
       Some (Return (s, Inr (Some addr))) \<Rightarrow> Some (\<lparr>ip = addr\<rparr>, s)
     | _ \<Rightarrow> None)"

lemma aligned_addr [simp]: "unat (addr AND - 8 :: u64) mod 8 = 0"
proof -
  have "take_bit 3 (addr AND NOT 7) = 0"
    by (simp only: take_bit_eq_mask mask_eq_exp_minus_1) (simp add: and.assoc)
  then have "unat (take_bit 3 (addr AND - 8)) = 0" by simp
  then have "take_bit 3 (unat (addr AND - 8)) = 0" by (simp only: unsigned_take_bit_eq)
  then show ?thesis by (simp add: take_bit_eq_mod)
qed

text \<open>
  \<open>read_stack\<close> gives the word at the aligned address if the sixteen bytes from there are mapped, an error otherwise, and reads
  nothing else.
\<close>

lemma read_stack_exact:
  assumes "validator check vinv mem" "vinv v"
  shows "\<exists>v'. vinv v' \<and> read_stack check mem addr v = Some (Return (v',
    if addr AND NOT 7 \<noteq> 0 \<and> mapped mem (addr AND NOT 7) CHECK_LENGTH
    then Inr (le_word (mem_bytes mem (addr AND NOT 7) 8)) else Inl ()))"
proof -
  let ?a = "addr AND NOT 7"
  obtain v' where check: "check ?a v = Some (v', ?a \<noteq> 0 \<and> mapped mem ?a CHECK_LENGTH)" "vinv v'"
    by (rule validator.check_cases [OF assms])
  have "mapped mem ?a CHECK_LENGTH \<Longrightarrow> mapped mem ?a 8" by (erule mapped_le) (simp add: CHECK_LENGTH_def)
  then have "mapped mem ?a CHECK_LENGTH \<Longrightarrow> ptr_read mem ?a 8 8 = Return (mem_bytes mem ?a 8)"
    by (simp add: ptr_read_def ptr_read_unaligned_def)
  with check show ?thesis by (auto simp: read_stack_def Let_def)
qed

lemma read_stack_ok: "validator check vinv mem \<Longrightarrow> reader_ok vinv (read_stack check mem)"
  using read_stack_exact by (fastforce simp: reader_ok_def)

lemma fh_frame_source:
  fixes fh_step :: "('it, 'v) fh_step_fn"
  assumes "framehop_iterator fh_step vinv" "reader_ok vinv read"
  shows "frame_source (\<lambda>c (it, v). fh_loop fh_step read (trace_cb cfg blocked) it v c) (fh_next fh_step read)
    (\<lambda>(it, v). vinv v) cfg blocked"
proof
  fix s :: "'it \<times> 'v" and c
  assume inv: "(\<lambda>(it, v). vinv v) s"
  obtain it v where s: "s = (it, v)" by (cases s)
  with inv obtain it' v' res where step: "fh_step read it v = Some (Return ((it', v'), res))" "vinv v'"
    using framehop_iterator.step_returns [OF assms] by blast
  note loop = fh_loop.simps [of fh_step read "trace_cb cfg blocked" it v c] step(1)
  show "fh_next fh_step read s = None \<Longrightarrow> \<exists>w. (case s of (it, v) \<Rightarrow> fh_loop fh_step read (trace_cb cfg blocked) it v c)
      = Some (Return (w, c))"
    using s step by (cases res) (auto simp: fh_next_def loop split: option.splits)
  fix f s'
  assume next_frame: "fh_next fh_step read s = Some (f, s')"
  then obtain addr where res: "res = Inr (Some addr)" "f = \<lparr>ip = addr\<rparr>" "s' = (it', v')"
    using s step by (auto simp: fh_next_def split: sum.splits option.splits)
  show "(\<lambda>(it, v). vinv v) s'" using res step by simp
  fix c'
  show "trace_cb cfg blocked c f = (c', False) \<Longrightarrow> \<exists>w. (case s of (it, v) \<Rightarrow> fh_loop fh_step read (trace_cb cfg blocked) it v c)
      = Some (Return (w, c'))"
    using s res by (simp add: loop)
  show "trace_cb cfg blocked c f = (c', True) \<Longrightarrow> (case s of (it, v) \<Rightarrow> fh_loop fh_step read (trace_cb cfg blocked) it v c)
      = (case s' of (it, v) \<Rightarrow> fh_loop fh_step read (trace_cb cfg blocked) it v c')"
    using s res by (simp add: loop)
qed

text \<open>An iterator that reports the program counter and then follows saved frame pointers, as \<^verbatim>\<open>framehop\<close> does without unwind tables.\<close>

record fp_iter =
  fi_pending :: "u64 option"
  fi_fp :: u64

definition fp_iter_new :: "unit \<Rightarrow> u64 \<Rightarrow> UnwindRegsNative \<Rightarrow> unit \<Rightarrow> fp_iter" where
  "fp_iter_new u pc regs cache = \<lparr>fi_pending = Some pc, fi_fp = ur_fp regs\<rparr>"

definition fp_iter_step :: "(fp_iter, 'v) fh_step_fn" where
  "fp_iter_step read it v =
     (case fi_pending it of
        None \<Rightarrow> Some (Return ((it, v), Inr None))
      | Some pc \<Rightarrow>
          (case read (fi_fp it + 8) v of
             None \<Rightarrow> None
           | Some (Panic e) \<Rightarrow> Some (Panic e)
           | Some (Return (v, Inl _)) \<Rightarrow> Some (Return ((it\<lparr>fi_pending := None\<rparr>, v), Inr (Some pc)))
           | Some (Return (v, Inr ret)) \<Rightarrow>
               (case read (fi_fp it) v of
                  None \<Rightarrow> None
                | Some (Panic e) \<Rightarrow> Some (Panic e)
                | Some (Return (v, Inl _)) \<Rightarrow> Some (Return ((it\<lparr>fi_pending := None\<rparr>, v), Inr (Some pc)))
                | Some (Return (v, Inr fp)) \<Rightarrow>
                    Some (Return ((\<lparr>fi_pending = Some ret, fi_fp = fp\<rparr>, v), Inr (Some pc))))))"

interpretation fp_iter: framehop_iterator fp_iter_step vinv for vinv
proof
  fix read and v :: 'a and it :: fp_iter
  assume ok: "reader_ok vinv read" and "vinv v"
  then obtain v1 r1 where 1: "read (fi_fp it + 8) v = Some (Return (v1, r1))" "vinv v1" unfolding reader_ok_def by blast
  with ok obtain v2 r2 where 2: "read (fi_fp it) v1 = Some (Return (v2, r2))" "vinv v2" unfolding reader_ok_def by blast
  show "\<exists>it' v' res. fp_iter_step read it v = Some (Return ((it', v'), res)) \<and> vinv v'"
    using 1 2 \<open>vinv v\<close> by (cases "fi_pending it"; cases r1; cases r2) (auto simp: fp_iter_step_def)
qed

interpretation fh_source: frame_source
  "\<lambda>c (it, v). fh_loop fp_iter_step (read_stack (validate (sim_pipe_os bsd)) mem) (trace_cb cfg blocked) it v c"
  "fh_next fp_iter_step (read_stack (validate (sim_pipe_os bsd)) mem)"
  "\<lambda>(it, v). pipe_inv sp_held sp_dead sp_readable mem v" cfg blocked for bsd mem cfg blocked
  by (rule fh_frame_source [OF fp_iter.framehop_iterator_axioms read_stack_ok [OF sim_validator.validator_axioms]])

lemma fh_trace_loop:
  assumes "pipe_laws P held dead readable intr piped nonblock" "\<forall>s. \<not> isl (snd (create_pipe P s))"
    and "pipe_inv held dead readable mem v"
    and "framehop_iterator fh_step (pipe_inv held dead readable mem)"
  shows "\<exists>u' v' index. fh_unwinder u' = fh_unwinder u \<and>
    fh_trace fh_iter it_cache fh_step (read_stack (validate P) mem) free u ctx (trace_cb cfg blocked) v ([], 0) =
      Some (Return (u', v', trace_loop cfg blocked
        (case get_regs_from_context ctx of
           Some (regs, pc) \<Rightarrow>
             if free then offered (fh_next fh_step (read_stack (validate P) mem)) (MAX_DEPTH cfg + 1)
               (fh_iter (fh_unwinder u) pc regs (fh_cache u), v) else []
         | None \<Rightarrow> []) [] 0, index))"
proof (cases "free \<and> get_regs_from_context ctx \<noteq> None")
  case True
  then obtain regs pc where regs: "free" "get_regs_from_context ctx = Some (regs, pc)" by auto
  let ?it = "fh_iter (fh_unwinder u) pc regs (fh_cache u)"
  have inv: "(\<lambda>(it, v). pipe_inv held dead readable mem v) (?it, v)" using assms(3) by simp
  note source = fh_frame_source [OF assms(4) read_stack_ok [OF pipe_validator [OF assms(1,2)]]]
  obtain w index where "fh_loop fh_step (read_stack (validate P) mem) (trace_cb cfg blocked) ?it v ([], 0) =
      Some (Return (w, trace_loop cfg blocked
        (offered (fh_next fh_step (read_stack (validate P) mem)) (MAX_DEPTH cfg + 1) (?it, v)) [] 0, index))"
    using frame_source.run_trace_loop [OF source inv, of cfg blocked] unfolding prod.case by blast
  then show ?thesis using regs
    by (cases w) (simp only: fh_trace_def iter_frames_def if_True option.case prod.case outcome.case, fastforce)
next
  case False
  then show ?thesis by (cases v) (auto simp: fh_trace_def iter_frames_def split: option.splits)
qed



text \<open>The modules are the libraries that open and parse, in order, each over its own range of addresses.\<close>

lemma find_objects_modules:
  "map mod_base_avma (find_objects open_parse libs) =
     map ll_actual_load_addr (filter (\<lambda>l. open_parse (ll_name l) \<noteq> None) libs)"
proof -
  have "map mod_base_avma (fold (\<lambda>shlib objects.
       let base_avma = ll_actual_load_addr shlib; avma_range = (base_avma, base_avma + ll_len shlib)
       in case open_parse (ll_name shlib) of
            Some obj \<Rightarrow> objects @ [\<lparr>mod_name = from_utf8_lossy (ll_name shlib), mod_avma_range = avma_range,
                                    mod_base_avma = base_avma, mod_object = obj\<rparr>]
          | None \<Rightarrow> objects) libs ms) =
     map mod_base_avma ms @ map ll_actual_load_addr (filter (\<lambda>l. open_parse (ll_name l) \<noteq> None) libs)" for ms
    by (induction libs arbitrary: ms) (auto simp: Let_def split: option.split)
  then show ?thesis by (simp add: find_objects_def)
qed

end
