(* ===== verification/Backtrace.thy ===== *)
theory Backtrace
  imports Framehop
begin

text \<open>
  \<^verbatim>\<open>src/src/backtrace/mod.rs\<close> and \<^verbatim>\<open>src/src/backtrace/backtrace_rs.rs\<close>: what the crate implements of its traits by forwarding to the
  \<^verbatim>\<open>backtrace\<close> crate, and the signal handler on top of a real unwinder. The crate is a parameter: a frame \<open>'f\<close> of it with its
  accessors, \<^verbatim>\<open>trace_unsynchronized\<close>, and \<^verbatim>\<open>resolve_frame\<close>. The locale \<open>backtrace_crate\<close> is what it documents: the callback gets
  the frames of the stack from the innermost one until it refuses, and what can be known of a frame depends on its address.
\<close>

section \<open>The crate\<close>

record 'n crate_symbol =
  cs_name :: "'n option"
  cs_addr :: "usize option"
  cs_lineno :: "u32 option"
  cs_filename :: "string option"

text \<open>\<^verbatim>\<open>impl Symbol for backtrace::Symbol\<close>; \<open>as_bytes\<close> reads a \<^verbatim>\<open>SymbolName\<close>.\<close>

definition backtrace_Symbol :: "('n \<Rightarrow> string) \<Rightarrow> 'n crate_symbol \<Rightarrow> BtSymbol" where
  "backtrace_Symbol as_bytes s =
     \<lparr>bt_name = map_option as_bytes (cs_name s), bt_addr = cs_addr s, bt_lineno = cs_lineno s, bt_filename = cs_filename s\<rparr>"

text \<open>
  \<^verbatim>\<open>impl Frame for backtrace::Frame\<close>: the address of a frame, its symbol address, and its symbols in the order in which the callback
  of \<^verbatim>\<open>resolve_symbol\<close> gets them.
\<close>

record ('f, 'n) crate_frames =
  cf_ip :: "'f \<Rightarrow> usize"
  cf_symbol_address :: "'f \<Rightarrow> usize"
  cf_resolve_frame :: "'f \<Rightarrow> 'n crate_symbol list"
  cf_as_bytes :: "'n \<Rightarrow> string"

definition bt_Frame :: "('f, 'n) crate_frames \<Rightarrow> 'f \<Rightarrow> Frame" where
  "bt_Frame K f = \<lparr>ip = cf_ip K f\<rparr>"

definition bt_symbol_address :: "('f, 'n) crate_frames \<Rightarrow> 'f \<Rightarrow> usize" where
  "bt_symbol_address K f = cf_symbol_address K f"

definition bt_resolve_symbol :: "('f, 'n) crate_frames \<Rightarrow> 'f \<Rightarrow> BtSymbol list" where
  "bt_resolve_symbol K f = map (backtrace_Symbol (cf_as_bytes K)) (cf_resolve_frame K f)"

text \<open>\<^verbatim>\<open>Trace::trace\<close> ignores the interrupted context: it unwinds its own stack, the handler's frames included.\<close>

definition bt_trace ::
  "('f, 'n) crate_frames \<Rightarrow> (('c \<Rightarrow> 'f \<Rightarrow> 'c \<times> bool) \<Rightarrow> 'c \<Rightarrow> 'c) \<Rightarrow> ucontext option \<Rightarrow> ('c \<Rightarrow> Frame \<Rightarrow> 'c \<times> bool) \<Rightarrow> 'c \<Rightarrow> 'c" where
  "bt_trace K trace_unsynchronized uc cb c = trace_unsynchronized (\<lambda>c f. cb c (bt_Frame K f)) c"

text \<open>Offering the frames of a list to a callback until it refuses one.\<close>

primrec feed :: "('c \<Rightarrow> 'f \<Rightarrow> 'c \<times> bool) \<Rightarrow> 'f list \<Rightarrow> 'c \<Rightarrow> 'c" where
  "feed cb [] c = c"
| "feed cb (f # fs) c = (case cb c f of (c, go) \<Rightarrow> if go then feed cb fs c else c)"

lemma feed_map: "feed (\<lambda>c f. cb c (g f)) fs c = feed cb (map g fs) c"
  by (induction fs arbitrary: c) (auto split: prod.split)

locale backtrace_crate =
  fixes K :: "('f, 'n) crate_frames" and trace_unsynchronized :: "('c \<Rightarrow> 'f \<Rightarrow> 'c \<times> bool) \<Rightarrow> 'c \<Rightarrow> 'c" and stack :: "'f list"
  assumes walks: "trace_unsynchronized cb c = feed cb stack c"
    and by_address: "f \<in> set stack \<Longrightarrow> g \<in> set stack \<Longrightarrow> cf_ip K f = cf_ip K g
      \<Longrightarrow> cf_symbol_address K f = cf_symbol_address K g \<and> cf_resolve_frame K f = cf_resolve_frame K g"
begin

lemma bt_trace_feed: "bt_trace K trace_unsynchronized uc cb c = feed cb (map (bt_Frame K) stack) c"
  by (simp add: bt_trace_def walks feed_map)

text \<open>So the frame that the rest of the program keeps, an address, stands for the crate's frame.\<close>

lemma address_determines:
  "\<exists>symbol_address resolve. \<forall>f \<in> set stack. bt_symbol_address K f = symbol_address (bt_Frame K f) \<and>
     bt_resolve_symbol K f = resolve (ip (bt_Frame K f))"
proof -
  let ?pick = "\<lambda>a. SOME f. f \<in> set stack \<and> cf_ip K f = a"
  have "bt_symbol_address K f = bt_symbol_address K (?pick (cf_ip K f)) \<and>
      bt_resolve_symbol K f = bt_resolve_symbol K (?pick (cf_ip K f))" if "f \<in> set stack" for f
    using someI [of "\<lambda>g. g \<in> set stack \<and> cf_ip K g = cf_ip K f" f] that by_address [of f "?pick (cf_ip K f)"]
    by (simp add: bt_symbol_address_def bt_resolve_symbol_def)
  then show ?thesis
    by (intro exI [of _ "\<lambda>fr. bt_symbol_address K (?pick (ip fr))"] exI [of _ "\<lambda>a. bt_resolve_symbol K (?pick a)"])
      (simp add: bt_Frame_def)
qed

end

section \<open>A source of frames\<close>

definition list_next :: "Frame list \<Rightarrow> (Frame \<times> Frame list) option" where
  "list_next fs = (case fs of [] \<Rightarrow> None | f # fs \<Rightarrow> Some (f, fs))"

lemma offered_list: "offered list_next n fs = take n fs"
proof (induction n arbitrary: fs)
  case (Suc n)
  then show ?case by (cases fs) (simp_all add: list_next_def)
qed simp

interpretation list_source: frame_source
  "\<lambda>c fs. Some (Return ((), feed (trace_cb cfg blocked) fs c))" list_next "\<lambda>_. True" cfg blocked for cfg blocked
  by unfold_locales (auto simp: list_next_def split: list.splits)

lemma feed_trace_loop:
  "\<exists>index. feed (trace_cb cfg blocked) fs ([], 0) = (trace_loop cfg blocked (take (MAX_DEPTH cfg + 1) fs) [] 0, index)"
  using list_source.run_trace_loop [where s = fs and cfg = cfg and blocked = blocked] unfolding offered_list by simp

section \<open>The handler with an unwinder\<close>

text \<open>
  Theory \<open>Profiler\<close> gives the frames of a delivery as a list. Here the body of \<^verbatim>\<open>perf_signal_handler\<close>, from the check of the program
  counter on, calls \<^verbatim>\<open>TraceImpl::trace\<close>: an \<open>unwinder\<close> gets the callback and its state and may not return, panic, or return.
\<close>

type_synonym 'v unwinder = "(backtrace \<Rightarrow> Frame \<Rightarrow> backtrace \<times> bool) \<Rightarrow> backtrace \<Rightarrow> ('v \<times> backtrace) outcome option"

definition handle_signal_with ::
  "platform \<Rightarrow> 'v unwinder \<Rightarrow> signal_env \<Rightarrow> Profiler \<Rightarrow> Profiler outcome option" where
  "handle_signal_with pl trace env p =
     (if (case se_pc env of Some addr \<Rightarrow> is_blocklisted p addr | None \<Rightarrow> False) then Some (Return p)
      else (case trace (trace_cb (pl_cfg pl) (is_blocklisted p)) ([], 0) of
              None \<Rightarrow> None
            | Some (Panic e) \<Rightarrow> Some (Panic e)
            | Some (Return (_, bt, _)) \<Rightarrow>
                Some (obind (write_thread_name (se_getname env) (se_thread env)
                        (replicate MAX_THREAD_NAME (CHR 0x00))) (\<lambda>name.
                      obind (cstr_to_bytes name) (\<lambda>name_bytes.
                        if is_thread_blocklisted p name_bytes then Return p
                        else Profiler_sample pl (se_write env) p bt name_bytes (se_thread env) (se_now env))))))"

definition collects :: "'v unwinder \<Rightarrow> config \<Rightarrow> (usize \<Rightarrow> bool) \<Rightarrow> Frame list \<Rightarrow> bool" where
  "collects trace cfg blocked frames \<longleftrightarrow>
     (\<exists>v index. trace (trace_cb cfg blocked) ([], 0) = Some (Return (v, trace_loop cfg blocked frames [] 0, index)))"

lemma handle_signal_collects:
  "collects trace (pl_cfg pl) (is_blocklisted p) frames \<Longrightarrow>
    handle_signal_with pl trace env p = Some (handle_signal pl (env\<lparr>se_frames := frames\<rparr>) p)"
  by (cases "se_pc env") (auto simp: collects_def handle_signal_with_def handle_signal_def Let_def cong: if_cong)

text \<open>The frames of a delivery, for each unwinder.\<close>

definition fp_frames :: "memory \<Rightarrow> config \<Rightarrow> ucontext option \<Rightarrow> Frame list" where
  "fp_frames mem cfg uc = (case uc of None \<Rightarrow> [] | Some c \<Rightarrow> fp_chain mem (MAX_DEPTH cfg + 1) 0 (context_frame_pointer c))"

definition fh_frames ::
  "('u \<Rightarrow> u64 \<Rightarrow> UnwindRegsNative \<Rightarrow> 'cache \<Rightarrow> 'it) \<Rightarrow> ('it, 'v) fh_step_fn \<Rightarrow> 'v reader \<Rightarrow> config \<Rightarrow> bool
     \<Rightarrow> ('u, 'cache) FramehopUnwinder \<Rightarrow> machine_context option \<Rightarrow> 'v \<Rightarrow> Frame list" where
  "fh_frames fh_iter fh_step read cfg free u ctx v =
     (case get_regs_from_context ctx of
        Some (regs, pc) \<Rightarrow>
          if free then offered (fh_next fh_step read) (MAX_DEPTH cfg + 1) (fh_iter (fh_unwinder u) pc regs (fh_cache u), v) else []
      | None \<Rightarrow> [])"

definition fp_unwinder :: "'os pipe_os \<Rightarrow> memory \<Rightarrow> ucontext option \<Rightarrow> 'os \<times> Pipes \<Rightarrow> ('os \<times> Pipes) unwinder" where
  "fp_unwinder P mem uc v cb c = fp_trace (validate P) mem uc cb v c"

definition fh_unwinder_trace ::
  "('u \<Rightarrow> u64 \<Rightarrow> UnwindRegsNative \<Rightarrow> 'cache \<Rightarrow> 'it) \<Rightarrow> ('it \<Rightarrow> 'cache) \<Rightarrow> ('it, 'v) fh_step_fn \<Rightarrow> 'v reader \<Rightarrow> bool
     \<Rightarrow> ('u, 'cache) FramehopUnwinder \<Rightarrow> machine_context option \<Rightarrow> 'v \<Rightarrow> (('u, 'cache) FramehopUnwinder \<times> 'v) unwinder" where
  "fh_unwinder_trace fh_iter it_cache fh_step read free u ctx v cb c =
     (case fh_trace fh_iter it_cache fh_step read free u ctx cb v c of
        None \<Rightarrow> None | Some (Panic e) \<Rightarrow> Some (Panic e) | Some (Return (u, v, c)) \<Rightarrow> Some (Return ((u, v), c)))"

definition bt_unwinder ::
  "('f, 'n) crate_frames \<Rightarrow> ((backtrace \<Rightarrow> 'f \<Rightarrow> backtrace \<times> bool) \<Rightarrow> backtrace \<Rightarrow> backtrace) \<Rightarrow> ucontext option \<Rightarrow> unit unwinder" where
  "bt_unwinder K trace_unsynchronized uc cb c = Some (Return ((), bt_trace K trace_unsynchronized uc cb c))"

lemma fp_unwinder_collects:
  assumes "pipe_laws P held dead readable intr piped nonblock" "\<forall>s. \<not> isl (snd (create_pipe P s))"
    and "pipe_inv held dead readable mem v"
  shows "collects (fp_unwinder P mem uc v) cfg blocked (fp_frames mem cfg uc)"
  using fp_trace_loop [OF pipe_validator [OF assms(1,2)] assms(3), of uc cfg blocked]
  by (simp add: collects_def fp_unwinder_def fp_frames_def)

lemma fh_unwinder_collects:
  assumes "pipe_laws P held dead readable intr piped nonblock" "\<forall>s. \<not> isl (snd (create_pipe P s))"
    and "pipe_inv held dead readable mem v"
    and "framehop_iterator fh_step (pipe_inv held dead readable mem)"
  shows "collects (fh_unwinder_trace fh_iter it_cache fh_step (read_stack (validate P) mem) free u ctx v) cfg blocked
    (fh_frames fh_iter fh_step (read_stack (validate P) mem) cfg free u ctx v)"
proof -
  obtain u' v' index where "fh_trace fh_iter it_cache fh_step (read_stack (validate P) mem) free u ctx (trace_cb cfg blocked) v ([], 0) =
      Some (Return (u', v', trace_loop cfg blocked (fh_frames fh_iter fh_step (read_stack (validate P) mem) cfg free u ctx v) [] 0, index))"
    unfolding fh_frames_def using fh_trace_loop [OF assms] by blast
  then show ?thesis by (auto simp: collects_def fh_unwinder_trace_def)
qed

lemma take_takeWhile_take: "n \<le> m \<Longrightarrow> take n (takeWhile P (take m xs)) = take n (takeWhile P xs)"
proof (induction xs arbitrary: n m)
  case (Cons x xs)
  then show ?case by (cases n; cases m) simp_all
qed simp

lemma bt_unwinder_collects:
  assumes "backtrace_crate K trace_unsynchronized stack"
  shows "collects (bt_unwinder K trace_unsynchronized uc) cfg blocked (map (bt_Frame K) stack)"
proof -
  have "trace_loop cfg blocked (take (MAX_DEPTH cfg + 1) fs) [] 0 = trace_loop cfg blocked fs [] 0" for fs
    by (simp add: trace_loop_eq take_takeWhile_take min_def)
  then show ?thesis
    using feed_trace_loop [of cfg blocked "map (bt_Frame K) stack"] backtrace_crate.bt_trace_feed [OF assms]
    by (auto simp: collects_def bt_unwinder_def)
qed

text \<open>A crate whose frames are addresses and whose stack is a given list.\<close>

definition list_crate :: "(Frame, string) crate_frames" where
  "list_crate = \<lparr>cf_ip = ip, cf_symbol_address = ip, cf_resolve_frame = (\<lambda>_. []), cf_as_bytes = (\<lambda>s. s)\<rparr>"

interpretation list_crate: backtrace_crate list_crate "\<lambda>cb. feed cb stack" stack for stack
  by unfold_locales (simp_all add: list_crate_def)

text \<open>
  C3. The handler is right about its unwinder. With each of the three implementations of \<^verbatim>\<open>TraceImpl\<close> in its place, given memory
  and what the address check, the framehop crate and the backtrace crate document, the body of the signal handler returns, and
  leaves exactly the profiler that it leaves when the frames are given as a list: the chain of saved frame pointers, the
  frames of the iterator, or the stack of the crate. All that is shown of deliveries with given frames holds with the
  unwinders.
\<close>

theorem handler_refines:
  assumes "pipe_laws P held dead readable intr piped nonblock" "\<forall>s. \<not> isl (snd (create_pipe P s))"
    and "pipe_inv held dead readable mem v"
    and "framehop_iterator fh_step (pipe_inv held dead readable mem)"
    and "backtrace_crate K trace_unsynchronized stack"
  shows "handle_signal_with pl (fp_unwinder P mem uc v) env p =
      Some (handle_signal pl (env\<lparr>se_frames := fp_frames mem (pl_cfg pl) uc\<rparr>) p) \<and>
    handle_signal_with pl (fh_unwinder_trace fh_iter it_cache fh_step (read_stack (validate P) mem) free u ctx v) env p =
      Some (handle_signal pl
        (env\<lparr>se_frames := fh_frames fh_iter fh_step (read_stack (validate P) mem) (pl_cfg pl) free u ctx v\<rparr>) p) \<and>
    handle_signal_with pl (bt_unwinder K trace_unsynchronized uc) env p =
      Some (handle_signal pl (env\<lparr>se_frames := map (bt_Frame K) stack\<rparr>) p)"
  using fp_unwinder_collects [OF assms(1-3)] fh_unwinder_collects [OF assms(1-4)] bt_unwinder_collects [OF assms(5)]
  by (intro conjI handle_signal_collects)

theorem handler_refines_witness:
  "\<exists>p q. Profiler_new (sim_platform default_config) None 0 = Inr p \<and>
    handle_signal_with (sim_platform default_config)
      (fp_unwinder (sim_pipe_os False) stack_mem (Some (LinuxContext 0x1000)) (space stack_mem, MEM_VALIDATE_PIPE)) (demo_env []) p =
      Some (Return q) \<and>
    p_sample_counter q = 1"
proof -
  let ?pl = "sim_platform default_config" and ?env = "demo_env [\<lparr>ip = 0xAAA\<rparr>, \<lparr>ip = 0xBBB\<rparr>]"
  obtain p where p: "Profiler_new ?pl None 0 = Inr p" "data_wf ?pl (p_data p)" and
    p0: "p = \<lparr>p_data = p_data p, p_sample_counter = 0, p_old_sigaction = None, p_running = False,
      p_clock_type = Cpu, p_thread_blocklist = [], p_on_stack = False, p_blocklist_segments = []\<rparr>"
    using Profiler_new_ok [OF sim_platform_ok, of 0 default_config] by auto
  have "\<not> env_blocked p ?env ''main''"
    by (subst p0) (simp add: env_blocked_def demo_env_def is_thread_blocklisted_def)
  then obtain data where signal: "handle_signal ?pl ?env p = Return (p\<lparr>p_sample_counter := p_sample_counter p + 1, p_data := data\<rparr>)"
    by (rule handle_signal_spec [OF sim_platform_ok p(2) demo_env_ok])
  have "fp_frames stack_mem (pl_cfg ?pl) (Some (LinuxContext 0x1000)) = [\<lparr>ip = 0xAAA\<rparr>, \<lparr>ip = 0xBBB\<rparr>]"
    using stack_chain [of "MAX_DEPTH default_config + 1"] by (simp add: fp_frames_def sim_platform_def MAX_DEPTH_def del: fp_chain.simps)
  moreover have "(demo_env [])\<lparr>se_frames := fs\<rparr> = demo_env fs" for fs by (simp add: demo_env_def)
  ultimately have "handle_signal_with ?pl (fp_unwinder (sim_pipe_os False) stack_mem (Some (LinuxContext 0x1000))
      (space stack_mem, MEM_VALIDATE_PIPE)) (demo_env []) p = Some (handle_signal ?pl ?env p)"
    using handler_refines [OF sim_pipe.pipe_laws_axioms [of False] sim_pipes_made space_inv [of stack_mem] fp_iter.framehop_iterator_axioms
        list_crate.backtrace_crate_axioms [of "[]"], where pl = ?pl and uc = "Some (LinuxContext 0x1000)" and env = "demo_env []"
        and p = p and fh_iter = fp_iter_new and u = "\<lparr>fh_unwinder = (), fh_cache = ()\<rparr>"]
    by simp
  moreover have "p_sample_counter p = 0" by (subst p0) simp
  ultimately show ?thesis using p(1) signal by auto
qed

end
