(* ===== verification/Targets.thy ===== *)
theory Targets
  imports Frames
begin

text \<open>
  Conditional compilation: the \<^verbatim>\<open>#[cfg(...)]\<close> attributes of \<^verbatim>\<open>src/src/\<close> and the features of \<^verbatim>\<open>src/Cargo.toml\<close>. A \<open>cfg\<close> is the
  predicate of an attribute, a \<open>site\<close> a name of the crate that is defined under several of them: the condition under which it
  is used, and the conditions of its definitions, in the order of the source. A crate compiles for a target only if every name
  that is used there is defined exactly once and no name twice; \<open>names_resolve\<close> says so of the sites of this crate. Which
  registers a machine context has is fixed by \<^verbatim>\<open>libc\<close> and not part of this.
\<close>

section \<open>Targets and features\<close>

datatype arch = X86_64 | Aarch64 | Riscv64 | Loongarch64 | Other_arch

datatype opsys = Linux | Android | Macos | Ios | Freebsd | Other_os

datatype libc_env = Gnu | Musl | Other_env

datatype feature =
    Default | Cpp | Flamegraph | Frame_pointer_f | Protobuf_any | Prost_codec | Protobuf_codec | Framehop_unwinder
  | Perfmaps | Large_depth | Huge_depth | Criterion

record target =
  tg_arch :: arch
  tg_os :: opsys
  tg_env :: libc_env
  tg_requested :: "feature list"

text \<open>The enumerations are finite, so statements about all targets can be decided.\<close>

lemma UNIV_arch: "UNIV = {X86_64, Aarch64, Riscv64, Loongarch64, Other_arch}"
  by (auto intro: arch.exhaust)

lemma UNIV_opsys: "UNIV = {Linux, Android, Macos, Ios, Freebsd, Other_os}"
  by (auto intro: opsys.exhaust)

lemma UNIV_libc_env: "UNIV = {Gnu, Musl, Other_env}"
  by (auto intro: libc_env.exhaust)

instantiation arch :: enum
begin

definition enum_arch :: "arch list" where
  "enum_arch = [X86_64, Aarch64, Riscv64, Loongarch64, Other_arch]"

definition enum_all_arch :: "(arch \<Rightarrow> bool) \<Rightarrow> bool" where
  "enum_all_arch P \<longleftrightarrow> P X86_64 \<and> P Aarch64 \<and> P Riscv64 \<and> P Loongarch64 \<and> P Other_arch"

definition enum_ex_arch :: "(arch \<Rightarrow> bool) \<Rightarrow> bool" where
  "enum_ex_arch P \<longleftrightarrow> P X86_64 \<or> P Aarch64 \<or> P Riscv64 \<or> P Loongarch64 \<or> P Other_arch"

instance
  by standard (simp_all add: enum_arch_def enum_all_arch_def enum_ex_arch_def UNIV_arch)

end

instantiation opsys :: enum
begin

definition enum_opsys :: "opsys list" where
  "enum_opsys = [Linux, Android, Macos, Ios, Freebsd, Other_os]"

definition enum_all_opsys :: "(opsys \<Rightarrow> bool) \<Rightarrow> bool" where
  "enum_all_opsys P \<longleftrightarrow> P Linux \<and> P Android \<and> P Macos \<and> P Ios \<and> P Freebsd \<and> P Other_os"

definition enum_ex_opsys :: "(opsys \<Rightarrow> bool) \<Rightarrow> bool" where
  "enum_ex_opsys P \<longleftrightarrow> P Linux \<or> P Android \<or> P Macos \<or> P Ios \<or> P Freebsd \<or> P Other_os"

instance
  by standard (simp_all add: enum_opsys_def enum_all_opsys_def enum_ex_opsys_def UNIV_opsys)

end

text \<open>The features that \<^verbatim>\<open>Cargo.toml\<close> says a feature enables, and what a request enables in the end.\<close>

fun feature_enables :: "feature \<Rightarrow> feature list" where
  "feature_enables Default = [Cpp, Framehop_unwinder, Flamegraph, Prost_codec]"
| "feature_enables Prost_codec = [Protobuf_any]"
| "feature_enables Protobuf_codec = [Protobuf_any]"
| "feature_enables _ = []"

definition expand_features :: "feature list \<Rightarrow> feature list" where
  "expand_features fs = fs @ concat (map feature_enables fs)"

definition enabled :: "target \<Rightarrow> feature \<Rightarrow> bool" where
  "enabled t f \<longleftrightarrow> f \<in> set (expand_features (expand_features (tg_requested t)))"

lemma set_expand_features: "set (expand_features fs) = set fs \<union> (\<Union>f \<in> set fs. set (feature_enables f))"
  by (simp add: expand_features_def)

lemma enables_twice: "h \<in> set (feature_enables k) \<Longrightarrow> set (feature_enables h) \<subseteq> {Protobuf_any}"
  by (cases k) auto

text \<open>Two rounds are enough.\<close>

lemma enabled_closed:
  assumes "enabled t f" and "g \<in> set (feature_enables f)"
  shows "enabled t g"
proof (cases "f \<in> set (expand_features (tg_requested t))")
  case True
  with assms(2) show ?thesis unfolding enabled_def set_expand_features [of "expand_features _"] by blast
next
  case False
  with assms(1) obtain h k where "f \<in> set (feature_enables h)" "h \<in> set (feature_enables k)"
    unfolding enabled_def set_expand_features by blast
  then have "f = Protobuf_any" using enables_twice by blast
  with assms(2) show ?thesis by simp
qed

section \<open>Predicates\<close>

datatype cfg = Target_arch arch | Target_os opsys | Target_env libc_env | Feature feature | All_of "cfg list" | Any_of "cfg list" | Not_of cfg

fun holds :: "target \<Rightarrow> cfg \<Rightarrow> bool" where
  "holds t (Target_arch a) = (tg_arch t = a)"
| "holds t (Target_os os) = (tg_os t = os)"
| "holds t (Target_env e) = (tg_env t = e)"
| "holds t (Feature f) = enabled t f"
| "holds t (All_of cs) = list_all (holds t) cs"
| "holds t (Any_of cs) = list_ex (holds t) cs"
| "holds t (Not_of c) = (\<not> holds t c)"

text \<open>The items of a list of guarded definitions that a target compiles.\<close>

definition compiled :: "target \<Rightarrow> (cfg \<times> 'a) list \<Rightarrow> 'a list" where
  "compiled t items = map snd (filter (\<lambda>i. holds t (fst i)) items)"

definition arch64_cfg :: cfg where
  "arch64_cfg = Any_of [Target_arch X86_64, Target_arch Aarch64, Target_arch Riscv64, Target_arch Loongarch64]"

section \<open>The guarded definitions\<close>

definition MAX_DEPTH_items :: "(cfg \<times> nat) list" where
  "MAX_DEPTH_items =
    [(Feature Large_depth, 1024),
     (All_of [Feature Huge_depth, Not_of (Feature Large_depth)], 512),
     (Not_of (Any_of [Feature Large_depth, Feature Huge_depth]), 128)]"

datatype trace_impl = Backtrace_rs | Frame_pointer | Framehop

definition framehop_cfg :: cfg where
  "framehop_cfg = All_of [Any_of [Target_arch X86_64, Target_arch Aarch64], Any_of [Target_os Linux, Target_os Macos],
     Feature Framehop_unwinder]"

definition TraceImpl_items :: "(cfg \<times> trace_impl) list" where
  "TraceImpl_items =
    [(Not_of (All_of [arch64_cfg, Any_of [Feature Frame_pointer_f, Feature Framehop_unwinder]]), Backtrace_rs),
     (All_of [arch64_cfg, Feature Frame_pointer_f, Not_of (Feature Framehop_unwinder)], Frame_pointer),
     (framehop_cfg, Framehop)]"

text \<open>The modules of the unwinders: the one with frame pointers is compiled even when the other is chosen.\<close>

definition backtrace_modules :: "(cfg \<times> trace_impl) list" where
  "backtrace_modules =
    [(Not_of (All_of [arch64_cfg, Any_of [Feature Frame_pointer_f, Feature Framehop_unwinder]]), Backtrace_rs),
     (All_of [arch64_cfg, Feature Frame_pointer_f], Frame_pointer),
     (framehop_cfg, Framehop)]"

definition frame_pointer_items :: "(cfg \<times> string) list" where
  "frame_pointer_items =
    [(All_of [Target_arch X86_64, Target_os Linux], ''gregs[REG_RBP]''),
     (All_of [Target_arch X86_64, Target_os Macos], ''__ss.__rbp''),
     (All_of [Target_arch Aarch64, Target_os Linux], ''regs[29]''),
     (All_of [Target_arch Aarch64, Target_os Macos], ''__ss.__fp''),
     (All_of [Target_arch Riscv64, Target_os Linux], ''__gregs[REG_S0]''),
     (All_of [Target_arch Loongarch64, Target_os Linux], ''__gregs[22]'')]"

definition get_regs_items :: "(cfg \<times> string) list" where
  "get_regs_items =
    [(All_of [Target_arch Aarch64, Target_os Macos], ''__ss''),
     (All_of [Target_arch X86_64, Target_os Macos], ''__ss''),
     (All_of [Target_arch Aarch64, Target_os Linux], ''regs''),
     (All_of [Target_arch X86_64, Target_os Linux], ''gregs'')]"

definition handler_addr_items :: "(cfg \<times> string) list" where
  "handler_addr_items =
    [(All_of [Target_arch X86_64, Target_os Linux], ''gregs[REG_RIP]''),
     (All_of [Target_arch X86_64, Target_os Freebsd], ''mc_rip''),
     (All_of [Target_arch X86_64, Target_os Macos], ''__ss.__rip''),
     (All_of [Target_arch Aarch64, Any_of [Target_os Android, Target_os Linux]], ''pc''),
     (All_of [Target_arch Aarch64, Target_os Freebsd], ''mc_gpregs.gp_elr''),
     (All_of [Target_arch Aarch64, Target_os Macos], ''__ss.__pc''),
     (All_of [Target_arch Riscv64, Target_os Linux], ''__gregs[REG_PC]''),
     (All_of [Target_arch Loongarch64, Target_os Linux], ''__pc'')]"

definition create_pipe_items :: "(cfg \<times> string) list" where
  "create_pipe_items =
    [(Any_of [Target_os Android, Target_os Linux], ''pipe2''),
     (Any_of [Target_os Macos, Target_os Freebsd], ''pipe'')]"

definition errno_items :: "(cfg \<times> string) list" where
  "errno_items =
    [(Target_os Android, ''__errno''),
     (Target_os Linux, ''__errno_location''),
     (Any_of [Target_os Macos, Target_os Freebsd], ''__error'')]"

definition getname_cfg :: cfg where
  "getname_cfg = Any_of [Target_os Macos, All_of [Target_os Linux, Any_of [Target_env Gnu, Target_env Musl]]]"

definition write_thread_name_items :: "(cfg \<times> string) list" where
  "write_thread_name_items = [(getname_cfg, ''pthread_getname_np''), (Not_of getname_cfg, ''fallback'')]"

definition resolve_in_perfmap_items :: "(cfg \<times> string) list" where
  "resolve_in_perfmap_items = [(Feature Perfmaps, ''perfmap''), (Not_of (Feature Perfmaps), ''None'')]"

definition protos_items :: "(cfg \<times> string) list" where
  "protos_items =
    [(All_of [Feature Prost_codec, Not_of (Feature Protobuf_codec)], ''prost''), (Feature Protobuf_codec, ''protobuf'')]"

section \<open>Names\<close>

text \<open>
  A site: a name for the reader, where the crate uses it, and the conditions of its definitions. \<^verbatim>\<open>is_blocklisted\<close> is defined for
  the four architectures only; the callback of the handler also uses it under \<^verbatim>\<open>frame-pointer\<close>. The last site is the
  \<^verbatim>\<open>compile_error!\<close> of \<^verbatim>\<open>criterion.rs\<close>, which needs an output format.
\<close>

record site =
  st_name :: string
  st_used :: cfg
  st_defined :: "cfg list"

definition always :: cfg where
  "always = All_of []"

definition sites :: "site list" where
  "sites =
    [\<lparr>st_name = ''MAX_DEPTH'', st_used = always, st_defined = map fst MAX_DEPTH_items\<rparr>,
     \<lparr>st_name = ''TraceImpl'', st_used = always, st_defined = map fst TraceImpl_items\<rparr>,
     \<lparr>st_name = ''frame_pointer'', st_used = All_of [arch64_cfg, Feature Frame_pointer_f], st_defined = map fst frame_pointer_items\<rparr>,
     \<lparr>st_name = ''get_regs_from_context'', st_used = framehop_cfg, st_defined = map fst get_regs_items\<rparr>,
     \<lparr>st_name = ''addr'', st_used = arch64_cfg, st_defined = map fst handler_addr_items\<rparr>,
     \<lparr>st_name = ''is_blocklisted'', st_used = Any_of [arch64_cfg, Feature Frame_pointer_f], st_defined = [arch64_cfg]\<rparr>,
     \<lparr>st_name = ''create_pipe'', st_used = always, st_defined = map fst create_pipe_items\<rparr>,
     \<lparr>st_name = ''ErrnoProtector::new'', st_used = always, st_defined = map fst errno_items\<rparr>,
     \<lparr>st_name = ''write_thread_name'', st_used = always, st_defined = map fst write_thread_name_items\<rparr>,
     \<lparr>st_name = ''resolve_in_perfmap'', st_used = always, st_defined = map fst resolve_in_perfmap_items\<rparr>,
     \<lparr>st_name = ''protos'', st_used = Feature Protobuf_any, st_defined = map fst protos_items\<rparr>,
     \<lparr>st_name = ''compile_error'', st_used = Feature Criterion, st_defined = [Any_of [Feature Protobuf_any, Feature Flamegraph]]\<rparr>]"

definition site_ok :: "target \<Rightarrow> site \<Rightarrow> bool" where
  "site_ok t s \<longleftrightarrow> (let n = length (filter (holds t) (st_defined s)) in n \<le> 1 \<and> (holds t (st_used s) \<longrightarrow> n = 1))"

definition names_resolve :: "target \<Rightarrow> bool" where
  "names_resolve t \<longleftrightarrow> list_all (site_ok t) sites"

section \<open>Where the crate compiles\<close>

definition config_of :: "target \<Rightarrow> config" where
  "config_of t =
     \<lparr>large_depth = enabled t Large_depth, huge_depth = enabled t Huge_depth,
      frame_pointer_feature = enabled t Frame_pointer_f, target_macos = (tg_os t \<in> {Macos, Ios})\<rparr>"

lemma holds_arch64 [simp]: "holds t arch64_cfg \<longleftrightarrow> tg_arch t \<noteq> Other_arch"
  by (cases "tg_arch t") (simp_all add: arch64_cfg_def)

lemma holds_framehop [simp]: "holds t framehop_cfg \<longleftrightarrow>
    tg_arch t \<in> {X86_64, Aarch64} \<and> tg_os t \<in> {Linux, Macos} \<and> enabled t Framehop_unwinder"
  by (auto simp: framehop_cfg_def)

lemma holds_always [simp]: "holds t always"
  by (simp add: always_def)

lemma holds_getname [simp]: "holds t getname_cfg \<longleftrightarrow>
    tg_os t = Macos \<or> tg_os t = Linux \<and> tg_env t \<in> {Gnu, Musl}"
  by (auto simp: getname_cfg_def)

text \<open>The targets whose registers the handler and the frame pointer unwinder know.\<close>

definition handler_targets :: "(arch \<times> opsys) set" where
  "handler_targets = {X86_64, Aarch64} \<times> {Linux, Freebsd, Macos} \<union> {(Aarch64, Android), (Riscv64, Linux), (Loongarch64, Linux)}"

definition frame_pointer_targets :: "(arch \<times> opsys) set" where
  "frame_pointer_targets = {X86_64, Aarch64} \<times> {Linux, Macos} \<union> {(Riscv64, Linux), (Loongarch64, Linux)}"

lemmas item_defs = MAX_DEPTH_items_def TraceImpl_items_def frame_pointer_items_def get_regs_items_def handler_addr_items_def
  create_pipe_items_def errno_items_def write_thread_name_items_def resolve_in_perfmap_items_def protos_items_def

lemma site_ok_iff: "site_ok t \<lparr>st_name = n, st_used = u, st_defined = ds\<rparr> \<longleftrightarrow>
    length (filter (holds t) ds) \<le> 1 \<and> (holds t u \<longrightarrow> length (filter (holds t) ds) = 1)"
  by (simp add: site_ok_def Let_def)

lemma free_sites:
  "length (filter (holds t) (map fst MAX_DEPTH_items)) = 1"
  "length (filter (holds t) (map fst write_thread_name_items)) = 1"
  "length (filter (holds t) (map fst resolve_in_perfmap_items)) = 1"
  by (auto simp: item_defs)

lemma os_sites:
  "length (filter (holds t) (map fst create_pipe_items)) = (if tg_os t \<in> {Linux, Android, Macos, Freebsd} then 1 else 0)"
  "length (filter (holds t) (map fst errno_items)) = (if tg_os t \<in> {Linux, Android, Macos, Freebsd} then 1 else 0)"
  by (cases "tg_os t"; simp add: item_defs)+

lemma register_sites:
  "length (filter (holds t) (map fst handler_addr_items)) = (if (tg_arch t, tg_os t) \<in> handler_targets then 1 else 0)"
  "length (filter (holds t) (map fst frame_pointer_items)) = (if (tg_arch t, tg_os t) \<in> frame_pointer_targets then 1 else 0)"
  "length (filter (holds t) (map fst get_regs_items)) =
     (if tg_arch t \<in> {X86_64, Aarch64} \<and> tg_os t \<in> {Linux, Macos} then 1 else 0)"
  by (cases "tg_arch t"; cases "tg_os t"; simp add: item_defs handler_targets_def frame_pointer_targets_def)+

lemma feature_sites:
  "length (filter (holds t) (map fst protos_items)) = (if enabled t Prost_codec \<or> enabled t Protobuf_codec then 1 else 0)"
  "compiled t MAX_DEPTH_items = [MAX_DEPTH (config_of t)]"
  by (auto simp: item_defs compiled_def MAX_DEPTH_def config_of_def)

text \<open>The unwinder of a target, if it has one.\<close>

definition unwinder_of :: "target \<Rightarrow> trace_impl option" where
  "unwinder_of t =
     (if tg_arch t = Other_arch \<or> \<not> enabled t Frame_pointer_f \<and> \<not> enabled t Framehop_unwinder then Some Backtrace_rs
      else if \<not> enabled t Framehop_unwinder then Some Frame_pointer
      else if tg_arch t \<in> {X86_64, Aarch64} \<and> tg_os t \<in> {Linux, Macos} then Some Framehop
      else None)"

lemma compiled_TraceImpl: "compiled t TraceImpl_items = (case unwinder_of t of Some i \<Rightarrow> [i] | None \<Rightarrow> [])"
  by (auto simp: TraceImpl_items_def compiled_def unwinder_of_def)

lemma length_compiled: "length (filter (holds t) (map fst items)) = length (compiled t items)"
  by (simp add: compiled_def filter_map o_def)

lemma names_resolve_iff:
  "names_resolve t \<longleftrightarrow> unwinder_of t \<noteq> None \<and> tg_os t \<in> {Linux, Android, Macos, Freebsd} \<and>
     (tg_arch t \<noteq> Other_arch \<longrightarrow> (tg_arch t, tg_os t) \<in> handler_targets) \<and>
     (enabled t Frame_pointer_f \<longrightarrow> (tg_arch t, tg_os t) \<in> frame_pointer_targets) \<and>
     (enabled t Protobuf_any \<longrightarrow> enabled t Prost_codec \<or> enabled t Protobuf_codec) \<and>
     (enabled t Criterion \<longrightarrow> enabled t Protobuf_any \<or> enabled t Flamegraph)"
proof -
  have "(tg_arch t, tg_os t) \<in> frame_pointer_targets \<Longrightarrow> tg_arch t \<noteq> Other_arch"
    by (auto simp: frame_pointer_targets_def)
  moreover have "length (filter (holds t) (map fst TraceImpl_items)) = (if unwinder_of t = None then 0 else 1)"
    by (simp only: length_compiled compiled_TraceImpl split: option.split) simp
  then have "names_resolve t \<longleftrightarrow> unwinder_of t \<noteq> None \<and>
      (tg_arch t \<noteq> Other_arch \<and> enabled t Frame_pointer_f \<longrightarrow> (tg_arch t, tg_os t) \<in> frame_pointer_targets) \<and>
      (tg_arch t \<noteq> Other_arch \<longrightarrow> (tg_arch t, tg_os t) \<in> handler_targets) \<and>
      (enabled t Frame_pointer_f \<longrightarrow> tg_arch t \<noteq> Other_arch) \<and> tg_os t \<in> {Linux, Android, Macos, Freebsd} \<and>
      (enabled t Protobuf_any \<longrightarrow> enabled t Prost_codec \<or> enabled t Protobuf_codec) \<and>
      (enabled t Criterion \<longrightarrow> enabled t Protobuf_any \<or> enabled t Flamegraph)"
    by (simp only: names_resolve_def sites_def list.pred_inject site_ok_iff free_sites os_sites register_sites feature_sites(1))
      (simp cong: conj_cong)
  ultimately show ?thesis by blast
qed

text \<open>
  C32. Where the crate compiles, and with which unwinder. Its names resolve exactly on Linux, Android, macOS and FreeBSD with,
  on a 64-bit architecture it knows, an operating system whose registers the handler reads; with \<^verbatim>\<open>frame-pointer\<close> only where the
  frame pointer is read, and with \<^verbatim>\<open>framehop-unwinder\<close> on a known architecture only on x86-64 and AArch64 under Linux and macOS; with a codec
  for protobuf and an output for criterion if those are asked for. Then exactly one unwinder is \<^verbatim>\<open>TraceImpl\<close>, framehop before frame
  pointers before the backtrace crate, and one depth is \<^verbatim>\<open>MAX_DEPTH\<close>. With the default features, which include framehop, nothing but
  x86-64 and AArch64 Linux and macOS and the unknown architectures is left: RISC-V, LoongArch, FreeBSD on x86-64 and AArch64, and Android
  on AArch64, which all compile without default features, do not.
\<close>

theorem crate_targets:
  "(names_resolve t \<longleftrightarrow> unwinder_of t \<noteq> None \<and> tg_os t \<in> {Linux, Android, Macos, Freebsd} \<and>
     (tg_arch t \<noteq> Other_arch \<longrightarrow> (tg_arch t, tg_os t) \<in> handler_targets) \<and>
     (enabled t Frame_pointer_f \<longrightarrow> (tg_arch t, tg_os t) \<in> frame_pointer_targets) \<and>
     (enabled t Protobuf_any \<longrightarrow> enabled t Prost_codec \<or> enabled t Protobuf_codec) \<and>
     (enabled t Criterion \<longrightarrow> enabled t Protobuf_any \<or> enabled t Flamegraph)) \<and>
   (names_resolve t \<longrightarrow> compiled t TraceImpl_items = [the (unwinder_of t)]) \<and>
   compiled t MAX_DEPTH_items = [MAX_DEPTH (config_of t)] \<and>
   (names_resolve (t\<lparr>tg_requested := [Default]\<rparr>) \<longleftrightarrow>
      tg_arch t \<in> {X86_64, Aarch64} \<and> tg_os t \<in> {Linux, Macos} \<or>
      tg_arch t = Other_arch \<and> tg_os t \<in> {Linux, Android, Macos, Freebsd}) \<and>
   ((tg_arch t, tg_os t) \<in> handler_targets \<longrightarrow> names_resolve (t\<lparr>tg_requested := []\<rparr>))"
proof -
  have default: "enabled (t\<lparr>tg_requested := [Default]\<rparr>) f \<longleftrightarrow> f \<in> {Default, Cpp, Framehop_unwinder, Flamegraph, Prost_codec, Protobuf_any}"
    and none: "\<not> enabled (t\<lparr>tg_requested := []\<rparr>) f" for f
    by (auto simp: enabled_def expand_features_def)
  have "names_resolve (t\<lparr>tg_requested := [Default]\<rparr>) \<longleftrightarrow>
      tg_arch t \<in> {X86_64, Aarch64} \<and> tg_os t \<in> {Linux, Macos} \<or>
      tg_arch t = Other_arch \<and> tg_os t \<in> {Linux, Android, Macos, Freebsd}"
    unfolding names_resolve_iff by (cases "tg_arch t") (auto simp: unwinder_of_def handler_targets_def default)
  moreover have "names_resolve (t\<lparr>tg_requested := []\<rparr>)" if "(tg_arch t, tg_os t) \<in> handler_targets"
    using that unfolding names_resolve_iff by (auto simp: unwinder_of_def none handler_targets_def)
  moreover have "compiled t TraceImpl_items = [the (unwinder_of t)]" if "names_resolve t"
    using that unfolding names_resolve_iff compiled_TraceImpl by auto
  ultimately show ?thesis using names_resolve_iff [of t] feature_sites(2) [of t] by blast
qed

theorem crate_targets_witness:
  "names_resolve \<lparr>tg_arch = X86_64, tg_os = Linux, tg_env = Gnu, tg_requested = [Default]\<rparr> \<and>
   \<not> names_resolve \<lparr>tg_arch = Riscv64, tg_os = Linux, tg_env = Gnu, tg_requested = [Default]\<rparr> \<and>
   names_resolve \<lparr>tg_arch = Riscv64, tg_os = Linux, tg_env = Gnu, tg_requested = []\<rparr> \<and>
   compiled \<lparr>tg_arch = X86_64, tg_os = Linux, tg_env = Gnu, tg_requested = [Default]\<rparr> TraceImpl_items = [Framehop]"
proof -
  have "unwinder_of \<lparr>tg_arch = X86_64, tg_os = Linux, tg_env = Gnu, tg_requested = [Default]\<rparr> = Some Framehop"
    by (simp add: unwinder_of_def enabled_def expand_features_def)
  then show ?thesis
    using crate_targets [of "\<lparr>tg_arch = X86_64, tg_os = Linux, tg_env = Gnu, tg_requested = [Default]\<rparr>"]
      crate_targets [of "\<lparr>tg_arch = Riscv64, tg_os = Linux, tg_env = Gnu, tg_requested = []\<rparr>"]
    by (clarsimp simp: handler_targets_def)
qed

end
