(* ===== verification/Spec2Isabelle.thy ===== *)
theory Spec2Isabelle
  imports Alloc_Wait Pprof_Lines Report_Rates Perfmap Pipeline Sample_Merge Backtrace Targets
begin

text \<open>
  A verification library for rpprof, a sampling CPU and heap profiler for Rust programs (\<^verbatim>\<open>src/src/\<close>).

  \<^bold>\<open>The program.\<close> A \<^verbatim>\<open>ProfilerGuardBuilder\<close> starts the one global profiler: it installs \<^verbatim>\<open>perf_signal_handler\<close> with \<^verbatim>\<open>sigaction\<close> and
  arms an interval timer (\<^verbatim>\<open>profiler.rs\<close>, \<^verbatim>\<open>timer.rs\<close>). On every signal the handler tries the profiler's lock; if it gets it, an
  unwinder (\<^verbatim>\<open>backtrace/\<close>) offers the frames of the interrupted thread, checking each address it reads (\<^verbatim>\<open>addr_validate.rs\<close>), and the
  stack is counted in the collector (\<^verbatim>\<open>collector.rs\<close>): a hash table of small buckets that spills what it evicts into a
  temporary file. A report (\<^verbatim>\<open>report.rs\<close>) reads the collector back, resolves addresses to symbols (\<^verbatim>\<open>frames.rs\<close>, \<^verbatim>\<open>perfmap.rs\<close>) and is
  written as folded stacks, Speedscope JSON, a flame graph or a pprof profile. Dropping the guard stops the timer, restores the
  signal and empties the collector. Independently, \<^verbatim>\<open>alloc.rs\<close> wraps the allocator and samples live blocks; its report shares the
  pprof tables. \<^verbatim>\<open>lib.rs\<close> and \<^verbatim>\<open>criterion.rs\<close> drive whole profiles.

  \<^bold>\<open>The theories.\<close> Each theory names the source files it models; definitions keep the names of the code, with the type in
  front of a method (\<^verbatim>\<open>Bucket::add\<close> is \<open>Bucket_add\<close>).

  \<^item> \<open>Prelude\<close>: machine integers of a 64-bit target, \<open>outcome\<close> for panics, \<open>Error\<close> (\<^verbatim>\<open>error.rs\<close>), hash maps over a user-defined
    equality (locale \<open>key_eq\<close>), little-endian memory images, printers.
  \<^item> \<open>Utf8\<close>: lossy decoding and validity of UTF-8.
  \<^item> \<open>Hash_Counter\<close>, \<open>Temp_Fd_Array\<close>, \<open>Collector\<close> (\<^verbatim>\<open>collector.rs\<close>): state \<open>HashCounter\<close>, \<open>TempFdArray\<close>, \<open>Collector\<close>. Locales \<open>hash_key\<close>,
    \<open>layout_laws\<close> and \<open>collector_laws\<close> are the contracts of the key type and of the memory image of an entry. Shown: no count
    is lost or invented, across eviction and spilling; a full bucket evicts a least count; the spill file is read back as
    it was written; after a failed write the file cannot be read any more.
  \<^item> \<open>Frames\<close> (\<^verbatim>\<open>frames.rs\<close>, \<^verbatim>\<open>backtrace/mod.rs\<close>): raw and resolved stacks, their equality and hash, symbol names, the removal of the
    handler's own frames.
  \<^item> \<open>Targets\<close>: the \<^verbatim>\<open>cfg\<close> attributes of all files and the features of \<^verbatim>\<open>Cargo.toml\<close>. Shown: for which targets and features every
    name of the crate is defined once, and which unwinder is compiled there.
  \<^item> \<open>Timer\<close> (\<^verbatim>\<open>timer.rs\<close>): the interval of a frequency; locale \<open>itimer_os\<close> is \<^verbatim>\<open>setitimer(2)\<close>. Shown: what every
    frequency does: the exact period between 1 Hz and 1 MHz, a panic, a disarmed or an unchanged timer outside.
  \<^item> \<open>Profiler\<close> (\<^verbatim>\<open>profiler.rs\<close>): \<open>world\<close> is the shared state; builder, guard, start, stop, signal handler, thread names, block lists.
    Shown: one signal adds one to exactly its stack, is filtered, or is counted as missed, and \<^verbatim>\<open>errno\<close> and the kernel are kept.
  \<^item> \<open>Profiler_States\<close>: the profiler as a step relation over guards, signals and the lock; locale \<open>kernel_laws\<close> adds
    \<^verbatim>\<open>sigaction(2)\<close>. Shown: the invariant of all reachable states, restoration after a profile, and the states from which no
    profile can be started any more.
  \<^item> \<open>Report\<close>, \<open>Report_Formats\<close>, \<open>Pprof\<close> (\<^verbatim>\<open>report.rs\<close>, \<^verbatim>\<open>proto/\<close>): reports are exact counts of the samples; the folded and pprof
    formats can be read back; Speedscope output is the serialisation of a JSON value with consistent tables.
  \<^item> \<open>Sample_Merge\<close>: samples of equal functions are shown as the first of them.
  \<^item> \<open>Report_Rates\<close> (\<^verbatim>\<open>report.rs\<close>): \<^verbatim>\<open>samples_per_second\<close> in double precision.
  \<^item> \<open>Alloc\<close> (\<^verbatim>\<open>alloc.rs\<close>): the hooks as operations. Shown: the sharded heap table refines a map of live sampled blocks; the
    sampling period; heap reports and their pprof export.
  \<^item> \<open>Pprof_Valid\<close>: every profile that \<^verbatim>\<open>pprof\<close> returns is valid: indices, ids and references (\<open>profile_ok\<close>). \<open>Pprof_Lines\<close>:
    it has one location for each symbol name, with the line of the first symbol of that name.
  \<^item> \<open>Alloc_Steps\<close> (\<^verbatim>\<open>alloc.rs\<close>): the same hooks as sequences of critical sections and atomic operations, with a schedule that
    interleaves the threads (\<open>conc_step\<close>, \<open>conc_run\<close>); locale \<open>schedule_invariant\<close> lifts an invariant from steps to schedules. Shown: a
    hook that runs alone is the operation of \<open>Alloc\<close>.
  \<^item> \<open>Alloc_Exact\<close>: the invariant of all interleavings of allocation, deallocation and reallocation in place, by which the counters are
    exact whenever no hook is running; and the schedules with \<^verbatim>\<open>realloc\<close>, \<^verbatim>\<open>reset\<close> and \<^verbatim>\<open>stop\<close> after which they are wrong.
  \<^item> \<open>Alloc_Wait\<close>: the locks. Shown: hooks and \<^verbatim>\<open>reset\<close> never deadlock and end in a bounded number of steps; \<^verbatim>\<open>heap_report\<close> can block itself.
  \<^item> \<open>Addr_Validate\<close> (\<^verbatim>\<open>addr_validate.rs\<close>): \<open>validate\<close> over an abstract kernel; locale \<open>pipe_laws\<close> is the behaviour of pipes. Shown:
    it returns, is exact, and never lets its pipe fill.
  \<^item> \<open>Unwind\<close>, \<open>Frame_Pointer\<close>, \<open>Framehop\<close> (\<^verbatim>\<open>backtrace/\<close>): locale \<open>validator\<close> is what an unwinder needs of \<open>validate\<close>, locale \<open>frame_source\<close>
    a loop that offers frames to the handler's callback, locale \<open>framehop_iterator\<close> what the framehop crate must do. Shown: both
    unwinders end and read only mapped memory.
  \<^item> \<open>Backtrace\<close> (\<^verbatim>\<open>backtrace/backtrace_rs.rs\<close>, \<^verbatim>\<open>profiler.rs\<close>): the third unwinder, over the backtrace crate (locale \<open>backtrace_crate\<close>), and the
    body of the handler with an unwinder in it. Shown: with each of the three it is the handler of theory \<open>Profiler\<close>, which takes the
    frames as a list.
  \<^item> \<open>Perfmap\<close> (\<^verbatim>\<open>perfmap.rs\<close>): the parser from bytes, lookup, and the resolver. Shown: symbols that were written resolve; one bad
    line discards the map; the first use truncates the file.
  \<^item> \<open>Api\<close> (\<^verbatim>\<open>lib.rs\<close>, \<^verbatim>\<open>criterion.rs\<close>): whole profiles, which are complete and leave everything as it was.
  \<^item> \<open>Pipeline\<close>: the components in sequence. Shown: what a pprof file says of each stack is the number of its signals, from build to
    drop of the guard; and what a heap profile says of each call site is what is live there, whatever threads allocate.
  \<^item> This theory: the perf map inside resolution.

  \<^bold>\<open>Conventions.\<close> Integers are words of their width and wrap, as in a release build. A panic is the value \<open>Panic\<close>; a read through
  a bad raw pointer, which has no defined result, is one too. Other crates, the kernel and the file system are arguments, and what
  the code relies on is stated as locale assumptions or as named hypotheses; each of them has an instance (\<open>sim_kernel\<close>,
  \<open>steady_kernel\<close>, \<open>sim_pipe\<close>, \<open>sim_platform\<close>, \<open>fp_iter\<close>, \<open>list_crate\<close>). The signal handler runs as one step, the deliveries of a run are a list, each
  with whether it finds the lock taken. The heap profiler runs in steps: each critical section and each atomic operation is one. A
  guard that is taken and dropped within a step is not part of the state, the two that are kept longer are. Atomics are
  sequentially consistent; a lock is granted to anyone whenever it is free.

  \<^bold>\<open>Loops.\<close> Iterators and parsers are total functions with a measure. Three loops need not end by themselves and are partial
  functions whose value \<open>None\<close> is not returning: the interrupted system calls (they end because the kernel interrupts finitely
  often), and the two unwinders (they end because the callback refuses after \<open>MAX_DEPTH\<close> frames, so \<open>MAX_DEPTH + 1\<close> frames of
  the source are enough). The steps of the heap hooks have a measure (\<open>total_work\<close>), at most \<open>NUM_SHARDS + 3\<close> for each thread.

  \<^bold>\<open>Not modelled.\<close> The encoding of protobuf messages and the rendering of flame graphs (other
  crates); the \<^verbatim>\<open>Debug\<close> output of raw samples; \<^verbatim>\<open>build.rs\<close>, examples, benches and tests; memory that other threads unmap between a check and the read it guards.
\<close>

section \<open>The perf map inside resolution\<close>

text \<open>A frame that the perf map knows gets the name found there, and no other symbol.\<close>

lemma perfmap_frame_symbols:
  "PerfMap_find m (ip frame) = Some name \<Longrightarrow>
     frame_symbols (resolve_in_perfmap (Some m)) resolve frame = [Symbol_from_perfmap name]"
  by (simp add: frame_symbols_def resolve_in_perfmap_def)

lemma no_perfmap_frame_symbols:
  "frame_symbols (resolve_in_perfmap None) resolve frame = map Symbol_from (resolve (ip frame))"
  by (simp add: frame_symbols_def resolve_in_perfmap_def)

end
